(* ===== verification/Go_Prelude.thy ===== *)
theory Go_Prelude
  imports Main "HOL-Library.Word" "HOL-Library.Product_Lexorder"
begin

text \<open>
  The part of the Go language every component of MagicTun rests on: unsigned integers of a
  fixed width, byte slices with the bounds checks the runtime makes, big-endian accessors of
  package encoding/binary, the zeroed buffers the encoders fill, and the iteration order of a
  map. The lemmas below carry the component proofs; the collections are:
  \<^item> \<open>go_outcome\<close>: the equations of the three-way result of a fallible call;
  \<^item> \<open>go_read\<close>: reads from a slice at a known offset;
  \<^item> \<open>go_write\<close>: writes into a buffer whose tail is still zero.
\<close>

unbundle bit_operations_syntax

named_theorems go_outcome \<open>equations of fallible calls\<close>
named_theorems go_read \<open>reads from a byte slice\<close>
named_theorems go_write \<open>writes into a zeroed buffer\<close>

type_synonym byte = "8 word"
type_synonym bytes = "8 word list"
type_synonym uint16 = "16 word"
type_synonym uint32 = "32 word"
type_synonym uint64 = "64 word"

text \<open>Instants and durations are counted in nanoseconds.\<close>

type_synonym go_time = int
type_synonym duration = int

subsection \<open>Calls that return, fail or panic\<close>

text \<open>
  A call returns a value, returns an error, or panics (a bounds check of the runtime fails and
  the goroutine, and with it the process, is torn down).
\<close>

datatype ('e, 'a) outcome = Return 'a | Error 'e | Panic

fun go_bind :: "('e, 'a) outcome \<Rightarrow> ('a \<Rightarrow> ('e, 'b) outcome) \<Rightarrow> ('e, 'b) outcome" where
  "go_bind (Return x) f = f x"
| "go_bind (Error e) f = Error e"
| "go_bind Panic f = Panic"

definition go_guard :: "bool \<Rightarrow> 'e \<Rightarrow> ('e, 'a) outcome \<Rightarrow> ('e, 'a) outcome" where
  "go_guard bad e rest = (if bad then Error e else rest)"

subsection \<open>Slices\<close>

text \<open>\<open>data[i]\<close>, \<open>data[lo:hi]\<close> and \<open>data[lo:]\<close>.\<close>

definition index_at :: "'x list \<Rightarrow> nat \<Rightarrow> ('e, 'x) outcome" where
  "index_at data i = (if i < length data then Return (data ! i) else Panic)"

definition slice_of :: "'x list \<Rightarrow> nat \<Rightarrow> nat \<Rightarrow> ('e, 'x list) outcome" where
  "slice_of data lo hi =
     (if lo \<le> hi \<and> hi \<le> length data then Return (take (hi - lo) (drop lo data)) else Panic)"

definition slice_from :: "'x list \<Rightarrow> nat \<Rightarrow> ('e, 'x list) outcome" where
  "slice_from data lo = (if lo \<le> length data then Return (drop lo data) else Panic)"

subsection \<open>Package encoding/binary, big endian\<close>

definition PutUint16 :: "uint16 \<Rightarrow> bytes" where
  "PutUint16 v = [ucast (drop_bit 8 v), ucast v]"

definition PutUint32 :: "uint32 \<Rightarrow> bytes" where
  "PutUint32 v = [ucast (drop_bit 24 v), ucast (drop_bit 16 v), ucast (drop_bit 8 v), ucast v]"

definition PutUint64 :: "uint64 \<Rightarrow> bytes" where
  "PutUint64 v =
     [ucast (drop_bit 56 v), ucast (drop_bit 48 v), ucast (drop_bit 40 v), ucast (drop_bit 32 v),
      ucast (drop_bit 24 v), ucast (drop_bit 16 v), ucast (drop_bit 8 v), ucast v]"

text \<open>The readers index their slice and so panic on a short one.\<close>

fun Uint16 :: "bytes \<Rightarrow> ('e, uint16) outcome" where
  "Uint16 (b0 # b1 # _) = Return (ucast b1 OR push_bit 8 (ucast b0))"
| "Uint16 _ = Panic"

fun Uint32 :: "bytes \<Rightarrow> ('e, uint32) outcome" where
  "Uint32 (b0 # b1 # b2 # b3 # _) =
     Return (ucast b3 OR push_bit 8 (ucast b2) OR push_bit 16 (ucast b1) OR push_bit 24 (ucast b0))"
| "Uint32 _ = Panic"

fun Uint64 :: "bytes \<Rightarrow> ('e, uint64) outcome" where
  "Uint64 (b0 # b1 # b2 # b3 # b4 # b5 # b6 # b7 # _) =
     Return (ucast b7 OR push_bit 8 (ucast b6) OR push_bit 16 (ucast b5) OR push_bit 24 (ucast b4)
       OR push_bit 32 (ucast b3) OR push_bit 40 (ucast b2) OR push_bit 48 (ucast b1)
       OR push_bit 56 (ucast b0))"
| "Uint64 _ = Panic"

text \<open>\<open>binary.BigEndian.Uint32(data[off:])\<close> and its siblings.\<close>

definition Uint16_at :: "bytes \<Rightarrow> nat \<Rightarrow> ('e, uint16) outcome" where
  "Uint16_at data off = go_bind (slice_from data off) Uint16"

definition Uint32_at :: "bytes \<Rightarrow> nat \<Rightarrow> ('e, uint32) outcome" where
  "Uint32_at data off = go_bind (slice_from data off) Uint32"

definition Uint64_at :: "bytes \<Rightarrow> nat \<Rightarrow> ('e, uint64) outcome" where
  "Uint64_at data off = go_bind (slice_from data off) Uint64"

text \<open>The value such a read finds when the slice is long enough.\<close>

definition uint16_val :: "bytes \<Rightarrow> nat \<Rightarrow> uint16" where
  "uint16_val data off =
     (case Uint16 (drop off data) :: (unit, uint16) outcome of Return v \<Rightarrow> v | _ \<Rightarrow> 0)"

definition uint32_val :: "bytes \<Rightarrow> nat \<Rightarrow> uint32" where
  "uint32_val data off =
     (case Uint32 (drop off data) :: (unit, uint32) outcome of Return v \<Rightarrow> v | _ \<Rightarrow> 0)"

definition uint64_val :: "bytes \<Rightarrow> nat \<Rightarrow> uint64" where
  "uint64_val data off =
     (case Uint64 (drop off data) :: (unit, uint64) outcome of Return v \<Rightarrow> v | _ \<Rightarrow> 0)"

subsection \<open>Buffers under construction\<close>

text \<open>
  The encoders allocate a zeroed buffer of the final size and advance an offset through it. A
  buffer under construction is the pair of its contents and that offset. \<open>put_field n src\<close> is
  \<open>copy(buf[off:], src)\<close> followed by \<open>off += n\<close>: like Go's copy it writes no more than fits.
\<close>

type_synonym go_buf = "bytes \<times> nat"

definition make_buf :: "nat \<Rightarrow> go_buf" where
  "make_buf n = (replicate n 0, 0)"

definition put_field :: "nat \<Rightarrow> bytes \<Rightarrow> go_buf \<Rightarrow> go_buf" where
  "put_field n src b =
     (let (buf, off) = b
      in (take off buf @ take (length buf - off) src @ drop (off + length src) buf, off + n))"

abbreviation put_byte :: "byte \<Rightarrow> go_buf \<Rightarrow> go_buf" where
  "put_byte v \<equiv> put_field 1 [v]"

abbreviation put_u16 :: "uint16 \<Rightarrow> go_buf \<Rightarrow> go_buf" where
  "put_u16 v \<equiv> put_field 2 (PutUint16 v)"

abbreviation put_u32 :: "uint32 \<Rightarrow> go_buf \<Rightarrow> go_buf" where
  "put_u32 v \<equiv> put_field 4 (PutUint32 v)"

abbreviation put_u64 :: "uint64 \<Rightarrow> go_buf \<Rightarrow> go_buf" where
  "put_u64 v \<equiv> put_field 8 (PutUint64 v)"

text \<open>A buffer that holds \<open>pre\<close> and \<open>k\<close> bytes not yet written.\<close>

definition written :: "bytes \<Rightarrow> nat \<Rightarrow> go_buf" where
  "written pre k = (pre @ replicate k 0, length pre)"

text \<open>A fixed-size array filled by \<open>copy(arr[:], src)\<close>: cut or padded with zeros to \<open>n\<close> bytes.\<close>

definition copy_array :: "nat \<Rightarrow> bytes \<Rightarrow> bytes" where
  "copy_array n src = take n src @ replicate (n - length src) 0"

subsection \<open>Strings\<close>

text \<open>A Go string is a sequence of bytes; \<open>[]byte(s)\<close> and \<open>string(b)\<close> convert.\<close>

definition bytes_of_string :: "string \<Rightarrow> bytes" where
  "bytes_of_string s = map (\<lambda>c. of_nat (of_char c)) s"

definition string_of_bytes :: "bytes \<Rightarrow> string" where
  "string_of_bytes bs = map (\<lambda>b. char_of (unat b)) bs"

subsection \<open>Maps\<close>

text \<open>
  A range loop over a map visits every key once, in an order the language leaves open. A loop
  over a map takes that order as an argument, and its theorems hold for every order admitted by
  \<open>range_order\<close>.
\<close>

definition range_order :: "('k \<rightharpoonup> 'v) \<Rightarrow> 'k list \<Rightarrow> bool" where
  "range_order m ks \<longleftrightarrow> distinct ks \<and> set ks = dom m"

subsection \<open>Lemmas on outcomes\<close>

lemma go_bind_Return_iff [go_outcome]:
  "go_bind m f = Return y \<longleftrightarrow> (\<exists>x. m = Return x \<and> f x = Return y)"
  by (cases m) auto

lemma go_bind_Panic_iff [go_outcome]:
  "go_bind m f = Panic \<longleftrightarrow> m = Panic \<or> (\<exists>x. m = Return x \<and> f x = Panic)"
  by (cases m) auto

lemma go_bind_Error_iff [go_outcome]:
  "go_bind m f = Error e \<longleftrightarrow> m = Error e \<or> (\<exists>x. m = Return x \<and> f x = Error e)"
  by (cases m) auto

lemma go_guard_simps [simp]:
  "go_guard True e r = Error e"
  "go_guard False e r = r"
  by (simp_all add: go_guard_def)

subsection \<open>Lemmas on conversions\<close>

text \<open>\<open>byte(n)\<close>, \<open>uint16(n)\<close> and \<open>uint32(n)\<close> keep the numbers that fit.\<close>

lemma unat_of_nat_byte [simp]: "n < 256 \<Longrightarrow> unat (of_nat n :: byte) = n"
  by (simp add: unat_of_nat)

lemma unat_of_nat_uint16 [simp]: "n < 65536 \<Longrightarrow> unat (of_nat n :: uint16) = n"
  by (simp add: unat_of_nat)

lemma unat_of_nat_uint32 [simp]: "n < 4294967296 \<Longrightarrow> unat (of_nat n :: uint32) = n"
  by (simp add: unat_of_nat)

lemma length_bytes_of_string [simp]: "length (bytes_of_string s) = length s"
  by (simp add: bytes_of_string_def)

lemma length_string_of_bytes [simp]: "length (string_of_bytes bs) = length bs"
  by (simp add: string_of_bytes_def)

lemma string_of_bytes_of_string [simp]: "string_of_bytes (bytes_of_string s) = s"
  by (simp add: string_of_bytes_def bytes_of_string_def comp_def)

subsection \<open>Lemmas on reads\<close>

lemma length_Put [simp]:
  "length (PutUint16 v) = 2"
  "length (PutUint32 w) = 4"
  "length (PutUint64 x) = 8"
  by (simp_all add: PutUint16_def PutUint32_def PutUint64_def)

text \<open>A word is the disjunction of its bytes, each moved back to its place.\<close>

lemma bit_byte_of:
  fixes v :: "'a::len word"
  shows "bit (push_bit k (ucast (ucast (drop_bit k v) :: byte)) :: 'a word) n
    \<longleftrightarrow> k \<le> n \<and> n < k + 8 \<and> bit v n"
  by (cases "k \<le> n") (auto simp: bit_simps dest: bit_imp_le_length)

lemma bit_byte_low:
  fixes v :: "'a::len word"
  shows "bit (ucast (ucast v :: byte) :: 'a word) n \<longleftrightarrow> n < 8 \<and> bit v n"
  by (auto simp: bit_simps dest: bit_imp_le_length)

lemmas bit_bytes = bit_or_iff bit_byte_of bit_byte_low

lemma bytes_of_uint16:
  fixes v :: uint16
  shows "ucast (ucast v :: byte) OR push_bit 8 (ucast (ucast (drop_bit 8 v) :: byte)) = v"
    (is "?bytes = v")
proof (rule bit_word_eqI)
  fix n
  assume "n < LENGTH(16)"
  then have n: "n < 16" by simp
  have "bit ?bytes n \<longleftrightarrow> bit v n \<and> (n < 8 \<or> 8 \<le> n \<and> n < 16)"
    unfolding bit_bytes by auto
  with n show "bit ?bytes n = bit v n" by linarith
qed

lemma bytes_of_uint32:
  fixes v :: uint32
  shows "ucast (ucast v :: byte) OR push_bit 8 (ucast (ucast (drop_bit 8 v) :: byte))
    OR push_bit 16 (ucast (ucast (drop_bit 16 v) :: byte))
    OR push_bit 24 (ucast (ucast (drop_bit 24 v) :: byte)) = v"
    (is "?bytes = v")
proof (rule bit_word_eqI)
  fix n
  assume "n < LENGTH(32)"
  then have n: "n < 32" by simp
  have "bit ?bytes n \<longleftrightarrow>
    bit v n \<and> (n < 8 \<or> 8 \<le> n \<and> n < 16 \<or> 16 \<le> n \<and> n < 24 \<or> 24 \<le> n \<and> n < 32)"
    unfolding bit_bytes by auto
  with n show "bit ?bytes n = bit v n" by linarith
qed

lemma bytes_of_uint64:
  fixes v :: uint64
  shows "ucast (ucast v :: byte) OR push_bit 8 (ucast (ucast (drop_bit 8 v) :: byte))
    OR push_bit 16 (ucast (ucast (drop_bit 16 v) :: byte))
    OR push_bit 24 (ucast (ucast (drop_bit 24 v) :: byte))
    OR push_bit 32 (ucast (ucast (drop_bit 32 v) :: byte))
    OR push_bit 40 (ucast (ucast (drop_bit 40 v) :: byte))
    OR push_bit 48 (ucast (ucast (drop_bit 48 v) :: byte))
    OR push_bit 56 (ucast (ucast (drop_bit 56 v) :: byte)) = v"
    (is "?bytes = v")
proof (rule bit_word_eqI)
  fix n
  assume "n < LENGTH(64)"
  then have n: "n < 64" by simp
  have "bit ?bytes n \<longleftrightarrow>
    bit v n \<and> (n < 8 \<or> 8 \<le> n \<and> n < 16 \<or> 16 \<le> n \<and> n < 24 \<or> 24 \<le> n \<and> n < 32
      \<or> 32 \<le> n \<and> n < 40 \<or> 40 \<le> n \<and> n < 48 \<or> 48 \<le> n \<and> n < 56 \<or> 56 \<le> n \<and> n < 64)"
    unfolding bit_bytes by auto
  with n show "bit ?bytes n = bit v n" by linarith
qed

lemma Uint16_PutUint16 [simp]: "Uint16 (PutUint16 v @ rest) = Return v"
  by (simp add: PutUint16_def bytes_of_uint16)

lemma Uint32_PutUint32 [simp]: "Uint32 (PutUint32 v @ rest) = Return v"
  by (simp add: PutUint32_def bytes_of_uint32)

lemma Uint64_PutUint64 [simp]: "Uint64 (PutUint64 v @ rest) = Return v"
  by (simp add: PutUint64_def bytes_of_uint64)

lemma Uint_Put [simp]:
  "Uint16 (PutUint16 v) = Return v"
  "Uint32 (PutUint32 w) = Return w"
  "Uint64 (PutUint64 x) = Return x"
  using Uint16_PutUint16 [of v "[]"] Uint32_PutUint32 [of w "[]"] Uint64_PutUint64 [of x "[]"]
  by simp_all

lemma bit_byte_high: "8 \<le> n \<Longrightarrow> \<not> bit (b :: byte) n"
  using bit_imp_le_length [of b n] by auto

lemma PutUint32_of_bytes:
  fixes b0 b1 b2 b3 :: byte
  shows "PutUint32 (ucast b3 OR push_bit 8 (ucast b2) OR push_bit 16 (ucast b1) OR push_bit 24 (ucast b0))
    = [b0, b1, b2, b3]"
  unfolding PutUint32_def list.inject
  by (intro conjI refl bit_word_eqI) (auto simp: bit_simps bit_byte_high)

lemma Uint16_short: "length b < 2 \<Longrightarrow> Uint16 b = Panic"
  by (cases b rule: Uint16.cases) auto

lemma Uint32_short: "length b < 4 \<Longrightarrow> Uint32 b = Panic"
  by (cases b rule: Uint32.cases) auto

lemma Uint64_short: "length b < 8 \<Longrightarrow> Uint64 b = Panic"
  by (cases b rule: Uint64.cases) auto

lemma Uint16_enough:
  "2 \<le> length b \<Longrightarrow>
     Uint16 b = Return (case Uint16 b :: (unit, uint16) outcome of Return v \<Rightarrow> v | _ \<Rightarrow> 0)"
  by (cases b rule: Uint16.cases) auto

lemma Uint32_enough:
  "4 \<le> length b \<Longrightarrow>
     Uint32 b = Return (case Uint32 b :: (unit, uint32) outcome of Return v \<Rightarrow> v | _ \<Rightarrow> 0)"
  by (cases b rule: Uint32.cases) auto

lemma Uint64_enough:
  "8 \<le> length b \<Longrightarrow>
     Uint64 b = Return (case Uint64 b :: (unit, uint64) outcome of Return v \<Rightarrow> v | _ \<Rightarrow> 0)"
  by (cases b rule: Uint64.cases) auto

text \<open>A read in range returns and a read out of range panics; no read fails with an error.\<close>

lemma Uint16_at_Panic: "length data < off + 2 \<Longrightarrow> Uint16_at data off = Panic"
  by (auto simp: Uint16_at_def slice_from_def Uint16_short)

lemma Uint32_at_Panic: "length data < off + 4 \<Longrightarrow> Uint32_at data off = Panic"
  by (auto simp: Uint32_at_def slice_from_def Uint32_short)

lemma Uint64_at_Panic: "length data < off + 8 \<Longrightarrow> Uint64_at data off = Panic"
  by (auto simp: Uint64_at_def slice_from_def Uint64_short)

lemma Uint16_at_Return:
  assumes "off + 2 \<le> length data"
  shows "Uint16_at data off = Return (uint16_val data off)"
proof -
  have "Uint16 (drop off data) = Return (uint16_val data off)"
    unfolding uint16_val_def by (rule Uint16_enough) (use assms in simp)
  with assms show ?thesis by (simp add: Uint16_at_def slice_from_def)
qed

lemma Uint32_at_Return:
  assumes "off + 4 \<le> length data"
  shows "Uint32_at data off = Return (uint32_val data off)"
proof -
  have "Uint32 (drop off data) = Return (uint32_val data off)"
    unfolding uint32_val_def by (rule Uint32_enough) (use assms in simp)
  with assms show ?thesis by (simp add: Uint32_at_def slice_from_def)
qed

lemma Uint64_at_Return:
  assumes "off + 8 \<le> length data"
  shows "Uint64_at data off = Return (uint64_val data off)"
proof -
  have "Uint64 (drop off data) = Return (uint64_val data off)"
    unfolding uint64_val_def by (rule Uint64_enough) (use assms in simp)
  with assms show ?thesis by (simp add: Uint64_at_def slice_from_def)
qed

lemma index_at_Return: "i < length data \<Longrightarrow> index_at data i = Return (data ! i)"
  by (simp add: index_at_def)

lemma slice_of_Return:
  "lo \<le> hi \<Longrightarrow> hi \<le> length data \<Longrightarrow> slice_of data lo hi = Return (take (hi - lo) (drop lo data))"
  by (simp add: slice_of_def)

lemma slice_of_length: "slice_of data lo hi = Return x \<Longrightarrow> length x = hi - lo \<and> hi \<le> length data"
  by (auto simp: slice_of_def split: if_splits)

text \<open>Reads walk over what stands before them.\<close>

lemma index_at_skip [go_read]:
  "index_at (x # xs) 0 = Return x"
  "0 < i \<Longrightarrow> index_at (x # xs) i = index_at xs (i - 1)"
  "length ys \<le> i \<Longrightarrow> index_at (ys @ xs) i = index_at xs (i - length ys)"
  by (auto simp: index_at_def nth_append nth_Cons')

lemma slice_of_skip [go_read]:
  "0 < lo \<Longrightarrow> lo \<le> hi \<Longrightarrow> slice_of (x # xs) lo hi = slice_of xs (lo - 1) (hi - 1)"
  "length ys \<le> lo \<Longrightarrow> lo \<le> hi \<Longrightarrow>
     slice_of (ys @ xs) lo hi = slice_of xs (lo - length ys) (hi - length ys)"
  "length ys = hi \<Longrightarrow> slice_of (ys @ xs) 0 hi = Return ys"
  "length ys = hi \<Longrightarrow> slice_of ys 0 hi = Return ys"
  by (auto simp: slice_of_def drop_Cons')

lemma slice_from_skip [go_read]:
  "slice_from xs 0 = Return xs"
  "0 < lo \<Longrightarrow> slice_from (x # xs) lo = slice_from xs (lo - 1)"
  "length ys \<le> lo \<Longrightarrow> slice_from (ys @ xs) lo = slice_from xs (lo - length ys)"
  by (auto simp: slice_from_def drop_Cons')

lemma Uint16_at_skip [go_read]:
  "Uint16_at (PutUint16 v @ xs) 0 = Return v"
  "Uint16_at (PutUint16 v) 0 = Return v"
  "0 < off \<Longrightarrow> Uint16_at (x # xs) off = Uint16_at xs (off - 1)"
  "length ys \<le> off \<Longrightarrow> Uint16_at (ys @ xs) off = Uint16_at xs (off - length ys)"
  by (auto simp: Uint16_at_def go_read)

lemma Uint32_at_skip [go_read]:
  "Uint32_at (PutUint32 v @ xs) 0 = Return v"
  "Uint32_at (PutUint32 v) 0 = Return v"
  "0 < off \<Longrightarrow> Uint32_at (x # xs) off = Uint32_at xs (off - 1)"
  "length ys \<le> off \<Longrightarrow> Uint32_at (ys @ xs) off = Uint32_at xs (off - length ys)"
  by (auto simp: Uint32_at_def go_read)

lemma Uint64_at_skip [go_read]:
  "Uint64_at (PutUint64 v @ xs) 0 = Return v"
  "Uint64_at (PutUint64 v) 0 = Return v"
  "0 < off \<Longrightarrow> Uint64_at (x # xs) off = Uint64_at xs (off - 1)"
  "length ys \<le> off \<Longrightarrow> Uint64_at (ys @ xs) off = Uint64_at xs (off - length ys)"
  by (auto simp: Uint64_at_def go_read)

subsection \<open>Lemmas on buffers\<close>

lemma make_buf_written [go_write]: "make_buf n = written [] n"
  by (simp add: make_buf_def written_def)

lemma put_field_pad:
  assumes "length src \<le> n" and "n \<le> k"
  shows "put_field n src (written pre k) = written (pre @ src @ replicate (n - length src) 0) (k - n)"
  using assms
  by (simp add: put_field_def written_def flip: replicate_add)

lemma put_field_written [go_write]:
  "length src = n \<Longrightarrow> n \<le> k \<Longrightarrow> put_field n src (written pre k) = written (pre @ src) (k - n)"
  using put_field_pad [of src n k pre] by simp

text \<open>A loop that writes one record per element, of size \<open>sz\<close> and contents \<open>lay\<close>.\<close>

lemma fold_written:
  assumes "\<And>x pre k. x \<in> set xs \<Longrightarrow> sz x \<le> k \<Longrightarrow>
      step x (written pre k) = written (pre @ lay x) (k - sz x)"
    and "sum_list (map sz xs) \<le> k"
  shows "fold step xs (written pre k)
    = written (pre @ concat (map lay xs)) (k - sum_list (map sz xs))"
  using assms
proof (induction xs arbitrary: pre k)
  case Nil
  then show ?case by simp
next
  case (Cons x xs)
  then have "fold step xs (written (pre @ lay x) (k - sz x)) =
    written ((pre @ lay x) @ concat (map lay xs)) (k - sz x - sum_list (map sz xs))"
    by (intro Cons.IH) auto
  with Cons.prems show ?case by (simp add: diff_diff_left)
qed

lemma put_fields_written [go_write]:
  assumes "\<forall>x\<in>set xs. length x = n" and "n * length xs \<le> k"
  shows "fold (put_field n) xs (written pre k) = written (pre @ concat xs) (k - n * length xs)"
  using fold_written [of xs "\<lambda>_. n" "put_field n" "\<lambda>x. x" k pre] assms
  by (simp add: put_field_written sum_list_triv mult.commute)

lemma fst_written [go_write]: "fst (written pre 0) = pre"
  by (simp add: written_def)

lemma length_copy_array [simp]: "length (copy_array n src) = n"
  by (simp add: copy_array_def)

lemma copy_array_id [simp]: "length src = n \<Longrightarrow> copy_array n src = src"
  by (simp add: copy_array_def)

lemma concat_map_if: "concat (map (\<lambda>x. if P x then [f x] else []) xs) = map f (filter P xs)"
  by (induction xs) simp_all

subsection \<open>Range loops that update the map they visit\<close>

text \<open>
  A loop over a map whose body only touches the entry it visits. The result is then the same
  for every iteration order: each entry is visited once, on its value before the loop. The
  table sweeps of the components (routes, peers, sessions, streams) are interpretations.
\<close>

locale range_update =
  fixes step :: "'k \<Rightarrow> ('k \<rightharpoonup> 'v) \<Rightarrow> ('k \<rightharpoonup> 'v)"
    and entry :: "'k \<Rightarrow> 'v \<Rightarrow> 'v option"
  assumes step_at: "m k = Some v \<Longrightarrow> step k m k = entry k v"
    and step_other: "k' \<noteq> k \<Longrightarrow> step k m k' = m k'"
begin

lemma fold_untouched: "k \<notin> set ks \<Longrightarrow> fold step ks m k = m k"
proof (induction ks arbitrary: m)
  case (Cons k' ks)
  then show ?case by (simp add: step_other)
qed simp

lemma fold_step_at: "distinct ks \<Longrightarrow> k \<in> set ks \<Longrightarrow> m k = Some v \<Longrightarrow> fold step ks m k = entry k v"
proof (induction ks arbitrary: m)
  case (Cons k' ks)
  then show ?case by (cases "k = k'") (auto simp: step_other step_at fold_untouched)
qed simp

lemma range_fold: "range_order m ks \<Longrightarrow> fold step ks m k = Option.bind (m k) (entry k)"
  by (cases "m k") (auto simp: range_order_def fold_step_at fold_untouched domIff)

lemma range_fold_order: "range_order m ks \<Longrightarrow> range_order m ks' \<Longrightarrow> fold step ks m = fold step ks' m"
  by (rule ext) (simp add: range_fold)

end

subsection \<open>Step relations\<close>

text \<open>
  An invariant of a step relation: it holds at the start and every step keeps it, so it holds in
  every reachable state. The state machines of the components are interpretations.
\<close>

locale invariant =
  fixes step :: "'s \<Rightarrow> 's \<Rightarrow> bool" and initial :: "'s \<Rightarrow> bool" and inv :: "'s \<Rightarrow> bool"
  assumes initial_inv: "initial s \<Longrightarrow> inv s"
    and step_inv: "step s s' \<Longrightarrow> inv s \<Longrightarrow> inv s'"
begin

lemma steps_inv: "step\<^sup>*\<^sup>* s s' \<Longrightarrow> inv s \<Longrightarrow> inv s'"
  by (induction rule: rtranclp_induct) (auto intro: step_inv)

lemma reachable_inv: "initial s \<Longrightarrow> step\<^sup>*\<^sup>* s s' \<Longrightarrow> inv s'"
  using steps_inv initial_inv by blast

end

end
