(* ===== verification/Go_Net.thy ===== *)
theory Go_Net
  imports Go_Prelude
begin

text \<open>
  The part of package net the program uses for addresses and prefixes: \<open>net.IP\<close> and
  \<open>net.IPMask\<close> as byte slices (a nil slice is the empty list), \<open>net.IPNet\<close>, membership,
  mask lengths and the text form that keys the routing table. Shown: a mask built from a length
  has that length, and the wire form of a prefix (address family and mask length) loses nothing
  that membership or the text form depend on.
\<close>

subsection \<open>Addresses\<close>

type_synonym IP = bytes
type_synonym IPMask = bytes

record IPNet =
  ipn_IP :: IP
  ipn_Mask :: IPMask

definition isZeros :: "bytes \<Rightarrow> bool" where
  "isZeros p = list_all (\<lambda>b. b = 0) p"

definition To4 :: "IP \<Rightarrow> IP" where
  "To4 ip =
     (if length ip = 4 then ip
      else if length ip = 16 \<and> isZeros (take 10 ip) \<and> ip ! 10 = 255 \<and> ip ! 11 = 255
      then drop 12 ip else [])"

definition IPv4 :: "byte \<Rightarrow> byte \<Rightarrow> byte \<Rightarrow> byte \<Rightarrow> IP" where
  "IPv4 a b c d = replicate 10 0 @ [255, 255, a, b, c, d]"

definition To16 :: "IP \<Rightarrow> IP" where
  "To16 ip =
     (if length ip = 4 then IPv4 (ip ! 0) (ip ! 1) (ip ! 2) (ip ! 3)
      else if length ip = 16 then ip else [])"

subsection \<open>Masks\<close>

fun mask_bytes :: "nat \<Rightarrow> nat \<Rightarrow> IPMask" where
  "mask_bytes 0 n = []"
| "mask_bytes (Suc l) n =
     (if 8 \<le> n then 255 # mask_bytes l (n - 8) else NOT (drop_bit n 255) # mask_bytes l 0)"

definition CIDRMask :: "nat \<Rightarrow> nat \<Rightarrow> IPMask" where
  "CIDRMask ones bits =
     (if (bits = 32 \<or> bits = 128) \<and> ones \<le> bits then mask_bytes (bits div 8) ones else [])"

text \<open>
  The loop that counts leading one bits shifts a byte left, so eight rounds empty it; the first
  argument counts the rounds left.
\<close>

fun leading_ones :: "nat \<Rightarrow> byte \<Rightarrow> nat \<times> byte" where
  "leading_ones 0 v = (0, v)"
| "leading_ones (Suc k) v =
     (if v AND 128 \<noteq> 0 then (let (n, v') = leading_ones k (push_bit 1 v) in (Suc n, v')) else (0, v))"

text \<open>The length of a mask of ones followed by zeros; none for any other mask.\<close>

fun simpleMaskLength :: "IPMask \<Rightarrow> nat option" where
  "simpleMaskLength [] = Some 0"
| "simpleMaskLength (v # rest) =
     (if v = 255 then map_option (\<lambda>n. n + 8) (simpleMaskLength rest)
      else (let (n, v') = leading_ones 8 v
            in if v' \<noteq> 0 \<or> \<not> isZeros rest then None else Some n))"

definition mask_ones :: "IPMask \<Rightarrow> nat" where
  "mask_ones m = (case simpleMaskLength m of None \<Rightarrow> 0 | Some n \<Rightarrow> n)"

subsection \<open>Prefixes\<close>

definition networkNumberAndMask :: "IPNet \<Rightarrow> IP \<times> IPMask" where
  "networkNumberAndMask n =
     (let ip = (if To4 (ipn_IP n) = [] then ipn_IP n else To4 (ipn_IP n)); m = ipn_Mask n
      in if To4 (ipn_IP n) = [] \<and> length ip \<noteq> 16 then ([], [])
         else if length m = 4 then (if length ip \<noteq> 4 then ([], []) else (ip, m))
         else if length m = 16 then (if length ip = 4 then (ip, drop 12 m) else (ip, m))
         else ([], []))"

definition IPNet_Contains :: "IPNet \<Rightarrow> IP \<Rightarrow> bool" where
  "IPNet_Contains n ip =
     (let (nn, m) = networkNumberAndMask n; ip' = (if To4 ip \<noteq> [] then To4 ip else ip)
      in length ip' = length nn \<and>
         list_all (\<lambda>(a, b, k). a AND k = b AND k) (zip nn (zip ip' m)))"

subsection \<open>Text\<close>

definition hexdigit :: "nat \<Rightarrow> char" where
  "hexdigit n = ''0123456789abcdef'' ! (n mod 16)"

fun itoa :: "nat \<Rightarrow> string" where
  "itoa n = (if n < 10 then [hexdigit n] else itoa (n div 10) @ [hexdigit (n mod 10)])"

declare itoa.simps [simp del]

fun hex_of_nat :: "nat \<Rightarrow> string" where
  "hex_of_nat n = (if n < 16 then [hexdigit n] else hex_of_nat (n div 16) @ [hexdigit (n mod 16)])"

declare hex_of_nat.simps [simp del]

fun join_with :: "string \<Rightarrow> string list \<Rightarrow> string" where
  "join_with sep [] = []"
| "join_with sep [x] = x"
| "join_with sep (x # y # xs) = x @ sep @ join_with sep (y # xs)"

text \<open>Package encoding/hex.\<close>

definition hex_of_byte :: "byte \<Rightarrow> string" where
  "hex_of_byte b = [hexdigit (unat b div 16), hexdigit (unat b mod 16)]"

definition EncodeToString :: "bytes \<Rightarrow> string" where
  "EncodeToString bs = concat (map hex_of_byte bs)"

text \<open>The eight groups of an IPv6 address and its longest run of at least two zero groups.\<close>

fun v6_groups :: "bytes \<Rightarrow> nat list" where
  "v6_groups (a # b # rest) = (unat a * 256 + unat b) # v6_groups rest"
| "v6_groups _ = []"

definition zero_run :: "nat list \<Rightarrow> nat \<times> nat" where
  "zero_run gs = fold (\<lambda>i (s, e).
       let l = length (takeWhile (\<lambda>g. g = 0) (drop i gs))
       in if 2 \<le> l \<and> e - s < l then (i, i + l) else (s, e)) [0..<8] (255, 255)"

definition v6_string :: "bytes \<Rightarrow> string" where
  "v6_string ip =
     (let gs = v6_groups ip; (s, e) = zero_run gs; hexes = join_with '':'' \<circ> map hex_of_nat
      in if s = 255 then hexes gs else hexes (take s gs) @ ''::'' @ hexes (drop e gs))"

definition IP_String :: "IP \<Rightarrow> string" where
  "IP_String ip =
     (if ip = [] then ''<nil>''
      else if length ip \<noteq> 4 \<and> length ip \<noteq> 16 then ''?'' @ EncodeToString ip
      else if To4 ip \<noteq> [] then join_with ''.'' (map (itoa \<circ> unat) (To4 ip))
      else v6_string ip)"

definition IPNet_String :: "IPNet \<Rightarrow> string" where
  "IPNet_String n =
     (let (nn, m) = networkNumberAndMask n
      in if nn = [] \<or> m = [] then ''<nil>''
         else (case simpleMaskLength m of
                 None \<Rightarrow> IP_String nn @ ''/'' @ EncodeToString m
               | Some l \<Rightarrow> IP_String nn @ ''/'' @ itoa l))"

subsection \<open>Canonical prefixes\<close>

text \<open>
  What \<open>net.ParseCIDR\<close> and the route decoder produce: an IPv4 address with a mask of four
  bytes or an IPv6 address with a mask of sixteen, the mask being ones followed by zeros.
\<close>

definition wf_IPNet :: "IPNet \<Rightarrow> bool" where
  "wf_IPNet n \<longleftrightarrow>
     To4 (ipn_IP n) \<noteq> [] \<and> ipn_Mask n = CIDRMask (mask_ones (ipn_Mask n)) 32 \<or>
     length (ipn_IP n) = 16 \<and> To4 (ipn_IP n) = [] \<and>
       ipn_Mask n = CIDRMask (mask_ones (ipn_Mask n)) 128"

text \<open>The prefix a decoder rebuilds from the address bytes and the mask length.\<close>

definition canon_IPNet :: "IPNet \<Rightarrow> IPNet" where
  "canon_IPNet n = n\<lparr>ipn_IP := (if To4 (ipn_IP n) \<noteq> [] then To16 (To4 (ipn_IP n)) else ipn_IP n)\<rparr>"

subsection \<open>Lemmas on addresses\<close>

lemma To4_cases: "To4 ip = [] \<or> length (To4 ip) = 4"
  by (simp add: To4_def)

lemma length_To4: "To4 ip \<noteq> [] \<Longrightarrow> length (To4 ip) = 4"
  using To4_cases by blast

lemma length_IPv4 [simp]: "length (IPv4 a b c d) = 16"
  by (simp add: IPv4_def)

lemma To4_IPv4 [simp]: "To4 (IPv4 a b c d) = [a, b, c, d]"
  by (simp add: To4_def IPv4_def isZeros_def nth_append list_all_iff)

lemma To4_of_4 [simp]: "length ip = 4 \<Longrightarrow> To4 ip = ip"
  by (simp add: To4_def)

lemma length4_conv: "length xs = 4 \<longleftrightarrow> (\<exists>a b c d. xs = [a, b, c, d])"
  by (auto simp: eval_nat_numeral length_Suc_conv)

lemma To4_To16 [simp]: "length ip = 4 \<Longrightarrow> To4 (To16 ip) = ip"
  by (auto simp: To16_def length4_conv)

lemma length_To16 [simp]: "length ip = 4 \<Longrightarrow> length (To16 ip) = 16"
  by (simp add: To16_def)

subsection \<open>Lemmas on masks\<close>

lemma length_mask_bytes [simp]: "length (mask_bytes l n) = l"
  by (induction l n rule: mask_bytes.induct) auto

lemma mask_bytes_zero: "isZeros (mask_bytes l 0)"
  by (induction l) (auto simp: isZeros_def)

lemma partial_mask_byte:
  assumes "n < 8"
  shows "NOT (drop_bit n (255 :: byte)) \<noteq> 255 \<and>
    leading_ones 8 (NOT (drop_bit n (255 :: byte))) = (n, 0)"
proof -
  have "list_all (\<lambda>n. NOT (drop_bit n (255 :: byte)) \<noteq> 255 \<and>
    leading_ones 8 (NOT (drop_bit n (255 :: byte))) = (n, 0)) [0..<8]"
    by code_simp
  with assms show ?thesis by (simp add: list_all_iff)
qed

lemma simpleMaskLength_mask_bytes:
  "n \<le> 8 * l \<Longrightarrow> simpleMaskLength (mask_bytes l n) = Some n"
proof (induction l n rule: mask_bytes.induct)
  case (1 n)
  then show ?case by simp
next
  case (2 l n)
  show ?case
  proof (cases "8 \<le> n")
    case True
    with 2 show ?thesis by auto
  next
    case False
    with partial_mask_byte [of n] show ?thesis
      by (simp add: mask_bytes_zero del: leading_ones.simps)
  qed
qed

lemma mask_ones_CIDRMask:
  "bits = 32 \<or> bits = 128 \<Longrightarrow> ones \<le> bits \<Longrightarrow> mask_ones (CIDRMask ones bits) = ones"
  by (auto simp: CIDRMask_def mask_ones_def simpleMaskLength_mask_bytes)

text \<open>A prefix of the decoder's making is well formed if the mask length fits its family.\<close>

lemma length_CIDRMask: "bits = 32 \<or> bits = 128 \<Longrightarrow> length (CIDRMask k bits) = (if k \<le> bits then bits div 8 else 0)"
  by (auto simp: CIDRMask_def)

lemma wf_IPNet_mask:
  "To4 (ipn_IP n) \<noteq> [] \<Longrightarrow> ipn_Mask n = CIDRMask k 32 \<Longrightarrow> wf_IPNet n \<longleftrightarrow> k \<le> 32"
  "length (ipn_IP n) = 16 \<Longrightarrow> ipn_Mask n = CIDRMask k 128 \<Longrightarrow> wf_IPNet n \<longleftrightarrow> k \<le> 128 \<and> To4 (ipn_IP n) = []"
proof -
  have same: "CIDRMask k bits = CIDRMask (mask_ones (CIDRMask k bits)) bits \<longleftrightarrow> k \<le> bits" if "bits = 32 \<or> bits = 128" for bits
  proof (cases "k \<le> bits")
    case False
    then have "CIDRMask k bits = []" "mask_ones [] = 0" by (auto simp: CIDRMask_def mask_ones_def)
    moreover have "CIDRMask 0 bits \<noteq> []" using that length_CIDRMask [OF that, of 0] by (cases "CIDRMask 0 bits") auto
    ultimately show ?thesis using False by simp
  qed (use that in \<open>simp add: mask_ones_CIDRMask\<close>)
  have "CIDRMask k 128 \<noteq> CIDRMask (mask_ones (CIDRMask k 128)) 32"
  proof (cases "k \<le> 128")
    case True
    then show ?thesis
      using length_CIDRMask [of 128 k] length_CIDRMask [of 32 "mask_ones (CIDRMask k 128)"] by (auto split: if_splits)
  next
    case False
    then have "CIDRMask k 128 = []" "mask_ones [] = 0" by (simp_all add: CIDRMask_def mask_ones_def)
    then show ?thesis using length_CIDRMask [of 32 0] by (cases "CIDRMask 0 32") simp_all
  qed
  with same show "To4 (ipn_IP n) \<noteq> [] \<Longrightarrow> ipn_Mask n = CIDRMask k 32 \<Longrightarrow> wf_IPNet n \<longleftrightarrow> k \<le> 32"
    and "length (ipn_IP n) = 16 \<Longrightarrow> ipn_Mask n = CIDRMask k 128 \<Longrightarrow> wf_IPNet n \<longleftrightarrow> k \<le> 128 \<and> To4 (ipn_IP n) = []"
    by (auto simp: wf_IPNet_def)
qed

lemma wf_IPNet_cases:
  assumes "wf_IPNet n"
  obtains (v4) k where "To4 (ipn_IP n) \<noteq> []" "k \<le> 32" "ipn_Mask n = CIDRMask k 32"
      "mask_ones (ipn_Mask n) = k"
  | (v6) k where "length (ipn_IP n) = 16" "To4 (ipn_IP n) = []" "k \<le> 128"
      "ipn_Mask n = CIDRMask k 128" "mask_ones (ipn_Mask n) = k"
proof -
  have bound: "k \<le> bits" if "m = CIDRMask k bits" "k = mask_ones m" for m k bits
    using that by (cases "k \<le> bits") (auto simp: CIDRMask_def mask_ones_def)
  from assms consider
      "To4 (ipn_IP n) \<noteq> []" "ipn_Mask n = CIDRMask (mask_ones (ipn_Mask n)) 32"
    | "length (ipn_IP n) = 16" "To4 (ipn_IP n) = []"
      "ipn_Mask n = CIDRMask (mask_ones (ipn_Mask n)) 128"
    unfolding wf_IPNet_def by blast
  then show thesis
  proof cases
    case 1
    with bound [OF 1(2) refl] v4 show thesis by metis
  next
    case 2
    with bound [OF 2(3) refl] v6 show thesis by metis
  qed
qed

text \<open>Rebuilding the address in its sixteen-byte form changes neither membership nor text.\<close>

lemma networkNumberAndMask_canon [simp]:
  "networkNumberAndMask (canon_IPNet n) = networkNumberAndMask n"
proof (cases "To4 (ipn_IP n) = []")
  case True
  then show ?thesis by (simp add: canon_IPNet_def)
next
  case False
  then have "length (To4 (ipn_IP n)) = 4" by (rule length_To4)
  with False show ?thesis by (simp add: canon_IPNet_def networkNumberAndMask_def Let_def)
qed

lemma IPNet_String_canon [simp]: "IPNet_String (canon_IPNet n) = IPNet_String n"
  by (simp add: IPNet_String_def)

lemma IPNet_Contains_canon [simp]: "IPNet_Contains (canon_IPNet n) ip = IPNet_Contains n ip"
  by (simp add: IPNet_Contains_def)

lemma ipn_Mask_canon [simp]: "ipn_Mask (canon_IPNet n) = ipn_Mask n"
  by (simp add: canon_IPNet_def)

lemma To4_canon [simp]: "To4 (ipn_IP (canon_IPNet n)) = To4 (ipn_IP n)"
  using length_To4 [of "ipn_IP n"] by (simp add: canon_IPNet_def)

lemma length_IP_canon: "wf_IPNet n \<Longrightarrow> length (ipn_IP (canon_IPNet n)) = 16"
  using length_To4 [of "ipn_IP n"] by (auto simp: canon_IPNet_def wf_IPNet_def)

lemma wf_IPNet_canon [simp]: "wf_IPNet (canon_IPNet n) = wf_IPNet n"
  unfolding wf_IPNet_def
  by (auto simp: canon_IPNet_def dest: length_To4)

lemma canon_idem: "canon_IPNet (canon_IPNet n) = canon_IPNet n"
proof (cases "To4 (ipn_IP n) = []")
  case False
  then have "To4 (ipn_IP (canon_IPNet n)) = To4 (ipn_IP n)" by simp
  with False show ?thesis by (simp add: canon_IPNet_def)
qed (simp add: canon_IPNet_def)

end
