(* ===== verification/Identity.thy ===== *)
theory Identity
  imports Go_Net
begin

text \<open>
  Package identity: node identifiers and their text form (identity/identity.go), the identity
  file (identity/keyfile.go) and the trust-on-first-use pin store (identity/pinstore.go).
  SHA-256 and the Ed25519 key derivation are parameters of the definitions that call them; the
  file system is the argument that says what a read returned and whether a write succeeded.
  Shown: the text form of an identifier can be parsed back and identifies it, an identity
  written to disk is the one read back, and a pinned certificate is never replaced.
\<close>

subsection \<open>Node identifiers\<close>

type_synonym NodeID = bytes

definition zero_NodeID :: NodeID where
  "zero_NodeID = replicate 16 0"

definition NodeID_String :: "NodeID \<Rightarrow> string" where
  "NodeID_String nid = EncodeToString nid"

definition NodeID_Equal :: "NodeID \<Rightarrow> NodeID \<Rightarrow> bool" where
  "NodeID_Equal nid other = (nid = other)"

definition NodeID_IsZero :: "NodeID \<Rightarrow> bool" where
  "NodeID_IsZero nid = (nid = zero_NodeID)"

text \<open>Package encoding/hex: both cases of the letters are read, an odd length is refused last.\<close>

datatype hex_error = InvalidByteError char | ErrLength

definition fromHexChar :: "char \<Rightarrow> nat option" where
  "fromHexChar c =
     (let n = (of_char c :: nat)
      in if 48 \<le> n \<and> n \<le> 57 then Some (n - 48)
         else if 97 \<le> n \<and> n \<le> 102 then Some (n - 87)
         else if 65 \<le> n \<and> n \<le> 70 then Some (n - 55)
         else None)"

fun DecodeString :: "string \<Rightarrow> (hex_error, bytes) outcome" where
  "DecodeString [] = Return []"
| "DecodeString [c] = (if fromHexChar c = None then Error (InvalidByteError c) else Error ErrLength)"
| "DecodeString (c # d # rest) =
     (case fromHexChar c of
        None \<Rightarrow> Error (InvalidByteError c)
      | Some a \<Rightarrow>
          (case fromHexChar d of
             None \<Rightarrow> Error (InvalidByteError d)
           | Some b \<Rightarrow> go_bind (DecodeString rest) (\<lambda>bs. Return (of_nat (a * 16 + b) # bs))))"

datatype parse_error = HexError hex_error | NotSixteenBytes

definition ParseNodeID :: "string \<Rightarrow> (parse_error, NodeID) outcome" where
  "ParseNodeID s =
     (case DecodeString s of
        Error e \<Rightarrow> Error (HexError e)
      | Panic \<Rightarrow> Panic
      | Return b \<Rightarrow> (if length b \<noteq> 16 then Error NotSixteenBytes else Return (copy_array 16 b)))"

subsection \<open>Identities\<close>

record Identity =
  id_PubKey :: bytes
  id_PrivKey :: bytes
  id_ID :: NodeID

definition fromKeypair :: "(bytes \<Rightarrow> bytes) \<Rightarrow> bytes \<Rightarrow> bytes \<Rightarrow> Identity" where
  "fromKeypair sha256 pub priv =
     \<lparr>id_PubKey = pub, id_PrivKey = priv, id_ID = copy_array 16 (take 16 (sha256 pub))\<rparr>"

text \<open>
  An Ed25519 private key is its 32-byte seed followed by the public key; \<open>derive\<close> computes the
  public key of a seed. \<open>NewKeyFromSeed\<close> panics on a seed of another length.
\<close>

definition FromSeed ::
  "(bytes \<Rightarrow> bytes) \<Rightarrow> (bytes \<Rightarrow> bytes) \<Rightarrow> bytes \<Rightarrow> ('e, Identity) outcome" where
  "FromSeed derive sha256 seed =
     (if length seed \<noteq> 32 then Panic
      else (let priv = seed @ derive seed in Return (fromKeypair sha256 (drop 32 priv) priv)))"

definition Identity_Seed :: "Identity \<Rightarrow> bytes" where
  "Identity_Seed i = take 32 (id_PrivKey i)"

text \<open>Key generation draws the seed from the random source; signing and verification are Ed25519's.\<close>

definition Identity_New ::
  "(bytes \<Rightarrow> bytes) \<Rightarrow> (bytes \<Rightarrow> bytes) \<Rightarrow> bytes option \<Rightarrow> (unit, Identity) outcome" where
  "Identity_New derive sha256 random =
     (case random of None \<Rightarrow> Error () | Some seed \<Rightarrow> FromSeed derive sha256 seed)"

definition Identity_Sign :: "(bytes \<Rightarrow> bytes \<Rightarrow> bytes) \<Rightarrow> Identity \<Rightarrow> bytes \<Rightarrow> bytes" where
  "Identity_Sign ed_sign i msg = ed_sign (id_PrivKey i) msg"

definition Identity_Verify :: "(bytes \<Rightarrow> bytes \<Rightarrow> bytes \<Rightarrow> bool) \<Rightarrow> Identity \<Rightarrow> bytes \<Rightarrow> bytes \<Rightarrow> bool" where
  "Identity_Verify ed_verify i msg sig = ed_verify (id_PubKey i) msg sig"

subsection \<open>The identity file\<close>

datatype read_result = FileData string | NotExist | ReadFailed

datatype keyfile_error = ReadError | InvalidFile hex_error | InvalidSeedSize nat | NoRandom | WriteError

text \<open>
  \<open>createAndSave\<close> draws a seed (\<open>random\<close> is None when the random source fails) and writes its
  text; the second component is what was written to the path.
\<close>

definition createAndSave ::
  "(bytes \<Rightarrow> bytes) \<Rightarrow> (bytes \<Rightarrow> bytes) \<Rightarrow> bytes option \<Rightarrow> bool
     \<Rightarrow> (keyfile_error, Identity) outcome \<times> string option" where
  "createAndSave derive sha256 random write_ok =
     (case random of
        None \<Rightarrow> (Error NoRandom, None)
      | Some seed \<Rightarrow>
          (let r = FromSeed derive sha256 seed; encoded = EncodeToString seed
           in case r of
                Return i \<Rightarrow> (if write_ok then (Return i, Some encoded) else (Error WriteError, None))
              | _ \<Rightarrow> (r, None)))"

definition LoadOrCreate ::
  "(bytes \<Rightarrow> bytes) \<Rightarrow> (bytes \<Rightarrow> bytes) \<Rightarrow> read_result \<Rightarrow> bytes option \<Rightarrow> bool
     \<Rightarrow> (keyfile_error, Identity) outcome \<times> string option" where
  "LoadOrCreate derive sha256 file random write_ok =
     (case file of
        ReadFailed \<Rightarrow> (Error ReadError, None)
      | NotExist \<Rightarrow> createAndSave derive sha256 random write_ok
      | FileData data \<Rightarrow>
          (case DecodeString data of
             Error e \<Rightarrow> (Error (InvalidFile e), None)
           | Panic \<Rightarrow> (Panic, None)
           | Return seed \<Rightarrow>
               (if length seed \<noteq> 32 then (Error (InvalidSeedSize (length seed)), None)
                else (FromSeed derive sha256 seed, None))))"

subsection \<open>The pin store\<close>

type_synonym PinStore = "string \<rightharpoonup> string"

datatype pin_error = SaveError | PinMismatch string string string

text \<open>Loading the pins; decoding the JSON text is an argument.\<close>

definition NewPinStore :: "(string \<Rightarrow> (string \<rightharpoonup> string) option) \<Rightarrow> read_result \<Rightarrow> (unit, PinStore) outcome" where
  "NewPinStore unmarshal file =
     (case file of
        NotExist \<Rightarrow> Return Map.empty
      | ReadFailed \<Rightarrow> Error ()
      | FileData data \<Rightarrow> (case unmarshal data of None \<Rightarrow> Error () | Some pins \<Rightarrow> Return pins))"

text \<open>
  \<open>Check\<close> with the fingerprint of the certificate (the hex digits of a SHA-256 sum). The error
  text takes the first sixteen characters of both fingerprints, which panics on a shorter one.
\<close>

definition certSPKIHash :: "(bytes \<Rightarrow> bytes) \<Rightarrow> bytes \<Rightarrow> string" where
  "certSPKIHash sha256 raw = EncodeToString (sha256 raw)"

definition PinStore_Check ::
  "(bytes \<Rightarrow> bytes) \<Rightarrow> bool \<Rightarrow> string \<Rightarrow> bytes \<Rightarrow> PinStore
     \<Rightarrow> (pin_error, bool) outcome \<times> PinStore" where
  "PinStore_Check sha256 save_ok addr raw pins =
     (let fp = certSPKIHash sha256 raw
      in case pins addr of
           None \<Rightarrow>
             (let pins' = pins(addr \<mapsto> fp)
              in if save_ok then (Return True, pins') else (Error SaveError, pins'))
         | Some stored \<Rightarrow>
             (if stored \<noteq> fp
              then (go_bind (slice_of stored 0 16) (\<lambda>a. go_bind (slice_of fp 0 16) (\<lambda>b.
                      Error (PinMismatch addr a b))), pins)
              else (Return True, pins)))"

subsection \<open>The text form of an identifier\<close>

lemma fromHexChar_hexdigit [simp]: "n < 16 \<Longrightarrow> fromHexChar (hexdigit n) = Some n"
proof -
  have "list_all (\<lambda>n. fromHexChar (hexdigit n) = Some n) [0..<16]" by code_simp
  then show "n < 16 \<Longrightarrow> fromHexChar (hexdigit n) = Some n" by (simp add: list_all_iff)
qed

lemma unat_byte_lt [simp]: "unat (b :: byte) < 256"
  by (rule order_less_le_trans [OF unsigned_less]) simp

lemma DecodeString_EncodeToString [simp]: "DecodeString (EncodeToString bs) = Return bs"
proof (induction bs)
  case Nil
  then show ?case by (simp add: EncodeToString_def)
next
  case (Cons b bs)
  have "unat b div 16 < 16"
    using unat_byte_lt [of b] by (simp add: div_less_iff_less_mult)
  with Cons show ?case
    by (simp add: EncodeToString_def hex_of_byte_def)
qed

lemma EncodeToString_inject [simp]: "EncodeToString a = EncodeToString b \<longleftrightarrow> a = b"
  by (metis DecodeString_EncodeToString outcome.inject(1))

lemma NodeID_String_inject [simp]: "NodeID_String a = NodeID_String b \<longleftrightarrow> a = b"
  by (simp add: NodeID_String_def)

lemma length_EncodeToString [simp]: "length (EncodeToString bs) = 2 * length bs"
  by (induction bs) (simp_all add: EncodeToString_def hex_of_byte_def)

lemma ParseNodeID_String:
  "ParseNodeID (NodeID_String nid) = (if length nid = 16 then Return nid else Error NotSixteenBytes)"
  by (simp add: ParseNodeID_def NodeID_String_def)

lemma length_zero_NodeID [simp]: "length zero_NodeID = 16"
  by (simp add: zero_NodeID_def)

subsection \<open>Properties\<close>

text \<open>C31: An identity that \<open>LoadOrCreate\<close> creates is the identity that a later \<open>LoadOrCreate\<close>
  loads from the text written to the file, whatever random seed was drawn; and its seed can be
  read back from the private key.\<close>

theorem LoadOrCreate_reload:
  assumes "LoadOrCreate derive sha256 NotExist random write_ok = (Return i, Some text)"
  shows "LoadOrCreate derive sha256 (FileData text) random' write_ok' = (Return i, None) \<and>
    text = EncodeToString (Identity_Seed i)"
  using assms
  by (auto simp: LoadOrCreate_def createAndSave_def FromSeed_def Identity_Seed_def Let_def fromKeypair_def
      split: option.splits outcome.splits if_splits)

theorem LoadOrCreate_reload_witness:
  "LoadOrCreate (\<lambda>s. rev s) (\<lambda>p. p) (FileData (EncodeToString (replicate 32 7))) None False
     = (Return (fromKeypair (\<lambda>p. p) (replicate 32 7) (replicate 64 7)), None)"
proof -
  have "LoadOrCreate (\<lambda>s. rev s) (\<lambda>p. p) NotExist (Some (replicate 32 7)) True
    = (Return (fromKeypair (\<lambda>p. p) (replicate 32 7) (replicate 64 7)),
       Some (EncodeToString (replicate 32 7)))"
    by (simp add: LoadOrCreate_def createAndSave_def FromSeed_def Let_def flip: replicate_add)
  from LoadOrCreate_reload [OF this] show ?thesis by simp
qed

text \<open>Trust on first use. After \<open>Check\<close> has seen an address once, with any certificate and
  whether or not the store could be saved, every later check of that address leaves the store as
  it is and accepts exactly the certificates with the pinned fingerprint: another fingerprint is
  reported as a mismatch.\<close>

theorem PinStore_first_use:
  assumes "pins addr = None" and "\<And>x. length (sha256 x) = 32"
    and "snd (PinStore_Check sha256 ok addr raw pins) = pins'"
  shows "PinStore_Check sha256 ok' addr raw' pins' =
     (if sha256 raw' = sha256 raw then Return True
      else Error (PinMismatch addr (take 16 (EncodeToString (sha256 raw)))
        (take 16 (EncodeToString (sha256 raw')))), pins')"
  using assms
  by (auto simp: PinStore_Check_def certSPKIHash_def Let_def slice_of_Return split: if_splits)

definition example_hash :: "bytes \<Rightarrow> bytes" where
  "example_hash raw = copy_array 32 raw"

theorem PinStore_first_use_witness:
  "PinStore_Check example_hash True ''h:1'' [2] [''h:1'' \<mapsto> certSPKIHash example_hash [1]] =
     (Error (PinMismatch ''h:1'' ''0100000000000000'' ''0200000000000000''),
      [''h:1'' \<mapsto> certSPKIHash example_hash [1]])"
proof -
  let ?pins = "[''h:1'' \<mapsto> certSPKIHash example_hash [1]]"
  have len: "length (example_hash x) = 32" for x
    by (simp add: example_hash_def)
  have "snd (PinStore_Check example_hash False ''h:1'' [1] Map.empty) = ?pins"
    by (simp add: PinStore_Check_def Let_def)
  from PinStore_first_use [OF _ len this, of True "[2]"]
  have "PinStore_Check example_hash True ''h:1'' [2] ?pins =
     (if example_hash [2] = example_hash [1] then Return True
      else Error (PinMismatch ''h:1'' (take 16 (EncodeToString (example_hash [1])))
        (take 16 (EncodeToString (example_hash [2])))), ?pins)"
    by simp
  moreover have "example_hash [2] \<noteq> example_hash [1]"
    and "take 16 (EncodeToString (example_hash [1])) = ''0100000000000000''"
    and "take 16 (EncodeToString (example_hash [2])) = ''0200000000000000''"
    by code_simp+
  ultimately show ?thesis by simp
qed

end
