(* ===== verification/Route_Path.thy ===== *)
theory Route_Path
  imports Identity
begin

text \<open>
  The AS path of route/path.go: the identifiers of the nodes a route has passed, nearest first.
  The slices of identifiers are copied element by element in the source; the wire form has the
  same sixteen bytes per hop.
\<close>

record ASPath =
  Hops :: "NodeID list"

definition NewASPath :: ASPath where
  "NewASPath = \<lparr>Hops = []\<rparr>"

definition AddHop :: "NodeID \<Rightarrow> ASPath \<Rightarrow> ASPath" where
  "AddHop nid p = p\<lparr>Hops := [nid] @ Hops p\<rparr>"

fun hops_contain :: "NodeID \<Rightarrow> NodeID list \<Rightarrow> bool" where
  "hops_contain nid [] = False"
| "hops_contain nid (hop # hops) = (if NodeID_Equal hop nid then True else hops_contain nid hops)"

definition ASPath_Contains :: "ASPath \<Rightarrow> NodeID \<Rightarrow> bool" where
  "ASPath_Contains p nid = hops_contain nid (Hops p)"

definition ASPath_Len :: "ASPath \<Rightarrow> nat" where
  "ASPath_Len p = length (Hops p)"

definition ASPath_Copy :: "ASPath \<Rightarrow> ASPath" where
  "ASPath_Copy p = \<lparr>Hops = map (\<lambda>hop. hop) (Hops p)\<rparr>"

definition CloneWithHop :: "ASPath \<Rightarrow> NodeID \<Rightarrow> ASPath" where
  "CloneWithHop p nid = \<lparr>Hops = nid # Hops p\<rparr>"

definition ToWire :: "ASPath \<Rightarrow> bytes list" where
  "ToWire p = map (copy_array 16) (Hops p)"

definition ASPathFromWire :: "bytes list \<Rightarrow> ASPath" where
  "ASPathFromWire wire = \<lparr>Hops = map (copy_array 16) wire\<rparr>"

subsection \<open>Lemmas\<close>

lemma ASPath_Contains_iff [simp]: "ASPath_Contains p nid \<longleftrightarrow> nid \<in> set (Hops p)"
proof -
  have "hops_contain nid hops \<longleftrightarrow> nid \<in> set hops" for hops
    by (induction hops) (auto simp: NodeID_Equal_def)
  then show ?thesis by (simp add: ASPath_Contains_def)
qed

lemma Hops_CloneWithHop [simp]: "Hops (CloneWithHop p nid) = nid # Hops p"
  by (simp add: CloneWithHop_def)

lemma CloneWithHop_eq_AddHop: "CloneWithHop p nid = AddHop nid (ASPath_Copy p)"
  by (simp add: CloneWithHop_def AddHop_def ASPath_Copy_def)

definition wf_ASPath :: "ASPath \<Rightarrow> bool" where
  "wf_ASPath p \<longleftrightarrow> list_all (\<lambda>hop. length hop = 16) (Hops p)"

lemma ToWire_wf: "wf_ASPath p \<Longrightarrow> ToWire p = Hops p"
  by (simp add: wf_ASPath_def ToWire_def list_all_iff map_idI)

lemma ASPathFromWire_hops: "list_all (\<lambda>hop. length hop = 16) hops \<Longrightarrow> ASPathFromWire hops = \<lparr>Hops = hops\<rparr>"
  by (simp add: ASPathFromWire_def list_all_iff map_idI)

lemma ToWire_length [simp]: "length (ToWire p) = ASPath_Len p"
  by (simp add: ToWire_def ASPath_Len_def)

lemma ToWire_elem: "list_all (\<lambda>hop. length hop = 16) (ToWire p)"
  by (simp add: ToWire_def list_all_iff)

lemma ASPath_wire_roundtrip: "wf_ASPath p \<Longrightarrow> ASPathFromWire (ToWire p) = \<lparr>Hops = Hops p\<rparr>"
  by (simp add: ToWire_wf ASPathFromWire_hops wf_ASPath_def)

end
