(* ===== verification/Route_Table.thy ===== *)
theory Route_Table
  imports Route_Path
begin

text \<open>
  The routing table of route/table.go. The table maps the text form of a prefix to the routes
  learnt for it; the range loops over that map take the iteration order as an argument
  (\<open>range_order\<close>). The clock is an argument: where an operation reads it twice, there are two.
  A nil AS path (the result for a direct network) is the empty one.

  Shown: the invariant every operation keeps, what each of them does to the set of routes,
  and that \<open>Lookup\<close> finds a best route by longest prefix and then by the order of
  \<open>bestPath\<close>, in every iteration order. The locale \<open>selector\<close> is what \<open>Lookup\<close> relies on
  in \<open>bestPath\<close>; the locale \<open>route_store\<close> is what the propagation engine relies on.
\<close>

subsection \<open>State\<close>

record Route =
  r_Destination :: IPNet
  r_NextHop :: NodeID
  r_ASPath :: ASPath
  r_Cost :: uint32
  r_Origin :: NodeID
  r_LocalPref :: uint32
  r_Timestamp :: go_time

record RoutingTable =
  rt_routes :: "string \<rightharpoonup> Route list"
  rt_selfID :: NodeID
  rt_directNetworks :: "IPNet list"

definition NewRoutingTable :: "NodeID \<Rightarrow> RoutingTable" where
  "NewRoutingTable selfID =
     \<lparr>rt_routes = Map.empty, rt_selfID = selfID, rt_directNetworks = []\<rparr>"

definition SetDirectNetworks :: "IPNet list \<Rightarrow> RoutingTable \<Rightarrow> RoutingTable" where
  "SetDirectNetworks nets rt = rt\<lparr>rt_directNetworks := nets\<rparr>"

definition GetDirectNetworks :: "RoutingTable \<Rightarrow> IPNet list" where
  "GetDirectNetworks rt = rt_directNetworks rt"

subsection \<open>Updates\<close>

text \<open>
  The scan of the routes already known for the prefix. None when no route has the same origin
  and next hop; otherwise whether the route was replaced, and the routes afterwards.
\<close>

fun update_existing :: "go_time \<Rightarrow> Route \<Rightarrow> Route list \<Rightarrow> (bool \<times> Route list) option" where
  "update_existing now r [] = None"
| "update_existing now r (er # ers) =
     (if NodeID_Equal (r_Origin er) (r_Origin r) \<and> NodeID_Equal (r_NextHop er) (r_NextHop r) then
        (if r_Cost er \<noteq> r_Cost r \<or> r_LocalPref er \<noteq> r_LocalPref r then Some (True, r # ers)
         else Some (False, er\<lparr>r_Timestamp := now\<rparr> # ers))
      else map_option (\<lambda>(changed, ers'). (changed, er # ers')) (update_existing now r ers))"

definition AddRoute :: "go_time \<Rightarrow> go_time \<Rightarrow> Route \<Rightarrow> RoutingTable \<Rightarrow> bool \<times> RoutingTable" where
  "AddRoute now now' r rt =
     (let key = IPNet_String (r_Destination r)
      in if ASPath_Contains (r_ASPath r) (rt_selfID rt) then (False, rt)
         else (let r = r\<lparr>r_Timestamp := now\<rparr>
               in case rt_routes rt key of
                    None \<Rightarrow> (True, rt\<lparr>rt_routes := (rt_routes rt)(key \<mapsto> [r])\<rparr>)
                  | Some existing \<Rightarrow>
                      (case update_existing now' r existing of
                         Some (changed, existing') \<Rightarrow>
                           (changed, rt\<lparr>rt_routes := (rt_routes rt)(key \<mapsto> existing')\<rparr>)
                       | None \<Rightarrow>
                           (True, rt\<lparr>rt_routes := (rt_routes rt)(key \<mapsto> existing @ [r])\<rparr>))))"

definition RemoveRoute :: "IPNet \<Rightarrow> NodeID \<Rightarrow> RoutingTable \<Rightarrow> RoutingTable" where
  "RemoveRoute dest origin rt =
     (let key = IPNet_String dest
      in case rt_routes rt key of
           None \<Rightarrow> rt
         | Some existing \<Rightarrow>
             (let filtered = filter (\<lambda>r. \<not> NodeID_Equal (r_Origin r) origin) existing
              in if filtered = [] then rt\<lparr>rt_routes := (rt_routes rt)(key := None)\<rparr>
                 else rt\<lparr>rt_routes := (rt_routes rt)(key \<mapsto> filtered)\<rparr>))"

text \<open>
  The body shared by the loops of \<open>RemoveAllFromOrigin\<close> and \<open>GC\<close>: filter the routes of one
  key in place and drop the key when none is left.
\<close>

definition sweep_key :: "(Route \<Rightarrow> bool) \<Rightarrow> string \<Rightarrow> (string \<rightharpoonup> Route list) \<Rightarrow> (string \<rightharpoonup> Route list)" where
  "sweep_key keep key m =
     (case m key of
        None \<Rightarrow> m
      | Some routes \<Rightarrow>
          (let filtered = filter keep routes
           in if filtered = [] then m(key := None) else m(key \<mapsto> filtered)))"

definition RemoveAllFromOrigin :: "string list \<Rightarrow> NodeID \<Rightarrow> RoutingTable \<Rightarrow> RoutingTable" where
  "RemoveAllFromOrigin order origin rt =
     rt\<lparr>rt_routes := fold (sweep_key (\<lambda>r. \<not> NodeID_Equal (r_Origin r) origin \<and>
         \<not> NodeID_Equal (r_NextHop r) origin)) order (rt_routes rt)\<rparr>"

definition GC :: "string list \<Rightarrow> go_time \<Rightarrow> duration \<Rightarrow> RoutingTable \<Rightarrow> nat \<times> RoutingTable" where
  "GC order now ttl rt =
     (let keep = (\<lambda>r. now - r_Timestamp r < ttl);
          (removed, m) = fold (\<lambda>key (removed, m).
              (removed + (case m key of None \<Rightarrow> 0 | Some routes \<Rightarrow> length (filter (\<lambda>r. \<not> keep r) routes)),
               sweep_key keep key m)) order (0, rt_routes rt)
      in (removed, rt\<lparr>rt_routes := m\<rparr>))"

subsection \<open>Queries\<close>

definition bestPath :: "Route \<Rightarrow> Route \<Rightarrow> Route" where
  "bestPath a b =
     (if r_LocalPref a > r_LocalPref b then a
      else if r_LocalPref b > r_LocalPref a then b
      else if ASPath_Len (r_ASPath a) < ASPath_Len (r_ASPath b) then a
      else if ASPath_Len (r_ASPath b) < ASPath_Len (r_ASPath a) then b
      else if r_Cost a < r_Cost b then a
      else if r_Cost b < r_Cost a then b
      else if r_Timestamp a < r_Timestamp b then a
      else b)"

definition lookup_step :: "IP \<Rightarrow> Route \<Rightarrow> Route option \<times> nat \<Rightarrow> Route option \<times> nat" where
  "lookup_step ip r acc =
     (let (bestMatch, bestMaskLen) = acc
      in if \<not> IPNet_Contains (r_Destination r) ip then acc
         else (let ones = mask_ones (ipn_Mask (r_Destination r))
               in if ones > bestMaskLen then (Some r, ones)
                  else (case bestMatch of
                          None \<Rightarrow> acc
                        | Some b \<Rightarrow> (if ones = bestMaskLen then (Some (bestPath b r), bestMaskLen) else acc))))"

definition direct_route :: "IPNet \<Rightarrow> Route" where
  "direct_route nw =
     \<lparr>r_Destination = nw, r_NextHop = zero_NodeID, r_ASPath = NewASPath, r_Cost = 0,
      r_Origin = zero_NodeID, r_LocalPref = 0, r_Timestamp = 0\<rparr>"

definition Lookup :: "string list \<Rightarrow> RoutingTable \<Rightarrow> IP \<Rightarrow> Route option" where
  "Lookup order rt ip =
     (case find (\<lambda>nw. IPNet_Contains nw ip) (rt_directNetworks rt) of
        Some nw \<Rightarrow> Some (direct_route nw)
      | None \<Rightarrow>
          fst (fold (\<lambda>key acc. case rt_routes rt key of
                 None \<Rightarrow> acc | Some routes \<Rightarrow> fold (lookup_step ip) routes acc) order (None, 0)))"

definition GetAllRoutes :: "string list \<Rightarrow> RoutingTable \<Rightarrow> Route list" where
  "GetAllRoutes order rt =
     concat (map (\<lambda>key. case rt_routes rt key of None \<Rightarrow> [] | Some routes \<Rightarrow> routes) order)"

definition RoutingTable_Size :: "string list \<Rightarrow> RoutingTable \<Rightarrow> nat" where
  "RoutingTable_Size order rt =
     fold (\<lambda>key count. count + (case rt_routes rt key of None \<Rightarrow> 0 | Some routes \<Rightarrow> length routes)) order 0"

subsection \<open>The routes of a table\<close>

definition routes_of :: "RoutingTable \<Rightarrow> Route set" where
  "routes_of rt = (\<Union>routes \<in> ran (rt_routes rt). set routes)"

definition route_key :: "Route \<Rightarrow> string" where
  "route_key r = IPNet_String (r_Destination r)"

definition source :: "Route \<Rightarrow> NodeID \<times> NodeID" where
  "source r = (r_Origin r, r_NextHop r)"

text \<open>
  The invariant: a key has at least one route; the routes of a key are for that prefix, have
  pairwise different sources (origin and next hop), and none of them passes this node.
\<close>

definition wf_routes :: "NodeID \<Rightarrow> string \<Rightarrow> Route list \<Rightarrow> bool" where
  "wf_routes self key routes \<longleftrightarrow>
     routes \<noteq> [] \<and> list_all (\<lambda>r. route_key r = key \<and> self \<notin> set (Hops (r_ASPath r))) routes \<and>
     distinct (map source routes)"

definition wf_table :: "RoutingTable \<Rightarrow> bool" where
  "wf_table rt \<longleftrightarrow> (\<forall>key routes. rt_routes rt key = Some routes \<longrightarrow> wf_routes (rt_selfID rt) key routes)"

lemma routes_of_iff:
  "r \<in> routes_of rt \<longleftrightarrow> (\<exists>key routes. rt_routes rt key = Some routes \<and> r \<in> set routes)"
  by (auto simp: routes_of_def ran_def)

text \<open>In a well-formed table a route is stored under its own key only.\<close>

lemma routes_of_wf:
  "wf_table rt \<Longrightarrow> r \<in> routes_of rt \<longleftrightarrow>
     (\<exists>routes. rt_routes rt (route_key r) = Some routes \<and> r \<in> set routes)"
  by (fastforce simp: routes_of_iff wf_table_def wf_routes_def list_all_iff)

lemma wf_table_sources:
  "wf_table rt \<Longrightarrow> r \<in> routes_of rt \<Longrightarrow> r' \<in> routes_of rt \<Longrightarrow>
     route_key r = route_key r' \<Longrightarrow> source r = source r' \<Longrightarrow> r = r'"
  by (fastforce simp: routes_of_wf wf_table_def wf_routes_def distinct_map inj_on_def)

lemma wf_table_no_loop: "wf_table rt \<Longrightarrow> r \<in> routes_of rt \<Longrightarrow> rt_selfID rt \<notin> set (Hops (r_ASPath r))"
  by (fastforce simp: routes_of_iff wf_table_def wf_routes_def list_all_iff)

lemma wf_table_upd:
  "wf_table rt \<Longrightarrow> wf_routes (rt_selfID rt) key routes \<Longrightarrow>
     wf_table (rt\<lparr>rt_routes := (rt_routes rt)(key \<mapsto> routes)\<rparr>)"
  by (auto simp: wf_table_def)

lemma wf_table_del: "wf_table rt \<Longrightarrow> wf_table (rt\<lparr>rt_routes := (rt_routes rt)(key := None)\<rparr>)"
  by (auto simp: wf_table_def)

lemma wf_routes_filter:
  "wf_routes self key routes \<Longrightarrow> filter keep routes \<noteq> [] \<Longrightarrow> wf_routes self key (filter keep routes)"
  by (auto simp: wf_routes_def list_all_iff distinct_map inj_on_def)

lemma routes_of_empty:
  assumes "wf_table rt" and "routes_of rt = {}"
  shows "rt_routes rt key = None"
proof (cases "rt_routes rt key")
  case (Some routes)
  with assms(1) have "routes \<noteq> []" by (simp add: wf_table_def wf_routes_def)
  moreover from Some have "set routes \<subseteq> routes_of rt" unfolding routes_of_def by (blast intro: ranI)
  ultimately show ?thesis using assms(2) by simp
qed

lemma wf_NewRoutingTable: "wf_table (NewRoutingTable self)"
  by (simp add: wf_table_def NewRoutingTable_def)

lemma routes_of_New [simp]: "routes_of (NewRoutingTable self) = {}"
  by (simp add: routes_of_def NewRoutingTable_def)

lemma wf_SetDirectNetworks [simp]: "wf_table (SetDirectNetworks nets rt) = wf_table rt"
  by (simp add: wf_table_def SetDirectNetworks_def)

subsection \<open>Adding a route\<close>

lemma update_existing_None: "update_existing now r ers = None \<longleftrightarrow> source r \<notin> source ` set ers"
  by (induction ers) (auto simp: source_def NodeID_Equal_def)

lemma update_existing_Some:
  "update_existing now r ers = Some (changed, ers') \<Longrightarrow>
     \<exists>pre er post. ers = pre @ er # post \<and> source er = source r \<and>
       (changed \<longleftrightarrow> r_Cost er \<noteq> r_Cost r \<or> r_LocalPref er \<noteq> r_LocalPref r) \<and>
       ers' = pre @ (if changed then r else er\<lparr>r_Timestamp := now\<rparr>) # post"
proof (induction ers arbitrary: ers')
  case Nil
  then show ?case by simp
next
  case (Cons er ers)
  show ?case
  proof (cases "source er = source r")
    case True
    with Cons.prems show ?thesis
      by (intro exI [of _ "[]"] exI [of _ er] exI [of _ ers])
         (auto simp: source_def NodeID_Equal_def split: if_splits)
  next
    case False
    with Cons.prems obtain ers'' where more: "update_existing now r ers = Some (changed, ers'')"
      and "ers' = er # ers''"
      by (auto simp: source_def NodeID_Equal_def split: if_splits)
    with Cons.IH [OF more] show ?thesis by (metis append_Cons)
  qed
qed

lemma stored_route_simps [simp]:
  "source (r\<lparr>r_Timestamp := t\<rparr>) = source r"
  "route_key (r\<lparr>r_Timestamp := t\<rparr>) = route_key r"
  by (simp_all add: source_def route_key_def)

lemma wf_routes_replace:
  "wf_routes self key (pre @ er # post) \<Longrightarrow> source er' = source er \<Longrightarrow> route_key er' = key \<Longrightarrow>
     self \<notin> set (Hops (r_ASPath er')) \<Longrightarrow> wf_routes self key (pre @ er' # post)"
  by (auto simp: wf_routes_def)

text \<open>
  What \<open>AddRoute\<close> leaves under the key of the route: the other sources' routes, and for the
  route's own source the new route or, when neither cost nor preference changed, the old one
  with a fresh time stamp.
\<close>

lemma AddRoute_cases:
  assumes "wf_table rt"
  obtains (loop) "rt_selfID rt \<in> set (Hops (r_ASPath r))" "AddRoute now now' r rt = (False, rt)"
  | (new) "rt_selfID rt \<notin> set (Hops (r_ASPath r))"
      "\<forall>er\<in>routes_of rt. route_key er = route_key r \<longrightarrow> source er \<noteq> source r"
      "AddRoute now now' r rt = (True, rt\<lparr>rt_routes := (rt_routes rt)(route_key r \<mapsto>
         (case rt_routes rt (route_key r) of None \<Rightarrow> [] | Some ers \<Rightarrow> ers) @ [r\<lparr>r_Timestamp := now\<rparr>])\<rparr>)"
  | (known) pre er post changed where "rt_selfID rt \<notin> set (Hops (r_ASPath r))"
      "rt_routes rt (route_key r) = Some (pre @ er # post)" "source er = source r"
      "changed \<longleftrightarrow> r_Cost er \<noteq> r_Cost r \<or> r_LocalPref er \<noteq> r_LocalPref r"
      "AddRoute now now' r rt = (changed, rt\<lparr>rt_routes := (rt_routes rt)(route_key r \<mapsto>
         pre @ (if changed then r\<lparr>r_Timestamp := now\<rparr> else er\<lparr>r_Timestamp := now'\<rparr>) # post)\<rparr>)"
proof (cases "rt_selfID rt \<in> set (Hops (r_ASPath r))")
  case True
  then show thesis by (intro loop) (simp_all add: AddRoute_def)
next
  case noloop: False
  let ?r = "r\<lparr>r_Timestamp := now\<rparr>"
  show thesis
  proof (cases "rt_routes rt (route_key r)")
    case None
    have "route_key er \<noteq> route_key r" if "er \<in> routes_of rt" for er
      using None that assms by (metis option.distinct(1) routes_of_wf)
    with None noloop show thesis
      by (intro new) (auto simp: AddRoute_def route_key_def Let_def)
  next
    case (Some ers)
    show thesis
    proof (cases "update_existing now' ?r ers")
      case None
      with Some assms have "\<forall>er\<in>routes_of rt. route_key er = route_key r \<longrightarrow> source er \<noteq> source r"
        by (auto simp: update_existing_None routes_of_wf intro: rev_image_eqI)
      with None Some noloop show thesis
        by (intro new) (auto simp: AddRoute_def route_key_def Let_def)
    next
      case upd: (Some res)
      obtain changed ers' where res: "res = (changed, ers')" by (cases res)
      from update_existing_Some [OF upd [unfolded res]] obtain pre er post where
        ers: "ers = pre @ er # post" "source er = source r"
        "changed \<longleftrightarrow> r_Cost er \<noteq> r_Cost r \<or> r_LocalPref er \<noteq> r_LocalPref r"
        "ers' = pre @ (if changed then ?r else er\<lparr>r_Timestamp := now'\<rparr>) # post"
        by auto
      show thesis
        by (rule known [of pre er post changed])
           (use noloop Some upd res ers in \<open>auto simp: AddRoute_def route_key_def Let_def\<close>)
    qed
  qed
qed

text \<open>The routes after one key has been given new routes, or none.\<close>

lemma routes_of_upd:
  "wf_table rt \<Longrightarrow> routes_of (rt\<lparr>rt_routes := (rt_routes rt)(key \<mapsto> routes)\<rparr>) =
     {r \<in> routes_of rt. route_key r \<noteq> key} \<union> set routes"
  by (fastforce simp: routes_of_iff wf_table_def wf_routes_def list_all_iff split: if_splits)

lemma routes_of_del:
  "wf_table rt \<Longrightarrow> routes_of (rt\<lparr>rt_routes := (rt_routes rt)(key := None)\<rparr>) =
     {r \<in> routes_of rt. route_key r \<noteq> key}"
  by (fastforce simp: routes_of_iff wf_table_def wf_routes_def list_all_iff split: if_splits)

lemma routes_at:
  assumes "wf_table rt"
  shows "{r \<in> routes_of rt. route_key r = key} =
     set (case rt_routes rt key of None \<Rightarrow> [] | Some routes \<Rightarrow> routes)"
proof (cases "rt_routes rt key")
  case None
  with assms show ?thesis by (auto simp: routes_of_wf)
next
  case (Some routes)
  with assms have "wf_routes (rt_selfID rt) key routes" by (simp add: wf_table_def)
  then have "\<forall>r\<in>set routes. route_key r = key" by (auto simp: wf_routes_def list_all_iff)
  then have "r \<in> routes_of rt \<and> route_key r = key \<longleftrightarrow> r \<in> set routes" for r
    using routes_of_wf [OF assms, of r] Some by (metis option.inject)
  then show ?thesis using Some by auto
qed

lemma wf_AddRoute:
  assumes "wf_table rt"
  shows "wf_table (snd (AddRoute now now' r rt))"
  using assms
proof (cases rule: AddRoute_cases [where r = r and now = now and now' = now'])
  case new
  have "wf_routes (rt_selfID rt) (route_key r)
     ((case rt_routes rt (route_key r) of None \<Rightarrow> [] | Some ers \<Rightarrow> ers) @ [r\<lparr>r_Timestamp := now\<rparr>])"
  proof (cases "rt_routes rt (route_key r)")
    case None
    with new show ?thesis by (simp add: wf_routes_def)
  next
    case (Some ers)
    with assms have "wf_routes (rt_selfID rt) (route_key r) ers" by (simp add: wf_table_def)
    moreover from this Some new(2) have "source r \<notin> source ` set ers"
      by (auto simp: routes_of_iff wf_routes_def list_all_iff)
    ultimately show ?thesis using Some new(1) by (simp add: wf_routes_def)
  qed
  with new assms show ?thesis by (simp add: wf_table_upd)
next
  case (known pre er post changed)
  then have old: "wf_routes (rt_selfID rt) (route_key r) (pre @ er # post)"
    using assms by (simp add: wf_table_def)
  then have er: "route_key er = route_key r" "rt_selfID rt \<notin> set (Hops (r_ASPath er))"
    by (auto simp: wf_routes_def)
  show ?thesis
    using known assms er by (auto intro!: wf_table_upd intro: wf_routes_replace [OF old])
qed (use assms in simp)

lemma selfID_ops [simp]:
  "rt_selfID (snd (AddRoute now now' r rt)) = rt_selfID rt"
  "rt_selfID (RemoveRoute dest origin rt) = rt_selfID rt"
  "rt_selfID (RemoveAllFromOrigin order origin rt) = rt_selfID rt"
  "rt_selfID (snd (GC order now ttl rt)) = rt_selfID rt"
  "rt_selfID (SetDirectNetworks nets rt) = rt_selfID rt"
  "rt_selfID (NewRoutingTable self) = self"
  by (simp_all add: AddRoute_def RemoveRoute_def RemoveAllFromOrigin_def GC_def Let_def
      SetDirectNetworks_def NewRoutingTable_def split: option.split prod.split)

lemma directNetworks_ops [simp]:
  "rt_directNetworks (snd (AddRoute now now' r rt)) = rt_directNetworks rt"
  "rt_directNetworks (RemoveRoute dest origin rt) = rt_directNetworks rt"
  "rt_directNetworks (RemoveAllFromOrigin order origin rt) = rt_directNetworks rt"
  "rt_directNetworks (snd (GC order now ttl rt)) = rt_directNetworks rt"
  by (simp_all add: AddRoute_def RemoveRoute_def RemoveAllFromOrigin_def GC_def Let_def
      split: option.split prod.split)

text \<open>
  The slot of a route is its prefix and its source: \<open>AddRoute\<close> writes the slot of the route it
  is given and no other.
\<close>

definition slot :: "Route \<Rightarrow> string \<times> NodeID \<times> NodeID" where
  "slot r = (route_key r, source r)"

lemma wf_table_slots: "wf_table rt \<Longrightarrow> inj_on slot (routes_of rt)"
  by (auto simp: slot_def inj_on_def intro: wf_table_sources)

lemma slot_stamp [simp]: "slot (r\<lparr>r_Timestamp := t\<rparr>) = slot r"
  by (simp add: slot_def)

text \<open>
  The functional behaviour of \<open>AddRoute\<close>, in terms of the set of routes.
\<close>

lemma AddRoute_routes:
  assumes wf: "wf_table rt" and noloop: "rt_selfID rt \<notin> set (Hops (r_ASPath r))"
    and add: "AddRoute now now' r rt = (changed, rt')"
  shows "routes_of rt' = {er \<in> routes_of rt. slot er \<noteq> slot r} \<union>
     (if changed then {r\<lparr>r_Timestamp := now\<rparr>}
      else (\<lambda>er. er\<lparr>r_Timestamp := now'\<rparr>) ` {er \<in> routes_of rt. slot er = slot r})"
    and "changed \<longleftrightarrow> (\<forall>er\<in>routes_of rt. slot er = slot r \<longrightarrow>
       r_Cost er \<noteq> r_Cost r \<or> r_LocalPref er \<noteq> r_LocalPref r)"
proof -
  have split: "X = {er \<in> X. route_key er \<noteq> route_key r} \<union> {er \<in> X. route_key er = route_key r}"
    for X by auto
  have "routes_of rt' = {er \<in> routes_of rt. slot er \<noteq> slot r} \<union>
     (if changed then {r\<lparr>r_Timestamp := now\<rparr>}
      else (\<lambda>er. er\<lparr>r_Timestamp := now'\<rparr>) ` {er \<in> routes_of rt. slot er = slot r}) \<and>
     (changed \<longleftrightarrow> (\<forall>er\<in>routes_of rt. slot er = slot r \<longrightarrow>
       r_Cost er \<noteq> r_Cost r \<or> r_LocalPref er \<noteq> r_LocalPref r))"
    using wf
  proof (cases rule: AddRoute_cases [where r = r and now = now and now' = now'])
    case loop
    with noloop show ?thesis by simp
  next
    case new
    with add have res: "changed" "routes_of rt' = {er \<in> routes_of rt. route_key er \<noteq> route_key r} \<union>
      {er \<in> routes_of rt. route_key er = route_key r} \<union> {r\<lparr>r_Timestamp := now\<rparr>}"
      by (auto simp: routes_of_upd [OF wf] routes_at [OF wf])
    from new(2) have "\<forall>er\<in>routes_of rt. slot er \<noteq> slot r" by (auto simp: slot_def)
    with res show ?thesis by auto
  next
    case (known pre er post changed')
    let ?ers = "pre @ er # post"
    from wf known have "wf_routes (rt_selfID rt) (route_key r) ?ers" by (simp add: wf_table_def)
    then have ers: "\<forall>e\<in>set ?ers. route_key e = route_key r" "distinct (map source ?ers)"
      by (auto simp: wf_routes_def list_all_iff)
    have at: "{e \<in> routes_of rt. route_key e = route_key r} = set ?ers"
      using known routes_at [OF wf, of "route_key r"] by simp
    have pp: "{e \<in> routes_of rt. slot e = slot r} = {er}"
      "{e \<in> routes_of rt. slot e \<noteq> slot r} =
         {e \<in> routes_of rt. route_key e \<noteq> route_key r} \<union> (set pre \<union> set post)"
      using ers known(3) at by (auto simp: slot_def rev_image_eqI)
    have rt': "changed = changed'" "routes_of rt' = {e \<in> routes_of rt. route_key e \<noteq> route_key r} \<union>
       set (pre @ (if changed then r\<lparr>r_Timestamp := now\<rparr> else er\<lparr>r_Timestamp := now'\<rparr>) # post)"
      using add known by (auto simp: routes_of_upd [OF wf])
    have "changed \<longleftrightarrow> (\<forall>er\<in>{e \<in> routes_of rt. slot e = slot r}.
       r_Cost er \<noteq> r_Cost r \<or> r_LocalPref er \<noteq> r_LocalPref r)"
      unfolding pp using known rt' by simp
    then have "changed \<longleftrightarrow> (\<forall>er\<in>routes_of rt. slot er = slot r \<longrightarrow>
       r_Cost er \<noteq> r_Cost r \<or> r_LocalPref er \<noteq> r_LocalPref r)"
      by blast
    moreover have "routes_of rt' = {er \<in> routes_of rt. slot er \<noteq> slot r} \<union>
       (if changed then {r\<lparr>r_Timestamp := now\<rparr>}
        else (\<lambda>er. er\<lparr>r_Timestamp := now'\<rparr>) ` {er \<in> routes_of rt. slot er = slot r})"
      unfolding rt'(2) pp by auto
    ultimately show ?thesis by blast
  qed
  then show "routes_of rt' = {er \<in> routes_of rt. slot er \<noteq> slot r} \<union>
     (if changed then {r\<lparr>r_Timestamp := now\<rparr>}
      else (\<lambda>er. er\<lparr>r_Timestamp := now'\<rparr>) ` {er \<in> routes_of rt. slot er = slot r})"
    and "changed \<longleftrightarrow> (\<forall>er\<in>routes_of rt. slot er = slot r \<longrightarrow>
       r_Cost er \<noteq> r_Cost r \<or> r_LocalPref er \<noteq> r_LocalPref r)"
    by blast+
qed

text \<open>Afterwards the slot of the route has exactly one route, with its cost and preference.\<close>

lemma AddRoute_slot:
  assumes "wf_table rt" and "rt_selfID rt \<notin> set (Hops (r_ASPath r))"
    and "AddRoute now now' r rt = (changed, rt')"
  shows "\<exists>er. {er \<in> routes_of rt'. slot er = slot r} = {er} \<and> r_Cost er = r_Cost r \<and>
      r_LocalPref er = r_LocalPref r \<and> (changed \<longrightarrow> er = r\<lparr>r_Timestamp := now\<rparr>)"
proof (cases changed)
  case True
  then show ?thesis unfolding AddRoute_routes(1) [OF assms] by (intro exI [of _ "r\<lparr>r_Timestamp := now\<rparr>"]) auto
next
  case False
  with AddRoute_routes(2) [OF assms] obtain er where er: "er \<in> routes_of rt" "slot er = slot r"
    "r_Cost er = r_Cost r" "r_LocalPref er = r_LocalPref r" by blast
  have "e = er" if "e \<in> routes_of rt" "slot e = slot r" for e
    using inj_onD [OF wf_table_slots [OF assms(1)], of e er] that er by simp
  then have old: "{e \<in> routes_of rt. slot e = slot r} = {er}" using er by blast
  have "{e \<in> routes_of rt'. slot e = slot r} =
    (\<lambda>er. er\<lparr>r_Timestamp := now'\<rparr>) ` {e \<in> routes_of rt. slot e = slot r}"
    using False unfolding AddRoute_routes(1) [OF assms] by auto
  with old have "{e \<in> routes_of rt'. slot e = slot r} = {er\<lparr>r_Timestamp := now'\<rparr>}" by simp
  with False er(3,4) show ?thesis by (intro exI [of _ "er\<lparr>r_Timestamp := now'\<rparr>"]) simp
qed

subsection \<open>Removing routes\<close>

lemma RemoveRoute_wf:
  "wf_table rt \<Longrightarrow> wf_table (RemoveRoute dest origin rt)"
  by (auto simp: RemoveRoute_def Let_def wf_table_del wf_table_upd wf_table_def wf_routes_filter
      split: option.split)

lemma RemoveRoute_routes:
  assumes "wf_table rt"
  shows "routes_of (RemoveRoute dest origin rt) =
     {r \<in> routes_of rt. \<not> (route_key r = IPNet_String dest \<and> r_Origin r = origin)}"
proof (cases "rt_routes rt (IPNet_String dest)")
  case None
  with assms have "\<forall>r\<in>routes_of rt. route_key r \<noteq> IPNet_String dest" by (auto simp: routes_of_wf)
  with None show ?thesis by (auto simp: RemoveRoute_def)
next
  case (Some ers)
  have at: "{r \<in> routes_of rt. route_key r = IPNet_String dest} = set ers"
    using routes_at [OF assms, of "IPNet_String dest"] Some by simp
  have "routes_of (RemoveRoute dest origin rt) =
     {r \<in> routes_of rt. route_key r \<noteq> IPNet_String dest} \<union> {r \<in> set ers. r_Origin r \<noteq> origin}"
    using Some assms
    by (auto simp: RemoveRoute_def Let_def routes_of_upd routes_of_del NodeID_Equal_def filter_empty_conv)
  then show ?thesis unfolding at [symmetric] by auto
qed

interpretation sweep: range_update "sweep_key keep"
    "\<lambda>_ routes. if filter keep routes = [] then None else Some (filter keep routes)" for keep
  by unfold_locales (auto simp: sweep_key_def Let_def split: option.split)

text \<open>Both sweeps, in every iteration order: exactly the routes that fail the test are gone.\<close>

lemma sweep_table:
  assumes "range_order (rt_routes rt) order"
  shows "wf_table rt \<Longrightarrow> wf_table (rt\<lparr>rt_routes := fold (sweep_key keep) order (rt_routes rt)\<rparr>)"
    and "routes_of (rt\<lparr>rt_routes := fold (sweep_key keep) order (rt_routes rt)\<rparr>) =
      {r \<in> routes_of rt. keep r}"
proof -
  have at: "fold (sweep_key keep) order (rt_routes rt) key = Some routes \<longleftrightarrow>
    (\<exists>routes'. rt_routes rt key = Some routes' \<and> filter keep routes' \<noteq> [] \<and> routes = filter keep routes')"
    for key routes
    using assms by (auto simp: sweep.range_fold bind_eq_Some_conv)
  show "wf_table rt \<Longrightarrow> wf_table (rt\<lparr>rt_routes := fold (sweep_key keep) order (rt_routes rt)\<rparr>)"
    by (auto simp: wf_table_def at wf_routes_filter)
  show "routes_of (rt\<lparr>rt_routes := fold (sweep_key keep) order (rt_routes rt)\<rparr>) = {r \<in> routes_of rt. keep r}"
    by (fastforce simp: routes_of_iff at filter_empty_conv)
qed

lemma RemoveAllFromOrigin_wf:
  "wf_table rt \<Longrightarrow> range_order (rt_routes rt) order \<Longrightarrow> wf_table (RemoveAllFromOrigin order origin rt)"
  by (simp add: RemoveAllFromOrigin_def sweep_table)

lemma RemoveAllFromOrigin_routes:
  "range_order (rt_routes rt) order \<Longrightarrow> routes_of (RemoveAllFromOrigin order origin rt) =
     {r \<in> routes_of rt. r_Origin r \<noteq> origin \<and> r_NextHop r \<noteq> origin}"
  by (simp add: RemoveAllFromOrigin_def sweep_table NodeID_Equal_def)

subsection \<open>Listing, counting and expiry\<close>

lemma set_GetAllRoutes: "range_order (rt_routes rt) order \<Longrightarrow> set (GetAllRoutes order rt) = routes_of rt"
  by (rule set_eqI)
     (auto simp: GetAllRoutes_def routes_of_iff range_order_def split: option.splits, metis+, metis domI)

lemma distinct_GetAllRoutes:
  assumes "wf_table rt" "distinct order"
  shows "distinct (GetAllRoutes order rt)"
  using assms(2)
proof (induction order)
  case Nil
  then show ?case by (simp add: GetAllRoutes_def)
next
  case (Cons key order)
  define at where "at key = (case rt_routes rt key of None \<Rightarrow> [] | Some routes \<Rightarrow> routes)" for key
  have all: "GetAllRoutes ks rt = concat (map at ks)" for ks
    by (simp add: GetAllRoutes_def at_def [abs_def])
  have wf: "wf_routes (rt_selfID rt) k rs" if "rt_routes rt k = Some rs" for k rs
    using assms(1) that by (simp add: wf_table_def)
  have "distinct (at key)"
    using wf [of key] by (cases "rt_routes rt key") (auto simp: at_def wf_routes_def distinct_map)
  moreover have keys: "route_key r = k" if "r \<in> set (at k)" for r k
    using that wf [of k] by (cases "rt_routes rt k") (auto simp: at_def wf_routes_def list_all_iff)
  ultimately show ?case
    using Cons by (auto simp: all dest!: keys)
qed

lemma RoutingTable_Size_eq: "RoutingTable_Size order rt = length (GetAllRoutes order rt)"
proof -
  have "fold (\<lambda>key count. count + (case rt_routes rt key of None \<Rightarrow> 0 | Some routes \<Rightarrow> length routes)) order n
    = n + length (GetAllRoutes order rt)" for n
    by (induction order arbitrary: n) (auto simp: GetAllRoutes_def split: option.split)
  then show ?thesis by (simp add: RoutingTable_Size_def)
qed

lemma GC_eq:
  assumes "distinct order"
  shows "GC order now ttl rt =
     (length (filter (\<lambda>r. ttl \<le> now - r_Timestamp r) (GetAllRoutes order rt)),
      rt\<lparr>rt_routes := fold (sweep_key (\<lambda>r. now - r_Timestamp r < ttl)) order (rt_routes rt)\<rparr>)"
proof -
  let ?keep = "\<lambda>r. now - r_Timestamp r < ttl"
  let ?cnt = "\<lambda>m key. case m key of None \<Rightarrow> 0 | Some routes \<Rightarrow> length (filter (\<lambda>r. \<not> ?keep r) routes)"
  have "fold (\<lambda>key (n, m). (n + ?cnt m key, sweep_key ?keep key m)) order (n, m) =
     (n + sum_list (map (?cnt m) order), fold (sweep_key ?keep) order m)" for n :: nat and m
    using assms
  proof (induction order arbitrary: n m)
    case (Cons key order)
    from Cons.prems have "sweep_key ?keep key m k = m k" if "k \<in> set order" for k
      using that by (intro sweep.step_other) auto
    then have "sum_list (map (?cnt (sweep_key ?keep key m)) order) = sum_list (map (?cnt m) order)"
      by (simp cong: map_cong)
    with Cons show ?case by simp
  qed simp
  moreover have "sum_list (map (?cnt (rt_routes rt)) order) =
     length (filter (\<lambda>r. ttl \<le> now - r_Timestamp r) (GetAllRoutes order rt))"
    by (induction order) (auto simp: GetAllRoutes_def not_less split: option.split)
  ultimately show ?thesis by (simp add: GC_def Let_def)
qed

subsection \<open>Choosing among routes\<close>

text \<open>
  What a scan for the best element relies on in its binary choice: the choice returns one of
  its arguments, of the smaller rank. Folding it over a list then finds an element of least
  rank, whatever the order of the list.
\<close>

locale selector =
  fixes pick :: "'a \<Rightarrow> 'a \<Rightarrow> 'a" and rank :: "'a \<Rightarrow> 'k :: linorder"
  assumes pick_in: "pick a b = a \<or> pick a b = b"
    and pick_rank: "rank (pick a b) = min (rank a) (rank b)"
begin

lemma fold_pick_in: "fold (\<lambda>x best. pick best x) xs b \<in> insert b (set xs)"
proof (induction xs arbitrary: b)
  case (Cons x xs)
  show ?case using Cons.IH [of "pick b x"] pick_in [of b x] by auto
qed simp

lemma fold_pick_rank: "rank (fold (\<lambda>x best. pick best x) xs b) = Min (rank ` insert b (set xs))"
proof (induction xs arbitrary: b)
  case (Cons x xs)
  have "Min (rank ` insert (pick b x) (set xs)) = Min (rank ` insert b (set (x # xs)))"
    by (cases "xs = []") (simp_all add: pick_rank min.assoc)
  with Cons show ?case by simp
qed simp

lemma fold_pick_least: "x \<in> insert b (set xs) \<Longrightarrow> rank (fold (\<lambda>x best. pick best x) xs b) \<le> rank x"
  unfolding fold_pick_rank by (rule Min_le) auto

end

text \<open>A choice refined by a weight that is compared first, the larger weight winning.\<close>

locale weighted_selector = selector pick rank for pick :: "'a \<Rightarrow> 'a \<Rightarrow> 'a" and rank :: "'a \<Rightarrow> 'k :: linorder" +
  fixes wpick :: "'a \<Rightarrow> 'a \<Rightarrow> 'a" and weight :: "'a \<Rightarrow> nat"
  assumes wpick_def: "wpick a b = (if weight b > weight a then b else if weight b = weight a then pick a b else a)"
begin

lemma wpick_selects: "selector wpick (\<lambda>a. (- int (weight a), rank a))"
proof
  show "wpick a b = a \<or> wpick a b = b" for a b
    using pick_in [of a b] by (auto simp: wpick_def)
  show "(- int (weight (wpick a b)), rank (wpick a b)) =
    min (- int (weight a), rank a) (- int (weight b), rank b)" for a b
    using pick_in [of a b] pick_rank [of a b] by (auto simp: wpick_def min_def less_eq_prod_def split: if_splits)
qed

end

sublocale weighted_selector \<subseteq> weighted: selector wpick "\<lambda>a. (- int (weight a), rank a)"
  by (rule wpick_selects)

text \<open>
  The order of \<open>bestPath\<close>: higher preference, then shorter path, then lower cost, then the
  older route. \<open>longest\<close> is the choice \<open>Lookup\<close> makes between two matching routes.
\<close>

definition path_rank :: "Route \<Rightarrow> int \<times> nat \<times> uint32 \<times> go_time" where
  "path_rank r = (- uint (r_LocalPref r), ASPath_Len (r_ASPath r), r_Cost r, r_Timestamp r)"

definition prefix_len :: "Route \<Rightarrow> nat" where
  "prefix_len r = mask_ones (ipn_Mask (r_Destination r))"

definition longest :: "Route \<Rightarrow> Route \<Rightarrow> Route" where
  "longest a b = (if prefix_len b > prefix_len a then b
     else if prefix_len b = prefix_len a then bestPath a b else a)"

definition lookup_rank :: "Route \<Rightarrow> int \<times> int \<times> nat \<times> uint32 \<times> go_time" where
  "lookup_rank r = (- int (prefix_len r), path_rank r)"

interpretation lookup: weighted_selector bestPath path_rank longest prefix_len
proof
  show "bestPath a b = a \<or> bestPath a b = b" for a b
    by (simp add: bestPath_def)
  show "path_rank (bestPath a b) = min (path_rank a) (path_rank b)" for a b
    by (auto simp: bestPath_def path_rank_def min_def less_eq_prod_def word_less_def word_le_def word_uint_eq_iff)
  show "longest a b = (if prefix_len a < prefix_len b then b
    else if prefix_len b = prefix_len a then bestPath a b else a)" for a b
    by (simp add: longest_def)
qed

lemmas longest_in = lookup.weighted.fold_pick_in
  and longest_least = lookup.weighted.fold_pick_least [folded lookup_rank_def]

subsection \<open>Looking up an address\<close>

definition matches :: "IP \<Rightarrow> Route \<Rightarrow> bool" where
  "matches ip r \<longleftrightarrow> IPNet_Contains (r_Destination r) ip \<and> prefix_len r > 0"

lemma lookup_fold_Some:
  "prefix_len b > 0 \<Longrightarrow> fold (lookup_step ip) rs (Some b, prefix_len b) =
     (let c = fold (\<lambda>r best. longest best r) (filter (matches ip) rs) b in (Some c, prefix_len c))"
proof (induction rs arbitrary: b)
  case (Cons r rs)
  have best: "prefix_len (bestPath b r) = prefix_len b" if "prefix_len r = prefix_len b"
    using that lookup.pick_in [of b r] by auto
  have "lookup_step ip r (Some b, prefix_len b) =
      (let c = if matches ip r then longest b r else b in (Some c, prefix_len c))"
    using Cons.prems
    by (auto simp: lookup_step_def longest_def matches_def prefix_len_def [symmetric] best)
  moreover have "prefix_len (longest b r) > 0"
    using Cons.prems best by (auto simp: longest_def)
  ultimately show ?case using Cons.IH [of "longest b r"] Cons.IH [of b] Cons.prems by (simp add: Let_def)
qed simp

lemma lookup_fold_None:
  "fst (fold (lookup_step ip) rs (None, 0)) = (case filter (matches ip) rs of
     [] \<Rightarrow> None | b # rs' \<Rightarrow> Some (fold (\<lambda>r best. longest best r) rs' b))"
proof (induction rs)
  case (Cons r rs)
  have "lookup_step ip r (None, 0) = (if matches ip r then (Some r, prefix_len r) else (None, 0))"
    by (auto simp: lookup_step_def matches_def prefix_len_def)
  moreover have "prefix_len r > 0" if "matches ip r" using that by (simp add: matches_def)
  ultimately show ?case using Cons by (auto simp: lookup_fold_Some Let_def)
qed simp

lemma Lookup_eq:
  "Lookup order rt ip = (case find (\<lambda>nw. IPNet_Contains nw ip) (rt_directNetworks rt) of
     Some nw \<Rightarrow> Some (direct_route nw)
   | None \<Rightarrow> (case filter (matches ip) (GetAllRoutes order rt) of
       [] \<Rightarrow> None | b # rs \<Rightarrow> Some (fold (\<lambda>r best. longest best r) rs b)))"
proof -
  have "fold (\<lambda>key acc. case rt_routes rt key of
      None \<Rightarrow> acc | Some routes \<Rightarrow> fold (lookup_step ip) routes acc) order acc =
    fold (lookup_step ip) (GetAllRoutes order rt) acc" for acc
    by (induction order arbitrary: acc) (auto simp: GetAllRoutes_def split: option.split)
  then show ?thesis by (simp add: Lookup_def lookup_fold_None split: option.split)
qed

text \<open>
  For an address on no attached network, \<open>Lookup\<close> returns a matching route of least rank.
\<close>

lemma Lookup_learned:
  assumes "range_order (rt_routes rt) order"
    and "\<forall>nw\<in>set (rt_directNetworks rt). \<not> IPNet_Contains nw ip"
  shows "Lookup order rt ip = None \<longleftrightarrow> (\<forall>r\<in>routes_of rt. \<not> matches ip r)"
    and "Lookup order rt ip = Some r \<Longrightarrow> r \<in> routes_of rt \<and> matches ip r \<and>
      (\<forall>r'\<in>routes_of rt. matches ip r' \<longrightarrow> lookup_rank r \<le> lookup_rank r')"
proof -
  have cand: "set (filter (matches ip) (GetAllRoutes order rt)) = {r \<in> routes_of rt. matches ip r}"
    using set_GetAllRoutes [OF assms(1)] by auto
  have Lookup: "Lookup order rt ip = (case filter (matches ip) (GetAllRoutes order rt) of
       [] \<Rightarrow> None | b # rs \<Rightarrow> Some (fold (\<lambda>r best. longest best r) rs b))"
    using assms(2) by (simp add: Lookup_eq find_None_iff [THEN iffD2])
  then show "Lookup order rt ip = None \<longleftrightarrow> (\<forall>r\<in>routes_of rt. \<not> matches ip r)"
    using cand by (cases "filter (matches ip) (GetAllRoutes order rt)") (auto simp del: set_filter)
  assume "Lookup order rt ip = Some r"
  then obtain b rs where f: "filter (matches ip) (GetAllRoutes order rt) = b # rs"
    and r: "r = fold (\<lambda>r best. longest best r) rs b"
    using Lookup by (auto split: list.splits)
  from cand f have ins: "insert b (set rs) = {r \<in> routes_of rt. matches ip r}" by simp
  have "r \<in> insert b (set rs)" unfolding r by (rule longest_in)
  moreover have "lookup_rank r \<le> lookup_rank r'" if "r' \<in> insert b (set rs)" for r'
    unfolding r using that by (rule longest_least)
  ultimately show "r \<in> routes_of rt \<and> matches ip r \<and>
      (\<forall>r'\<in>routes_of rt. matches ip r' \<longrightarrow> lookup_rank r \<le> lookup_rank r')"
    unfolding ins by simp
qed

subsection \<open>The interface of the table\<close>

text \<open>
  What a client of the table relies on, in terms of the set of routes: adding a route leaves the
  old routes, some with a new time stamp, and at most the new one besides; removals only remove;
  the invariant is kept. A property of routes that does not depend on the time stamp then holds
  of every route in the table when it holds of the routes that were added.
\<close>

locale route_store =
  fixes inv :: "'t \<Rightarrow> bool" and routes :: "'t \<Rightarrow> 'r set" and stamp :: "go_time \<Rightarrow> 'r \<Rightarrow> 'r"
    and add :: "go_time \<Rightarrow> go_time \<Rightarrow> 'r \<Rightarrow> 't \<Rightarrow> bool \<times> 't"
    and remove :: "'d \<Rightarrow> 'o \<Rightarrow> 't \<Rightarrow> 't" and purge :: "'k \<Rightarrow> 'o \<Rightarrow> 't \<Rightarrow> 't"
    and orders :: "'t \<Rightarrow> 'k \<Rightarrow> bool"
  assumes inv_add: "inv t \<Longrightarrow> inv (snd (add now now' r t))"
    and inv_remove: "inv t \<Longrightarrow> inv (remove d n t)"
    and inv_purge: "inv t \<Longrightarrow> orders t k \<Longrightarrow> inv (purge k n t)"
    and routes_add: "inv t \<Longrightarrow> routes (snd (add now now' r t)) \<subseteq>
      routes t \<union> stamp now' ` routes t \<union> {stamp now r}"
    and routes_remove: "inv t \<Longrightarrow> routes (remove d n t) \<subseteq> routes t"
    and routes_purge: "inv t \<Longrightarrow> orders t k \<Longrightarrow> routes (purge k n t) \<subseteq> routes t"
begin

lemma all_add:
  assumes "inv t" and "\<And>s r. Q (stamp s r) = Q r" and "Q r" and "\<forall>r\<in>routes t. Q r"
  shows "\<forall>r\<in>routes (snd (add now now' r t)). Q r"
  using routes_add [OF assms(1), of now now' r] assms(2-4) by blast

lemma all_remove: "inv t \<Longrightarrow> \<forall>r\<in>routes t. Q r \<Longrightarrow> \<forall>r\<in>routes (remove d n t). Q r"
  using routes_remove by blast

lemma all_purge: "inv t \<Longrightarrow> orders t k \<Longrightarrow> \<forall>r\<in>routes t. Q r \<Longrightarrow> \<forall>r\<in>routes (purge k n t). Q r"
  using routes_purge by blast

end

interpretation table: route_store wf_table routes_of "\<lambda>t r. r\<lparr>r_Timestamp := t\<rparr>" AddRoute RemoveRoute
    RemoveAllFromOrigin "\<lambda>rt order. range_order (rt_routes rt) order"
proof
  show "routes_of (snd (AddRoute now now' r rt)) \<subseteq>
      routes_of rt \<union> (\<lambda>r. r\<lparr>r_Timestamp := now'\<rparr>) ` routes_of rt \<union> {r\<lparr>r_Timestamp := now\<rparr>}"
    if "wf_table rt" for rt now now' r
  proof (cases "rt_selfID rt \<in> set (Hops (r_ASPath r))")
    case True
    then show ?thesis by (auto simp: AddRoute_def)
  next
    case False
    show ?thesis
      unfolding AddRoute_routes(1) [OF that False surjective_pairing] by (auto split: if_splits)
  qed
qed (simp_all add: wf_AddRoute RemoveRoute_wf RemoveAllFromOrigin_wf RemoveRoute_routes
      RemoveAllFromOrigin_routes Collect_mono_iff subset_eq)

subsection \<open>Properties\<close>

definition example_net :: "byte \<Rightarrow> nat \<Rightarrow> IPNet" where
  "example_net b n = \<lparr>ipn_IP = [10, b, 0, 0], ipn_Mask = CIDRMask n 32\<rparr>"

definition example_learned :: "byte \<Rightarrow> nat \<Rightarrow> nat \<Rightarrow> Route" where
  "example_learned b n hops =
     \<lparr>r_Destination = example_net b n, r_NextHop = replicate 16 2,
      r_ASPath = \<lparr>Hops = map (\<lambda>i. replicate 16 (of_nat (i + 2))) [0..<hops]\<rparr>,
      r_Cost = 2, r_Origin = replicate 16 (of_nat (hops + 1)), r_LocalPref = 100, r_Timestamp = 5\<rparr>"

definition example_table :: RoutingTable where
  "example_table = snd (AddRoute 8 8 (example_learned 1 16 3) (snd (AddRoute 7 7 (example_learned 1 16 2)
     (snd (AddRoute 6 6 (example_learned 1 8 2) (NewRoutingTable (replicate 16 1)))))))"


lemma wf_example_table: "wf_table example_table" "rt_selfID example_table = replicate 16 1"
  by (simp_all add: example_table_def wf_AddRoute wf_NewRoutingTable)


text \<open>
  C1: For an address outside the attached networks, in every iteration order of the map, Lookup
  fails exactly when no learnt route with a non-empty prefix contains the address, and otherwise
  returns such a route of the longest prefix and, among those, of the highest preference, then
  the shortest path, then the lowest cost, then the oldest.
\<close>

theorem Lookup_best_route:
  assumes "range_order (rt_routes rt) order"
    and "\<forall>nw\<in>set (rt_directNetworks rt). \<not> IPNet_Contains nw ip"
  shows "(Lookup order rt ip = None \<longleftrightarrow> (\<forall>r\<in>routes_of rt. \<not> matches ip r)) \<and>
    (\<forall>r. Lookup order rt ip = Some r \<longrightarrow> r \<in> routes_of rt \<and> matches ip r \<and>
      (\<forall>r'\<in>routes_of rt. matches ip r' \<longrightarrow> lookup_rank r \<le> lookup_rank r'))"
  using Lookup_learned [OF assms] by blast

definition example_keys :: "string list" where
  "example_keys = [''10.1.0.0/16'', ''10.1.0.0/8'']"

lemma example_table_routes:
  "rt_routes example_table = [''10.1.0.0/8'' \<mapsto> [(example_learned 1 8 2)\<lparr>r_Timestamp := 6\<rparr>],
     ''10.1.0.0/16'' \<mapsto> [(example_learned 1 16 2)\<lparr>r_Timestamp := 7\<rparr>, (example_learned 1 16 3)\<lparr>r_Timestamp := 8\<rparr>]]"
  "rt_directNetworks example_table = []"
proof -
  have keys: "IPNet_String (r_Destination (example_learned 1 16 3)) = ''10.1.0.0/16''"
    "IPNet_String (r_Destination (example_learned 1 16 2)) = ''10.1.0.0/16''"
    "IPNet_String (r_Destination (example_learned 1 8 2)) = ''10.1.0.0/8''"
    by code_simp+
  have hops: "replicate 16 1 \<notin> set (Hops (r_ASPath (example_learned 1 16 3)))"
    "replicate 16 1 \<notin> set (Hops (r_ASPath (example_learned 1 16 2)))"
    "replicate 16 1 \<notin> set (Hops (r_ASPath (example_learned 1 8 2)))"
    by code_simp+
  have src: "r_Origin (example_learned 1 16 2) \<noteq> r_Origin (example_learned 1 16 3)"
    by code_simp
  show "rt_routes example_table = [''10.1.0.0/8'' \<mapsto> [(example_learned 1 8 2)\<lparr>r_Timestamp := 6\<rparr>],
     ''10.1.0.0/16'' \<mapsto> [(example_learned 1 16 2)\<lparr>r_Timestamp := 7\<rparr>, (example_learned 1 16 3)\<lparr>r_Timestamp := 8\<rparr>]]"
    using src by (simp add: example_table_def AddRoute_def keys hops NewRoutingTable_def NodeID_Equal_def Let_def)
  show "rt_directNetworks example_table = []"
    by (simp add: example_table_def NewRoutingTable_def)
qed

lemma example_order: "range_order (rt_routes example_table) example_keys"
  by (auto simp: range_order_def example_table_routes example_keys_def)

theorem Lookup_best_route_witness:
  "Lookup example_keys example_table [10, 1, 2, 3] = Some ((example_learned 1 16 2)\<lparr>r_Timestamp := 7\<rparr>) \<and>
   lookup_rank ((example_learned 1 16 2)\<lparr>r_Timestamp := 7\<rparr>) \<le> lookup_rank ((example_learned 1 8 2)\<lparr>r_Timestamp := 6\<rparr>)"
proof -
  have found: "Lookup example_keys example_table [10, 1, 2, 3] = Some ((example_learned 1 16 2)\<lparr>r_Timestamp := 7\<rparr>)"
    by code_simp
  have "(example_learned 1 8 2)\<lparr>r_Timestamp := 6\<rparr> \<in> routes_of example_table"
    by (auto simp: routes_of_iff example_table_routes)
  moreover have "matches [10, 1, 2, 3] ((example_learned 1 8 2)\<lparr>r_Timestamp := 6\<rparr>)"
    by code_simp
  ultimately show ?thesis
    using Lookup_best_route [OF example_order, of "[10, 1, 2, 3]"] found
    by (simp add: example_table_routes(2))
qed

text \<open>
  What Lookup returns does not depend on the iteration order of the map, up to routes that
  agree in prefix length, preference, path length, cost and age: any two orders give routes of
  the same rank, or both fail.
\<close>

theorem Lookup_order_independent:
  assumes "range_order (rt_routes rt) order" and "range_order (rt_routes rt) order'"
  shows "map_option lookup_rank (Lookup order rt ip) = map_option lookup_rank (Lookup order' rt ip)"
proof (cases "\<forall>nw\<in>set (rt_directNetworks rt). \<not> IPNet_Contains nw ip")
  case True
  note l = Lookup_learned [OF assms(1) True] and l' = Lookup_learned [OF assms(2) True]
  show ?thesis
  proof (cases "Lookup order rt ip")
    case None
    with l(1) l'(1) show ?thesis by simp
  next
    case (Some r)
    with l(1) l'(1) obtain r' where r': "Lookup order' rt ip = Some r'" by fastforce
    from l(2) [OF Some] l'(2) [OF r'] have "lookup_rank r = lookup_rank r'"
      by (meson order.antisym)
    with Some r' show ?thesis by simp
  qed
next
  case False
  then have "find (\<lambda>nw. IPNet_Contains nw ip) (rt_directNetworks rt) \<noteq> None"
    by (auto simp: find_None_iff)
  then show ?thesis by (auto simp: Lookup_eq)
qed

theorem Lookup_order_independent_witness:
  "map_option lookup_rank (Lookup example_keys example_table [10, 1, 2, 3]) =
   map_option lookup_rank (Lookup (rev example_keys) example_table [10, 1, 2, 3])"
  by (rule Lookup_order_independent [OF example_order])
     (use example_order in \<open>simp add: range_order_def\<close>)

text \<open>
  A learnt route for the empty prefix (0.0.0.0/0 or ::/0) is never used: when the only
  learnt routes that contain an address outside the attached networks have prefix length zero,
  Lookup finds nothing, although those routes are in the table.
\<close>

theorem Lookup_ignores_default_route:
  assumes "range_order (rt_routes rt) order"
    and "\<forall>nw\<in>set (rt_directNetworks rt). \<not> IPNet_Contains nw ip"
    and "\<forall>r\<in>routes_of rt. IPNet_Contains (r_Destination r) ip \<longrightarrow> prefix_len r = 0"
  shows "Lookup order rt ip = None"
  using Lookup_learned(1) [OF assms(1,2)] assms(3) by (auto simp: matches_def)

definition example_default :: RoutingTable where
  "example_default = (NewRoutingTable (replicate 16 1))
     \<lparr>rt_routes := [''10.1.0.0/0'' \<mapsto> [example_learned 1 0 2]]\<rparr>"

theorem Lookup_ignores_default_route_witness:
  "IPNet_Contains (r_Destination (example_learned 1 0 2)) [192, 0, 2, 1] \<and>
   example_learned 1 0 2 \<in> routes_of example_default \<and>
   Lookup [''10.1.0.0/0''] example_default [192, 0, 2, 1] = None"
proof (intro conjI)
  have routes: "routes_of example_default = {example_learned 1 0 2}"
    by (auto simp: routes_of_iff example_default_def split: if_splits)
  show "example_learned 1 0 2 \<in> routes_of example_default" by (simp add: routes)
  show "IPNet_Contains (r_Destination (example_learned 1 0 2)) [192, 0, 2, 1]" by code_simp
  have "prefix_len (example_learned 1 0 2) = 0" by code_simp
  moreover have "range_order (rt_routes example_default) [''10.1.0.0/0'']"
    "rt_directNetworks example_default = []"
    by (simp_all add: range_order_def example_default_def NewRoutingTable_def)
  ultimately show "Lookup [''10.1.0.0/0''] example_default [192, 0, 2, 1] = None"
    by (intro Lookup_ignores_default_route) (simp_all add: routes)
qed

text \<open>
  A peer that went down leaves no trace in the table: after RemoveAllFromOrigin no route has
  it as origin or as next hop, all others are as before, and the table stays well formed, in
  every iteration order.
\<close>

theorem RemoveAllFromOrigin_complete:
  assumes "wf_table rt" and "range_order (rt_routes rt) order"
  shows "wf_table (RemoveAllFromOrigin order peer rt) \<and>
    routes_of (RemoveAllFromOrigin order peer rt) =
      {r \<in> routes_of rt. r_Origin r \<noteq> peer \<and> r_NextHop r \<noteq> peer}"
  using assms by (simp add: RemoveAllFromOrigin_wf RemoveAllFromOrigin_routes)

theorem RemoveAllFromOrigin_complete_witness:
  "routes_of (RemoveAllFromOrigin example_keys (replicate 16 2) example_table) = {} \<and>
   routes_of example_table \<noteq> {}"
proof
  have "(example_learned 1 8 2)\<lparr>r_Timestamp := 6\<rparr> \<in> routes_of example_table"
    by (auto simp: routes_of_iff example_table_routes)
  then show "routes_of example_table \<noteq> {}" by blast
  have "routes_of example_table \<subseteq> {r. r_NextHop r = replicate 16 2}"
    by (auto simp: routes_of_iff example_table_routes example_learned_def split: if_splits)
  with RemoveAllFromOrigin_complete [OF wf_example_table(1) example_order]
  show "routes_of (RemoveAllFromOrigin example_keys (replicate 16 2) example_table) = {}" by auto
qed

text \<open>
  GC removes exactly the routes that are at least ttl old, reports how many it removed, and
  keeps the table well formed, in every iteration order.
\<close>

theorem GC_expires:
  assumes "wf_table rt" and "range_order (rt_routes rt) order"
  shows "wf_table (snd (GC order now ttl rt)) \<and>
    routes_of (snd (GC order now ttl rt)) = {r \<in> routes_of rt. now - r_Timestamp r < ttl} \<and>
    fst (GC order now ttl rt) = card {r \<in> routes_of rt. ttl \<le> now - r_Timestamp r}"
proof -
  from assms(2) have "distinct order" by (simp add: range_order_def)
  moreover from this have "distinct (filter (\<lambda>r. ttl \<le> now - r_Timestamp r) (GetAllRoutes order rt))"
    using distinct_GetAllRoutes [OF assms(1)] by simp
  ultimately show ?thesis
    using assms set_GetAllRoutes [OF assms(2)] by (simp add: GC_eq sweep_table distinct_card [symmetric])
qed

theorem GC_expires_witness:
  "fst (GC example_keys 12 6 example_table) = card {r \<in> routes_of example_table. 6 \<le> 12 - r_Timestamp r} \<and>
   fst (GC example_keys 12 6 example_table) = 1"
proof
  show "fst (GC example_keys 12 6 example_table) = card {r \<in> routes_of example_table. 6 \<le> 12 - r_Timestamp r}"
    using GC_expires [OF wf_example_table(1) example_order] by blast
  show "fst (GC example_keys 12 6 example_table) = 1" by code_simp
qed

end
