(* ===== verification/Wire_Codec.thy ===== *)
theory Wire_Codec
  imports Identity
begin

text \<open>
  Package wire, what its messages share: the message types (wire/header.go), signing and
  verification (wire/sign.go), and the contract every encoder and decoder of the package keeps,
  as the locale \<open>codec\<close>. A decoder reads an encoded message from the front of its input and
  ignores what follows, because a message reaches it with its signature still appended when the
  sender's key is not yet known. The interpretations are in the theories of the messages.
\<close>

subsection \<open>Message types\<close>

definition MsgRouteUpdate :: byte where "MsgRouteUpdate = 0x01"
definition MsgRouteWithdraw :: byte where "MsgRouteWithdraw = 0x02"
definition MsgGossipPush :: byte where "MsgGossipPush = 0x03"
definition MsgGossipPull :: byte where "MsgGossipPull = 0x04"
definition MsgGossipAck :: byte where "MsgGossipAck = 0x05"
definition MsgPing :: byte where "MsgPing = 0x06"
definition MsgPong :: byte where "MsgPong = 0x07"
definition MsgTCPForward :: byte where "MsgTCPForward = 0x08"
definition MsgTCPClose :: byte where "MsgTCPClose = 0x09"
definition MsgUDPForward :: byte where "MsgUDPForward = 0x0A"
definition MsgUDPSessionCreate :: byte where "MsgUDPSessionCreate = 0x0B"
definition MsgUDPSessionClose :: byte where "MsgUDPSessionClose = 0x0C"

lemmas msg_types [simp] =
  MsgRouteUpdate_def MsgRouteWithdraw_def MsgGossipPush_def MsgGossipPull_def MsgGossipAck_def
  MsgPing_def MsgPong_def MsgTCPForward_def MsgTCPClose_def MsgUDPForward_def
  MsgUDPSessionCreate_def MsgUDPSessionClose_def

subsection \<open>Decoding errors\<close>

datatype wire_error =
    TooShort nat
  | UnexpectedType byte
  | UnknownFamily byte
  | TruncatedV4
  | TruncatedV6
  | PathTooLong nat
  | TruncatedPath nat
  | TruncatedPeer nat
  | TruncatedAddr nat
  | InvalidAddrLen nat
  | TruncatedTarget

subsection \<open>Signatures\<close>

text \<open>\<open>sign\<close> and \<open>verify\<close> stand for Ed25519; verification panics on a key that is not 32 bytes.\<close>

datatype sign_error = NoSignature | BadSignature

definition SignMessage :: "('k \<Rightarrow> bytes \<Rightarrow> bytes) \<Rightarrow> bytes \<Rightarrow> 'k \<Rightarrow> bytes" where
  "SignMessage sign msg priv = msg @ sign priv msg"

definition VerifyMessage ::
  "(bytes \<Rightarrow> bytes \<Rightarrow> bytes \<Rightarrow> bool) \<Rightarrow> bytes \<Rightarrow> bytes \<Rightarrow> (sign_error, bytes) outcome" where
  "VerifyMessage verify data pub =
     (if length data < 64 then Error NoSignature
      else (let msg = take (length data - 64) data; sig = drop (length data - 64) data
            in if length pub \<noteq> 32 then Panic
               else if \<not> verify pub msg sig then Error BadSignature
               else Return msg))"

subsection \<open>The contract of an encoder and its decoder\<close>

text \<open>
  \<open>wf\<close> is what the encoder can represent and \<open>norm\<close> the form in which the decoder rebuilds a
  message (an IPv4 address comes back in its sixteen-byte form).
\<close>

locale codec =
  fixes enc :: "'m \<Rightarrow> bytes"
    and dec :: "bytes \<Rightarrow> ('e, 'm) outcome"
    and wf :: "'m \<Rightarrow> bool"
    and norm :: "'m \<Rightarrow> 'm"
    and tag :: byte
  assumes dec_enc: "wf m \<Longrightarrow> dec (enc m @ rest) = Return (norm m)"
    and enc_tag: "wf m \<Longrightarrow> \<exists>body. enc m = tag # body"
    and dec_tag: "dec data = Return m \<Longrightarrow> \<exists>body. data = tag # body"
    and wf_norm: "wf m \<Longrightarrow> wf (norm m)"
    and enc_norm: "wf m \<Longrightarrow> enc (norm m) = enc m"
begin

lemma decodes_encoded: "wf m \<Longrightarrow> dec (enc m) = Return (norm m)"
  using dec_enc [of m "[]"] by simp

lemma norm_idem: "wf m \<Longrightarrow> norm (norm m) = norm m"
  by (metis decodes_encoded enc_norm outcome.inject(1) wf_norm)

text \<open>No encoded message is a prefix of another, so concatenated messages are unambiguous.\<close>

lemma prefix_free:
  assumes "wf m" and "wf m'" and "enc m @ rest = enc m' @ rest'"
  shows "norm m = norm m'"
  using dec_enc [OF assms(1), of rest] dec_enc [OF assms(2), of rest'] assms(3) by simp

lemma enc_injective: "wf m \<Longrightarrow> wf m' \<Longrightarrow> enc m = enc m' \<Longrightarrow> norm m = norm m'"
  using prefix_free [of m m' "[]" "[]"] by simp

text \<open>A signed message decodes as it stands, and after verification.\<close>

lemma decodes_signed: "wf m \<Longrightarrow> dec (SignMessage sign (enc m) priv) = Return (norm m)"
  by (simp add: SignMessage_def dec_enc)

lemma rejects_other_tag: "t \<noteq> tag \<Longrightarrow> dec (t # body) \<noteq> Return m"
  using dec_tag by blast

end

subsection \<open>Properties\<close>

lemma VerifyMessage_strips:
  "VerifyMessage verify data pub = Return msg \<Longrightarrow>
     data = msg @ drop (length msg) data \<and> length data = length msg + 64 \<and>
     verify pub msg (drop (length msg) data)"
  by (auto simp: VerifyMessage_def Let_def split: if_splits)

text \<open>What one node signs, a node that holds the matching public key accepts and strips back
  to the signed message; and a message is accepted only when its last 64 bytes are a valid
  signature of everything before them.\<close>

theorem Verify_SignMessage:
  assumes "length (sign priv msg) = 64" and "verify pub msg (sign priv msg)" and "length pub = 32"
  shows "VerifyMessage verify (SignMessage sign msg priv) pub = Return msg \<and>
    (\<forall>data msg'. VerifyMessage verify data pub = Return msg' \<longrightarrow>
       (\<exists>sig. data = msg' @ sig \<and> length sig = 64 \<and> verify pub msg' sig))"
proof (intro conjI allI impI)
  show "VerifyMessage verify (SignMessage sign msg priv) pub = Return msg"
    using assms by (simp add: VerifyMessage_def SignMessage_def)
next
  fix data msg'
  assume "VerifyMessage verify data pub = Return msg'"
  from VerifyMessage_strips [OF this]
  show "\<exists>sig. data = msg' @ sig \<and> length sig = 64 \<and> verify pub msg' sig"
    by (metis add_diff_cancel_left' length_drop)
qed

text \<open>A stand-in signature scheme: the signature repeats the key's first byte.\<close>

definition example_sign :: "bytes \<Rightarrow> bytes \<Rightarrow> bytes" where
  "example_sign priv msg = replicate 64 (hd priv)"

definition example_verify :: "bytes \<Rightarrow> bytes \<Rightarrow> bytes \<Rightarrow> bool" where
  "example_verify pub msg sig = (sig = replicate 64 (hd pub))"

theorem Verify_SignMessage_witness:
  "VerifyMessage example_verify (SignMessage example_sign [6] [5]) (replicate 32 5) = Return [6]"
  by (rule Verify_SignMessage [THEN conjunct1])
     (simp_all add: example_sign_def example_verify_def)

end
