(* ===== verification/Wire_Route.thy ===== *)
theory Wire_Route
  imports Wire_Codec
begin

text \<open>
  The route advertisement of wire/route.go. Shown: the buffer the encoder fills is the layout
  its comment describes, decoding gives back every message the encoder can represent (the
  interpretation \<open>route_codec\<close>), and the exact inputs on which the decoder panics.
\<close>

subsection \<open>Messages\<close>

record RouteMessage =
  rm_Flags :: byte
  rm_Prefix :: IPNet
  rm_Cost :: uint32
  rm_Origin :: bytes
  rm_LocalPref :: uint32
  rm_ASPath :: "bytes list"

definition RouteFlagUpdate :: byte where "RouteFlagUpdate = 0x00"
definition RouteFlagWithdraw :: byte where "RouteFlagWithdraw = 0x01"

subsection \<open>Encoder\<close>

definition EncodeRouteMessage :: "RouteMessage \<Rightarrow> bytes" where
  "EncodeRouteMessage msg =
     (let ones = mask_ones (ipn_Mask (rm_Prefix msg));
          isV4 = (To4 (ipn_IP (rm_Prefix msg)) \<noteq> []);
          addrLen = (if isV4 then 4 else 16);
          b = make_buf (1 + 1 + 1 + 1 + addrLen + 4 + 16 + 4 + 2 + length (rm_ASPath msg) * 16);
          b = put_byte MsgRouteUpdate b;
          b = put_byte (rm_Flags msg) b;
          b = put_byte (of_nat ones) b;
          b = (if isV4 then put_field 4 (To4 (ipn_IP (rm_Prefix msg))) (put_byte 4 b)
               else put_field 16 (To16 (ipn_IP (rm_Prefix msg))) (put_byte 6 b));
          b = put_u32 (rm_Cost msg) b;
          b = put_field 16 (rm_Origin msg) b;
          b = put_u32 (rm_LocalPref msg) b;
          b = put_u16 (of_nat (length (rm_ASPath msg))) b;
          b = fold (put_field 16) (rm_ASPath msg) b
      in fst b)"

subsection \<open>Decoder\<close>

text \<open>
  The addresses and identifiers are read with slice expressions, which Go bounds by the capacity
  of the slice and \<open>slice_of\<close> by its length. The difference cannot be seen here: every slice
  expression below is either guarded by a length check or followed by a read beyond it that the
  length bounds, so an input too short for the former panics in any case.
\<close>

definition decode_prefix ::
  "byte \<Rightarrow> byte \<Rightarrow> bytes \<Rightarrow> nat \<Rightarrow> (wire_error, nat \<times> IPNet) outcome" where
  "decode_prefix ones addrFamily data off =
     (if addrFamily = 4 then
        go_guard (off + 4 > length data) TruncatedV4
        (go_bind (index_at data off) (\<lambda>a. go_bind (index_at data (off + 1)) (\<lambda>b.
         go_bind (index_at data (off + 2)) (\<lambda>c. go_bind (index_at data (off + 3)) (\<lambda>d.
           Return (4, \<lparr>ipn_IP = IPv4 a b c d, ipn_Mask = CIDRMask (unat ones) 32\<rparr>))))))
      else if addrFamily = 6 then
        go_guard (off + 16 > length data) TruncatedV6
        (go_bind (slice_of data off (off + 16)) (\<lambda>ip.
           Return (16, \<lparr>ipn_IP = ip, ipn_Mask = CIDRMask (unat ones) 128\<rparr>)))
      else Error (UnknownFamily addrFamily))"

fun decode_hops :: "nat \<Rightarrow> nat \<Rightarrow> nat \<Rightarrow> bytes \<Rightarrow> (wire_error, bytes list) outcome" where
  "decode_hops i 0 off data = Return []"
| "decode_hops i (Suc n) off data =
     go_guard (off + 16 > length data) (TruncatedPath i)
     (go_bind (slice_of data off (off + 16)) (\<lambda>hop.
      go_bind (decode_hops (Suc i) n (off + 16) data) (\<lambda>hops. Return (hop # hops))))"

definition DecodeRouteMessage :: "bytes \<Rightarrow> (wire_error, RouteMessage) outcome" where
  "DecodeRouteMessage data =
     go_guard (length data < 1 + 1 + 1 + 1 + 4 + 4 + 16 + 4 + 2) (TooShort (length data))
     (go_bind (index_at data 0) (\<lambda>typ.
      go_guard (typ \<noteq> MsgRouteUpdate) (UnexpectedType typ)
      (go_bind (index_at data 1) (\<lambda>flags.
       go_bind (index_at data 2) (\<lambda>ones.
       go_bind (index_at data 3) (\<lambda>addrFamily.
       go_bind (decode_prefix ones addrFamily data 4) (\<lambda>(addrLen, prefix).
       let off = 4 + addrLen in
       go_bind (Uint32_at data off) (\<lambda>cost.
       go_bind (slice_of data (off + 4) (off + 20)) (\<lambda>origin.
       go_bind (Uint32_at data (off + 20)) (\<lambda>localPref.
       go_bind (Uint16_at data (off + 24)) (\<lambda>pathLen.
       let asPathLen = unat pathLen in
       go_guard (asPathLen > 32) (PathTooLong asPathLen)
       (go_bind (decode_hops 0 asPathLen (off + 26) data) (\<lambda>hops.
          Return \<lparr>rm_Flags = flags, rm_Prefix = prefix, rm_Cost = cost, rm_Origin = origin,
                  rm_LocalPref = localPref, rm_ASPath = hops\<rparr>)))))))))))))"

subsection \<open>Layout\<close>

text \<open>The messages the format can carry, and the bytes of one.\<close>

definition wf_RouteMessage :: "RouteMessage \<Rightarrow> bool" where
  "wf_RouteMessage msg \<longleftrightarrow>
     wf_IPNet (rm_Prefix msg) \<and> length (rm_Origin msg) = 16 \<and>
     length (rm_ASPath msg) \<le> 32 \<and> list_all (\<lambda>hop. length hop = 16) (rm_ASPath msg)"

definition canon_RouteMessage :: "RouteMessage \<Rightarrow> RouteMessage" where
  "canon_RouteMessage msg = msg\<lparr>rm_Prefix := canon_IPNet (rm_Prefix msg)\<rparr>"

definition prefix_layout :: "IPNet \<Rightarrow> bytes" where
  "prefix_layout n =
     (if To4 (ipn_IP n) \<noteq> [] then 4 # To4 (ipn_IP n) else 6 # ipn_IP n)"

definition route_layout :: "RouteMessage \<Rightarrow> bytes" where
  "route_layout msg =
     [MsgRouteUpdate, rm_Flags msg, of_nat (mask_ones (ipn_Mask (rm_Prefix msg)))] @
     prefix_layout (rm_Prefix msg) @ PutUint32 (rm_Cost msg) @ rm_Origin msg @
     PutUint32 (rm_LocalPref msg) @ PutUint16 (of_nat (length (rm_ASPath msg))) @
     concat (rm_ASPath msg)"

lemma EncodeRouteMessage_layout:
  assumes "wf_RouteMessage msg"
  shows "EncodeRouteMessage msg = route_layout msg"
proof -
  from assms have "wf_IPNet (rm_Prefix msg)" by (simp add: wf_RouteMessage_def)
  then show ?thesis
  proof (cases rule: wf_IPNet_cases)
    case (v4 k)
    from v4(1) have "length (To4 (ipn_IP (rm_Prefix msg))) = 4" by (rule length_To4)
    with assms v4(1) show ?thesis
      by (simp add: EncodeRouteMessage_def route_layout_def prefix_layout_def wf_RouteMessage_def
          list_all_iff go_write Let_def)
  next
    case (v6 k)
    then have "To16 (ipn_IP (rm_Prefix msg)) = ipn_IP (rm_Prefix msg)" by (simp add: To16_def)
    with assms v6(1,2) show ?thesis
      by (simp add: EncodeRouteMessage_def route_layout_def prefix_layout_def wf_RouteMessage_def
          list_all_iff go_write Let_def)
  qed
qed

subsection \<open>Round trip\<close>

lemma decode_hops_append:
  "length ys \<le> off \<Longrightarrow> decode_hops i n off (ys @ xs) = decode_hops i n (off - length ys) xs"
proof (induction i n off xs rule: decode_hops.induct)
  case (1 i off data)
  then show ?case by simp
next
  case (2 i n off data)
  from \<open>length ys \<le> off\<close> obtain m where off: "off = length ys + m"
    by (auto simp: le_iff_add)
  then have "decode_hops (Suc i) n (length ys + (m + 16)) (ys @ data) = decode_hops (Suc i) n (m + 16) data"
    using "2.IH" by (simp add: add.assoc)
  then show ?case by (simp add: off add.assoc go_guard_def slice_of_skip)
qed

lemma decode_hops_skip [go_read]:
  "0 < off \<Longrightarrow> decode_hops i n off (x # xs) = decode_hops i n (off - 1) xs"
  "length ys \<le> off \<Longrightarrow> decode_hops i n off (ys @ xs) = decode_hops i n (off - length ys) xs"
  using decode_hops_append [of "[x]" off i n xs] decode_hops_append by simp_all

lemma decode_hops_concat:
  "list_all (\<lambda>hop. length hop = 16) hops \<Longrightarrow>
     decode_hops i (length hops) 0 (concat hops @ rest) = Return hops"
proof (induction hops arbitrary: i)
  case Nil
  then show ?case by simp
next
  case (Cons hop hops)
  then show ?case by (simp add: go_read go_guard_def)
qed

lemma Decode_route_layout:
  assumes "wf_RouteMessage msg"
  shows "DecodeRouteMessage (route_layout msg @ rest) = Return (canon_RouteMessage msg)"
proof -
  from assms have "wf_IPNet (rm_Prefix msg)" and len: "length (rm_Origin msg) = 16"
    "length (rm_ASPath msg) \<le> 32" "list_all (\<lambda>hop. length hop = 16) (rm_ASPath msg)"
    by (simp_all add: wf_RouteMessage_def)
  from this(1) show ?thesis
  proof (cases rule: wf_IPNet_cases)
    case (v4 k)
    then obtain a b c d where addr: "To4 (ipn_IP (rm_Prefix msg)) = [a, b, c, d]"
      using length_To4 length4_conv by metis
    have "To16 [a, b, c, d] = IPv4 a b c d" by (simp add: To16_def)
    with v4 len addr show ?thesis
      by (simp add: DecodeRouteMessage_def route_layout_def prefix_layout_def decode_prefix_def
          go_read decode_hops_concat canon_RouteMessage_def canon_IPNet_def)
  next
    case (v6 k)
    with len show ?thesis
      by (simp add: DecodeRouteMessage_def route_layout_def prefix_layout_def decode_prefix_def
          go_read decode_hops_concat canon_RouteMessage_def canon_IPNet_def)
  qed
qed

lemma wf_canon_RouteMessage: "wf_RouteMessage msg \<Longrightarrow> wf_RouteMessage (canon_RouteMessage msg)"
  by (simp add: wf_RouteMessage_def canon_RouteMessage_def)

lemma prefix_layout_canon: "prefix_layout (canon_IPNet n) = prefix_layout n"
  by (simp add: prefix_layout_def) (simp add: canon_IPNet_def)

lemma route_layout_canon: "route_layout (canon_RouteMessage msg) = route_layout msg"
  by (simp add: route_layout_def canon_RouteMessage_def prefix_layout_canon)

interpretation route_codec:
  codec EncodeRouteMessage DecodeRouteMessage wf_RouteMessage canon_RouteMessage MsgRouteUpdate
proof unfold_locales
  show "DecodeRouteMessage (EncodeRouteMessage m @ rest) = Return (canon_RouteMessage m)"
    if "wf_RouteMessage m" for m rest
    using that by (simp add: EncodeRouteMessage_layout Decode_route_layout)
  show "\<exists>body. EncodeRouteMessage m = MsgRouteUpdate # body" if "wf_RouteMessage m" for m
    using that by (simp add: EncodeRouteMessage_layout route_layout_def)
  show "\<exists>body. data = MsgRouteUpdate # body" if "DecodeRouteMessage data = Return m" for data m
    using that
    by (cases data) (auto simp: DecodeRouteMessage_def go_guard_def go_read go_outcome split: if_splits)
  show "wf_RouteMessage (canon_RouteMessage m)" if "wf_RouteMessage m" for m
    using that by (rule wf_canon_RouteMessage)
  show "EncodeRouteMessage (canon_RouteMessage m) = EncodeRouteMessage m" if "wf_RouteMessage m" for m
    using that by (simp add: EncodeRouteMessage_layout wf_canon_RouteMessage route_layout_canon)
qed

subsection \<open>Inputs from the network\<close>

lemma decode_hops_no_panic: "decode_hops i n off data \<noteq> Panic"
  by (induction i n off data rule: decode_hops.induct)
     (auto simp: go_guard_def slice_of_def go_outcome)

lemma decode_hops_length:
  "decode_hops i n off data = Return hops \<Longrightarrow> length hops = n \<and> list_all (\<lambda>h. length h = 16) hops"
  by (induction i n off data arbitrary: hops rule: decode_hops.induct)
     (auto simp: go_guard_def slice_of_def go_outcome split: if_splits)

lemma decode_prefix_cases:
  assumes "20 \<le> length data"
  shows "decode_prefix ones fam data 4 =
    (if fam = 4 then Return (4, \<lparr>ipn_IP = IPv4 (data ! 4) (data ! 5) (data ! 6) (data ! 7),
       ipn_Mask = CIDRMask (unat ones) 32\<rparr>)
     else if fam = 6 then Return (16, \<lparr>ipn_IP = take 16 (drop 4 data), ipn_Mask = CIDRMask (unat ones) 128\<rparr>)
     else Error (UnknownFamily fam))"
  using assms by (simp add: decode_prefix_def go_guard_def index_at_Return slice_of_Return)

text \<open>Past the fixed part of the header, with the address family settled.\<close>

lemma DecodeRouteMessage_header:
  assumes "34 \<le> length data" and "data ! 0 = MsgRouteUpdate" and "data ! 3 = fam"
    and "fam = 4 \<and> n = 4 \<or> fam = 6 \<and> n = 16"
  shows "\<exists>prefix. decode_prefix (data ! 2) fam data 4 = Return (n, prefix) \<and>
    DecodeRouteMessage data =
      go_bind (Uint32_at data (4 + n)) (\<lambda>cost.
      go_bind (slice_of data (8 + n) (24 + n)) (\<lambda>origin.
      go_bind (Uint32_at data (24 + n)) (\<lambda>localPref.
      go_bind (Uint16_at data (28 + n)) (\<lambda>pathLen.
      go_guard (unat pathLen > 32) (PathTooLong (unat pathLen))
      (go_bind (decode_hops 0 (unat pathLen) (30 + n) data) (\<lambda>hops.
         Return \<lparr>rm_Flags = data ! 1, rm_Prefix = prefix, rm_Cost = cost, rm_Origin = origin,
                 rm_LocalPref = localPref, rm_ASPath = hops\<rparr>))))))"
proof -
  from assms obtain prefix where p: "decode_prefix (data ! 2) fam data 4 = Return (n, prefix)"
    by (auto simp: decode_prefix_cases)
  from assms(1) have "data \<noteq> []" by auto
  then show ?thesis
    using assms(1-3) p by (simp add: DecodeRouteMessage_def Let_def add.commute [of _ n] index_at_def)
qed

lemma DecodeRouteMessage_v4_no_panic:
  assumes "34 \<le> length data" and "data ! 0 = MsgRouteUpdate" and "data ! 3 = 4"
  shows "DecodeRouteMessage data \<noteq> Panic"
  using DecodeRouteMessage_header [OF assms(1,2), of 4 4] assms(1,3)
  by (auto simp: go_outcome go_guard_def Uint32_at_Return Uint16_at_Return slice_of_Return decode_hops_no_panic
      split: if_splits)

lemma DecodeRouteMessage_v6_panic:
  assumes "34 \<le> length data" and "data ! 0 = MsgRouteUpdate" and "data ! 3 = 6"
  shows "DecodeRouteMessage data = Panic \<longleftrightarrow> length data < 46"
proof (cases "length data < 46")
  case False
  with DecodeRouteMessage_header [OF assms(1,2), of 6 16] assms(3) show ?thesis
    by (auto simp: go_outcome go_guard_def Uint32_at_Return Uint16_at_Return slice_of_Return decode_hops_no_panic
        split: if_splits)
next
  case True
  then consider "length data < 40" | "40 \<le> length data" "length data < 44"
    | "44 \<le> length data" "length data < 46" by linarith
  then show ?thesis
    using True DecodeRouteMessage_header [OF assms(1,2), of 6 16] assms(1,3)
    by cases (auto simp: Uint32_at_Return Uint32_at_Panic Uint16_at_Panic slice_of_def)
qed

text \<open>What the decoder returns, by the family byte.\<close>

lemma DecodeRouteMessage_fields:
  "DecodeRouteMessage data = Return msg \<Longrightarrow>
     length (rm_Origin msg) = 16 \<and> length (rm_ASPath msg) \<le> 32 \<and>
     list_all (\<lambda>hop. length hop = 16) (rm_ASPath msg)"
  by (auto simp: DecodeRouteMessage_def go_guard_def go_outcome Let_def slice_of_def
      dest: decode_hops_length split: if_splits prod.splits)

lemma DecodeRouteMessage_prefix:
  assumes "DecodeRouteMessage data = Return msg"
  obtains (v4) "data ! 3 = 4" "length (ipn_IP (rm_Prefix msg)) = 16" "To4 (ipn_IP (rm_Prefix msg)) \<noteq> []"
      "ipn_Mask (rm_Prefix msg) = CIDRMask (unat (data ! 2)) 32"
    | (v6) "data ! 3 = 6" "length (ipn_IP (rm_Prefix msg)) = 16"
      "ipn_Mask (rm_Prefix msg) = CIDRMask (unat (data ! 2)) 128"
proof -
  have len: "34 \<le> length data"
    using assms by (auto simp: DecodeRouteMessage_def go_guard_def go_outcome index_at_def split: if_splits)
  have fam: "data ! 3 = 4 \<or> data ! 3 = 6"
    using assms len
    by (auto simp: DecodeRouteMessage_def go_guard_def go_outcome index_at_def decode_prefix_def split: if_splits)
  obtain n where dec: "decode_prefix (data ! 2) (data ! 3) data 4 = Return (n, rm_Prefix msg)"
    using assms len
    by (auto simp: DecodeRouteMessage_def go_guard_def go_outcome index_at_def Let_def split: if_splits)
  from fam show thesis
  proof
    assume fam4: "data ! 3 = 4"
    then have "rm_Prefix msg = \<lparr>ipn_IP = IPv4 (data ! 4) (data ! 5) (data ! 6) (data ! 7), ipn_Mask = CIDRMask (unat (data ! 2)) 32\<rparr>"
      using dec len by (simp add: decode_prefix_cases)
    then show thesis using fam4 by (intro v4) (simp_all add: IPv4_def To4_def isZeros_def nth_append list_all_iff)
  next
    assume fam6: "data ! 3 = 6"
    then have "rm_Prefix msg = \<lparr>ipn_IP = take 16 (drop 4 data), ipn_Mask = CIDRMask (unat (data ! 2)) 128\<rparr>"
      using dec len by (simp add: decode_prefix_cases)
    then show thesis using fam6 len by (intro v6) simp_all
  qed
qed

subsection \<open>Properties\<close>

text \<open>
  C25: What the decoder returns is typed as far as the format checks it: the origin and every hop are
  identifiers of sixteen bytes, the path has at most 32 of them, and the address has sixteen bytes.
  The message is one that the encoder carries over the wire exactly if the prefix length was within the
  bits of its address family and the address of an IPv6 prefix was not an IPv4 address in IPv6 form; in
  particular the decoder does not check the prefix length.
\<close>

theorem DecodeRouteMessage_typed:
  assumes "DecodeRouteMessage data = Return msg"
  shows "length (rm_Origin msg) = 16 \<and> length (rm_ASPath msg) \<le> 32 \<and> list_all (\<lambda>hop. length hop = 16) (rm_ASPath msg) \<and>
    length (ipn_IP (rm_Prefix msg)) = 16 \<and>
    (wf_RouteMessage msg \<longleftrightarrow>
       (if data ! 3 = 4 then data ! 2 \<le> 32 else data ! 2 \<le> 128 \<and> To4 (ipn_IP (rm_Prefix msg)) = []))"
proof -
  note fields = DecodeRouteMessage_fields [OF assms]
  have bits: "unat (data ! 2) \<le> 32 \<longleftrightarrow> data ! 2 \<le> 32" "unat (data ! 2) \<le> 128 \<longleftrightarrow> data ! 2 \<le> 128"
    by (simp_all add: word_le_nat_alt)
  from assms show ?thesis
  proof (cases rule: DecodeRouteMessage_prefix)
    case v4
    then have "wf_IPNet (rm_Prefix msg) \<longleftrightarrow> unat (data ! 2) \<le> 32" by (simp add: wf_IPNet_mask)
    with fields v4 bits show ?thesis by (simp add: wf_RouteMessage_def)
  next
    case v6
    then have "wf_IPNet (rm_Prefix msg) \<longleftrightarrow> unat (data ! 2) \<le> 128 \<and> To4 (ipn_IP (rm_Prefix msg)) = []"
      by (simp add: wf_IPNet_mask)
    with fields v6 bits show ?thesis by (simp add: wf_RouteMessage_def)
  qed
qed

theorem DecodeRouteMessage_typed_witness:
  "\<exists>msg. DecodeRouteMessage ([MsgRouteUpdate, 0, 33, 4] @ replicate 30 0) = Return msg \<and> \<not> wf_RouteMessage msg"
proof -
  let ?data = "[MsgRouteUpdate, 0, 33, 4] @ replicate 30 0 :: bytes"
  let ?msg = "\<lparr>rm_Flags = 0, rm_Prefix = \<lparr>ipn_IP = IPv4 0 0 0 0, ipn_Mask = []\<rparr>, rm_Cost = 0, rm_Origin = replicate 16 0,
    rm_LocalPref = 0, rm_ASPath = []\<rparr>"
  have dec: "DecodeRouteMessage ?data = Return ?msg" by code_simp
  from DecodeRouteMessage_typed [OF this] have "\<not> wf_RouteMessage ?msg" by simp
  with dec show ?thesis by blast
qed

text \<open>A prefix length beyond the address is passed on as zero.\<close>

lemma overlong_prefix_becomes_default:
  "\<exists>msg. DecodeRouteMessage ([MsgRouteUpdate, 0, 33, 4, 10] @ replicate 29 0) = Return msg \<and>
     take 5 (EncodeRouteMessage msg) = [MsgRouteUpdate, 0, 0, 4, 10]"
proof -
  let ?msg = "\<lparr>rm_Flags = 0, rm_Prefix = \<lparr>ipn_IP = IPv4 10 0 0 0, ipn_Mask = []\<rparr>, rm_Cost = 0, rm_Origin = replicate 16 0,
    rm_LocalPref = 0, rm_ASPath = []\<rparr>"
  have "DecodeRouteMessage ([MsgRouteUpdate, 0, 33, 4, 10] @ replicate 29 0) = Return ?msg"
    "take 5 (EncodeRouteMessage ?msg) = [MsgRouteUpdate, 0, 0, 4, 10]" by code_simp+
  then show ?thesis by blast
qed

text \<open>C24: Every route advertisement the format can carry survives the wire: the decoder gives back
  flags, cost, origin, local preference and AS path unchanged and a prefix with the same text form
  (the key of the routing table), the same mask and the same members, whatever follows the message
  (such as a signature).\<close>

theorem RouteMessage_roundtrip:
  assumes "wf_RouteMessage msg"
  shows "\<exists>prefix. DecodeRouteMessage (EncodeRouteMessage msg @ trailing) = Return (msg\<lparr>rm_Prefix := prefix\<rparr>) \<and>
    IPNet_String prefix = IPNet_String (rm_Prefix msg) \<and> ipn_Mask prefix = ipn_Mask (rm_Prefix msg) \<and>
    (\<forall>ip. IPNet_Contains prefix ip = IPNet_Contains (rm_Prefix msg) ip)"
  using route_codec.dec_enc [OF assms, of trailing]
  by (intro exI [of _ "canon_IPNet (rm_Prefix msg)"]) (simp add: canon_RouteMessage_def)

definition example_route_message :: RouteMessage where
  "example_route_message =
     \<lparr>rm_Flags = RouteFlagUpdate, rm_Prefix = \<lparr>ipn_IP = [10, 1, 0, 0], ipn_Mask = CIDRMask 16 32\<rparr>,
      rm_Cost = 3, rm_Origin = replicate 16 1, rm_LocalPref = 100, rm_ASPath = [replicate 16 2]\<rparr>"

lemma wf_example_route_message: "wf_RouteMessage example_route_message"
  by code_simp

theorem RouteMessage_roundtrip_witness:
  "\<exists>prefix. DecodeRouteMessage (EncodeRouteMessage example_route_message @ replicate 64 9)
     = Return (example_route_message\<lparr>rm_Prefix := prefix\<rparr>)"
  using RouteMessage_roundtrip [OF wf_example_route_message, of "replicate 64 9"] by blast

text \<open>C32: The decoder of route advertisements stops the process on exactly these inputs: a route
  message with the IPv6 address family that is at least as long as the shortest IPv4 message (34
  bytes) and shorter than the fixed part of an IPv6 message (46 bytes). On every other input it
  returns a message or an error.\<close>

theorem DecodeRouteMessage_Panic_iff:
  "DecodeRouteMessage data = Panic \<longleftrightarrow>
     34 \<le> length data \<and> length data < 46 \<and> data ! 0 = MsgRouteUpdate \<and> data ! 3 = 6"
proof (cases "34 \<le> length data \<and> data ! 0 = MsgRouteUpdate")
  case True
  then consider "data ! 3 = 4" | "data ! 3 = 6" | "data ! 3 \<noteq> 4" "data ! 3 \<noteq> 6" by blast
  then show ?thesis
  proof cases
    case 1
    with True show ?thesis by (simp add: DecodeRouteMessage_v4_no_panic)
  next
    case 2
    with True show ?thesis by (simp add: DecodeRouteMessage_v6_panic)
  next
    case 3
    with True show ?thesis
      by (auto simp: DecodeRouteMessage_def go_guard_def decode_prefix_def index_at_def)
  qed
next
  case False
  then show ?thesis by (auto simp: DecodeRouteMessage_def go_guard_def index_at_def)
qed

end
