(* ===== verification/Route_Propagation.thy ===== *)
theory Route_Propagation
  imports Route_Table Wire_Route
begin

text \<open>
  Route advertisement and withdrawal, route/propagation.go. The propagator keeps the routing
  table and three callbacks, which may be unset; what it sends is the list of calls it makes to
  them (\<open>Send\<close>, \<open>Broadcast\<close>), in order. A failing send is only logged by the code, so the
  result of a callback does not matter. The peers the callback \<open>getPeersFunc\<close> returns, the
  iteration orders and the clock are arguments.

  Shown: the table invariant survives every message, even malformed ones; a received route is
  stored and passed on with this node at the head of the path and never back to its sender;
  routes that passed this node are dropped; a withdrawal is passed on unconditionally.
\<close>

subsection \<open>State\<close>

datatype action = Send NodeID bytes | Broadcast bytes

record Propagator =
  p_table :: RoutingTable
  p_selfID :: NodeID
  p_sendFunc :: bool
  p_broadcastFunc :: bool
  p_getPeersFunc :: bool
  p_interval :: duration

definition NewPropagator :: "RoutingTable \<Rightarrow> NodeID \<Rightarrow> duration \<Rightarrow> Propagator" where
  "NewPropagator table selfID interval =
     \<lparr>p_table = table, p_selfID = selfID, p_sendFunc = False, p_broadcastFunc = False,
      p_getPeersFunc = False, p_interval = interval\<rparr>"

definition SetSender :: "bool \<Rightarrow> Propagator \<Rightarrow> Propagator" where
  "SetSender fn p = p\<lparr>p_sendFunc := fn\<rparr>"

definition SetBroadcaster :: "bool \<Rightarrow> Propagator \<Rightarrow> Propagator" where
  "SetBroadcaster fn p = p\<lparr>p_broadcastFunc := fn\<rparr>"

definition SetPeersFunc :: "bool \<Rightarrow> Propagator \<Rightarrow> Propagator" where
  "SetPeersFunc fn p = p\<lparr>p_getPeersFunc := fn\<rparr>"

subsection \<open>Messages\<close>

definition toWireID :: "NodeID \<Rightarrow> bytes" where
  "toWireID nid = copy_array 16 nid"

definition ToNodeID :: "bytes \<Rightarrow> NodeID" where
  "ToNodeID w = copy_array 16 w"

definition encodeRoute :: "Route \<Rightarrow> bytes" where
  "encodeRoute r = EncodeRouteMessage
     \<lparr>rm_Flags = RouteFlagUpdate, rm_Prefix = r_Destination r, rm_Cost = r_Cost r,
      rm_Origin = toWireID (r_Origin r), rm_LocalPref = r_LocalPref r, rm_ASPath = ToWire (r_ASPath r)\<rparr>"

definition encodeRouteWithSelf :: "NodeID \<Rightarrow> Route \<Rightarrow> bytes" where
  "encodeRouteWithSelf selfID r =
     (let pathWithSelf = CloneWithHop (r_ASPath r) selfID
      in EncodeRouteMessage
        \<lparr>rm_Flags = RouteFlagUpdate, rm_Prefix = r_Destination r, rm_Cost = r_Cost r,
         rm_Origin = toWireID (r_Origin r), rm_LocalPref = r_LocalPref r, rm_ASPath = ToWire pathWithSelf\<rparr>)"

definition encodeWithdrawal :: "Route \<Rightarrow> bytes" where
  "encodeWithdrawal r = EncodeRouteMessage
     \<lparr>rm_Flags = RouteFlagWithdraw, rm_Prefix = r_Destination r, rm_Cost = r_Cost r,
      rm_Origin = toWireID (r_Origin r), rm_LocalPref = r_LocalPref r, rm_ASPath = ToWire (r_ASPath r)\<rparr>"

subsection \<open>Handlers\<close>

definition propagateExcept :: "NodeID list \<Rightarrow> bytes \<Rightarrow> NodeID \<Rightarrow> Propagator \<Rightarrow> action list" where
  "propagateExcept peers msg except p =
     (if \<not> p_getPeersFunc p \<or> \<not> p_sendFunc p then []
      else map (\<lambda>peerID. Send peerID msg) (filter (\<lambda>peerID. \<not> NodeID_Equal peerID except) peers))"

definition broadcast :: "bytes \<Rightarrow> Propagator \<Rightarrow> action list" where
  "broadcast msg p = (if p_broadcastFunc p then [Broadcast msg] else [])"

definition HandleRouteUpdate ::
  "NodeID list \<Rightarrow> go_time \<Rightarrow> go_time \<Rightarrow> NodeID \<Rightarrow> bytes \<Rightarrow> Propagator \<Rightarrow>
   (unit, Propagator \<times> action list) outcome" where
  "HandleRouteUpdate peers now now' fromPeer data p =
     (case DecodeRouteMessage data of
        Panic \<Rightarrow> Panic
      | Error e \<Rightarrow> Return (p, [])
      | Return msg \<Rightarrow>
          (let origin = copy_array 16 (rm_Origin msg)
           in if rm_Flags msg AND RouteFlagWithdraw \<noteq> 0 then
                (let p' = p\<lparr>p_table := RemoveRoute (rm_Prefix msg) origin (p_table p)\<rparr>
                 in Return (p', propagateExcept peers data fromPeer p'))
              else (let asPath = ASPathFromWire (rm_ASPath msg)
                in if ASPath_Contains asPath (p_selfID p) then Return (p, [])
                   else if ASPath_Len asPath \<ge> 32 then Return (p, [])
                   else (let route = \<lparr>r_Destination = rm_Prefix msg, r_NextHop = fromPeer,
                                r_ASPath = asPath, r_Cost = rm_Cost msg + 1, r_Origin = origin,
                                r_LocalPref = rm_LocalPref msg, r_Timestamp = 0\<rparr>;
                             (changed, table') = AddRoute now now' route (p_table p);
                             p' = p\<lparr>p_table := table'\<rparr>
                         in if changed then
                              Return (p', propagateExcept peers (encodeRouteWithSelf (p_selfID p) route) fromPeer p')
                            else Return (p', [])))))"

definition own_route :: "NodeID \<Rightarrow> IPNet \<Rightarrow> Route" where
  "own_route selfID nw =
     \<lparr>r_Destination = nw, r_NextHop = selfID, r_ASPath = \<lparr>Hops = []\<rparr>, r_Cost = 1, r_Origin = selfID,
      r_LocalPref = 100, r_Timestamp = 0\<rparr>"

text \<open>The clock is read at most twice for every network, at the even and odd positions of \<open>clk\<close>.\<close>

fun advertise_nets :: "(nat \<Rightarrow> go_time) \<Rightarrow> nat \<Rightarrow> IPNet list \<Rightarrow> Propagator \<Rightarrow> Propagator \<times> action list" where
  "advertise_nets clk i [] p = (p, [])"
| "advertise_nets clk i (nw # nets) p =
     (let route = own_route (p_selfID p) nw;
          (_, table') = AddRoute (clk (2 * i)) (clk (2 * i + 1)) route (p_table p);
          p' = p\<lparr>p_table := table'\<rparr>;
          (p'', acts) = advertise_nets clk (i + 1) nets p'
      in (p'', broadcast (encodeRouteWithSelf (p_selfID p) route) p' @ acts))"

definition AdvertiseDirectNetworks :: "(nat \<Rightarrow> go_time) \<Rightarrow> Propagator \<Rightarrow> Propagator \<times> action list" where
  "AdvertiseDirectNetworks clk p = advertise_nets clk 0 (GetDirectNetworks (p_table p)) p"

definition WithdrawAllFromPeer ::
  "string list \<Rightarrow> string list \<Rightarrow> NodeID \<Rightarrow> Propagator \<Rightarrow> Propagator \<times> action list" where
  "WithdrawAllFromPeer order order' peerID p =
     (let routes = GetAllRoutes order (p_table p);
          p' = p\<lparr>p_table := RemoveAllFromOrigin order' peerID (p_table p)\<rparr>
      in (p', concat (map (\<lambda>r. if NodeID_Equal (r_NextHop r) peerID \<or> NodeID_Equal (r_Origin r) peerID
                  then broadcast (encodeWithdrawal r) p' else []) routes)))"

text \<open>One tick of the advertisement loop; \<open>order\<close> is the iteration order of the second half.\<close>

definition advertise_tick :: "(nat \<Rightarrow> go_time) \<Rightarrow> string list \<Rightarrow> Propagator \<Rightarrow> Propagator \<times> action list" where
  "advertise_tick clk order p =
     (let (p', acts) = AdvertiseDirectNetworks clk p;
          routes = GetAllRoutes order (p_table p')
      in (p', acts @ concat (map (\<lambda>r. broadcast (encodeRouteWithSelf (p_selfID p') r) p') routes)))"

subsection \<open>Messages on the wire\<close>

text \<open>The routes a table can hold: identifiers of sixteen bytes, a path with room for this node.\<close>

definition wf_Route :: "Route \<Rightarrow> bool" where
  "wf_Route r \<longleftrightarrow> length (r_Origin r) = 16 \<and> length (r_NextHop r) = 16 \<and>
     wf_ASPath (r_ASPath r) \<and> ASPath_Len (r_ASPath r) \<le> 31"

lemma wf_Route_stamp [simp]: "wf_Route (r\<lparr>r_Timestamp := t\<rparr>) = wf_Route r"
  by (simp add: wf_Route_def)

text \<open>The content of an advertisement, and what the decoder makes of it.\<close>

definition advert :: "NodeID \<Rightarrow> Route \<Rightarrow> RouteMessage" where
  "advert selfID r =
     \<lparr>rm_Flags = RouteFlagUpdate, rm_Prefix = r_Destination r, rm_Cost = r_Cost r,
      rm_Origin = r_Origin r, rm_LocalPref = r_LocalPref r, rm_ASPath = selfID # Hops (r_ASPath r)\<rparr>"

definition withdrawal :: "Route \<Rightarrow> RouteMessage" where
  "withdrawal r =
     \<lparr>rm_Flags = RouteFlagWithdraw, rm_Prefix = r_Destination r, rm_Cost = r_Cost r,
      rm_Origin = r_Origin r, rm_LocalPref = r_LocalPref r, rm_ASPath = Hops (r_ASPath r)\<rparr>"

lemma encodeRouteWithSelf_advert:
  "wf_Route r \<Longrightarrow> length selfID = 16 \<Longrightarrow> encodeRouteWithSelf selfID r = EncodeRouteMessage (advert selfID r)"
  by (simp add: encodeRouteWithSelf_def advert_def toWireID_def wf_Route_def wf_ASPath_def
      ToWire_wf Let_def)

lemma encodeWithdrawal_withdrawal:
  "wf_Route r \<Longrightarrow> encodeWithdrawal r = EncodeRouteMessage (withdrawal r)"
  by (simp add: encodeWithdrawal_def withdrawal_def toWireID_def wf_Route_def ToWire_wf)

lemma wf_advert:
  "wf_Route r \<Longrightarrow> wf_IPNet (r_Destination r) \<Longrightarrow> length selfID = 16 \<Longrightarrow> wf_RouteMessage (advert selfID r)"
  by (simp add: wf_RouteMessage_def advert_def wf_Route_def wf_ASPath_def ASPath_Len_def)

lemma wf_withdrawal:
  "wf_Route r \<Longrightarrow> wf_IPNet (r_Destination r) \<Longrightarrow> wf_RouteMessage (withdrawal r)"
  by (simp add: wf_RouteMessage_def withdrawal_def wf_Route_def wf_ASPath_def ASPath_Len_def)

lemma decode_advert:
  "wf_Route r \<Longrightarrow> wf_IPNet (r_Destination r) \<Longrightarrow> length selfID = 16 \<Longrightarrow>
     DecodeRouteMessage (encodeRouteWithSelf selfID r) =
       Return ((advert selfID r)\<lparr>rm_Prefix := canon_IPNet (r_Destination r)\<rparr>)"
  using route_codec.decodes_encoded [OF wf_advert, of r selfID]
  by (simp add: encodeRouteWithSelf_advert canon_RouteMessage_def) (simp add: advert_def)

lemma decode_withdrawal:
  "wf_Route r \<Longrightarrow> wf_IPNet (r_Destination r) \<Longrightarrow>
     DecodeRouteMessage (encodeWithdrawal r) =
       Return ((withdrawal r)\<lparr>rm_Prefix := canon_IPNet (r_Destination r)\<rparr>)"
  using route_codec.decodes_encoded [OF wf_withdrawal, of r]
  by (simp add: encodeWithdrawal_withdrawal canon_RouteMessage_def) (simp add: withdrawal_def)

lemma flags_withdraw [simp]:
  "RouteFlagUpdate AND RouteFlagWithdraw = 0" "RouteFlagWithdraw \<noteq> 0"
  by (simp_all add: RouteFlagUpdate_def RouteFlagWithdraw_def)

subsection \<open>What the handler does\<close>

text \<open>The route an update carries.\<close>

definition learnt :: "NodeID \<Rightarrow> RouteMessage \<Rightarrow> Route" where
  "learnt fromPeer msg =
     \<lparr>r_Destination = rm_Prefix msg, r_NextHop = fromPeer, r_ASPath = \<lparr>Hops = rm_ASPath msg\<rparr>,
      r_Cost = rm_Cost msg + 1, r_Origin = rm_Origin msg, r_LocalPref = rm_LocalPref msg, r_Timestamp = 0\<rparr>"

lemma HandleRouteUpdate_cases:
  obtains (panic) "DecodeRouteMessage data = Panic" "HandleRouteUpdate peers now now' from data p = Panic"
  | (malformed) e where "DecodeRouteMessage data = Error e"
      "HandleRouteUpdate peers now now' from data p = Return (p, [])"
  | (withdraw) msg where "DecodeRouteMessage data = Return msg" "rm_Flags msg AND RouteFlagWithdraw \<noteq> 0"
      "HandleRouteUpdate peers now now' from data p =
         Return (p\<lparr>p_table := RemoveRoute (rm_Prefix msg) (rm_Origin msg) (p_table p)\<rparr>,
                 propagateExcept peers data from p)"
  | (dropped) msg where "DecodeRouteMessage data = Return msg" "rm_Flags msg AND RouteFlagWithdraw = 0"
      "p_selfID p \<in> set (rm_ASPath msg) \<or> length (rm_ASPath msg) \<ge> 32"
      "HandleRouteUpdate peers now now' from data p = Return (p, [])"
  | (stored) msg changed table' where "DecodeRouteMessage data = Return msg"
      "rm_Flags msg AND RouteFlagWithdraw = 0"
      "p_selfID p \<notin> set (rm_ASPath msg)" "length (rm_ASPath msg) < 32"
      "AddRoute now now' (learnt from msg) (p_table p) = (changed, table')"
      "HandleRouteUpdate peers now now' from data p =
         Return (p\<lparr>p_table := table'\<rparr>, if changed then propagateExcept peers
           (encodeRouteWithSelf (p_selfID p) (learnt from msg)) from p else [])"
proof (cases "DecodeRouteMessage data")
  case (Return msg)
  note wf = DecodeRouteMessage_fields [OF Return]
  then have msg: "copy_array 16 (rm_Origin msg) = rm_Origin msg"
    "ASPathFromWire (rm_ASPath msg) = \<lparr>Hops = rm_ASPath msg\<rparr>"
    by (simp_all add: ASPathFromWire_hops)
  have pe: "propagateExcept peers d from (p\<lparr>p_table := t\<rparr>) = propagateExcept peers d from p" for d t
    by (simp add: propagateExcept_def)
  obtain changed table' where add: "AddRoute now now' (learnt from msg) (p_table p) = (changed, table')"
    by (cases "AddRoute now now' (learnt from msg) (p_table p)")
  consider "rm_Flags msg AND RouteFlagWithdraw \<noteq> 0"
    | "rm_Flags msg AND RouteFlagWithdraw = 0" "p_selfID p \<in> set (rm_ASPath msg) \<or> length (rm_ASPath msg) \<ge> 32"
    | "rm_Flags msg AND RouteFlagWithdraw = 0" "p_selfID p \<notin> set (rm_ASPath msg)" "length (rm_ASPath msg) < 32"
    by linarith
  then show thesis
  proof cases
    case 1
    with Return msg show thesis by (intro withdraw) (simp_all add: HandleRouteUpdate_def Let_def pe)
  next
    case 2
    with Return msg show thesis
      by (intro dropped) (auto simp add: HandleRouteUpdate_def Let_def ASPath_Len_def)
  next
    case 3
    with Return msg add show thesis
      by (intro stored [of msg changed table'])
         (auto simp: HandleRouteUpdate_def Let_def ASPath_Len_def pe learnt_def)
  qed
qed (use panic malformed in \<open>simp_all add: HandleRouteUpdate_def\<close>)

subsection \<open>Invariant\<close>

definition wf_Propagator :: "Propagator \<Rightarrow> bool" where
  "wf_Propagator p \<longleftrightarrow> wf_table (p_table p) \<and> rt_selfID (p_table p) = p_selfID p \<and>
     length (p_selfID p) = 16 \<and> (\<forall>r\<in>routes_of (p_table p). wf_Route r)"

lemma wf_Propagator_table:
  "wf_Propagator p \<Longrightarrow> wf_table (p_table p)" "wf_Propagator p \<Longrightarrow> length (p_selfID p) = 16"
  "wf_Propagator p \<Longrightarrow> rt_selfID (p_table p) = p_selfID p"
  "wf_Propagator p \<Longrightarrow> r \<in> routes_of (p_table p) \<Longrightarrow> wf_Route r"
  by (simp_all add: wf_Propagator_def)

lemma wf_learnt:
  "DecodeRouteMessage data = Return msg \<Longrightarrow> length from = 16 \<Longrightarrow> length (rm_ASPath msg) < 32 \<Longrightarrow>
     wf_Route (learnt from msg)"
  using DecodeRouteMessage_fields [of data msg]
  by (simp add: wf_Route_def learnt_def wf_ASPath_def ASPath_Len_def)

lemma wf_own_route: "length self = 16 \<Longrightarrow> wf_Route (own_route self nw)"
  by (simp add: wf_Route_def own_route_def wf_ASPath_def ASPath_Len_def)

lemma wf_Propagator_add:
  assumes "wf_Propagator p" and "wf_Route r"
  shows "wf_Propagator (p\<lparr>p_table := snd (AddRoute now now' r (p_table p))\<rparr>)"
proof -
  have "\<forall>er\<in>routes_of (snd (AddRoute now now' r (p_table p))). wf_Route er"
    by (rule table.all_add [OF _ wf_Route_stamp assms(2)]) (use assms(1) in \<open>simp_all add: wf_Propagator_def\<close>)
  with assms(1) show ?thesis by (simp add: wf_Propagator_def wf_AddRoute)
qed

lemma wf_Propagator_remove:
  "wf_Propagator p \<Longrightarrow> wf_Propagator (p\<lparr>p_table := RemoveRoute dest origin (p_table p)\<rparr>)"
  using table.all_remove [of "p_table p" wf_Route dest origin]
  by (simp add: wf_Propagator_def RemoveRoute_wf)

lemma wf_Propagator_purge:
  "wf_Propagator p \<Longrightarrow> range_order (rt_routes (p_table p)) order \<Longrightarrow>
     wf_Propagator (p\<lparr>p_table := RemoveAllFromOrigin order peer (p_table p)\<rparr>)"
  using table.all_purge [of "p_table p" order wf_Route peer]
  by (simp add: wf_Propagator_def RemoveAllFromOrigin_wf)

lemma wf_HandleRouteUpdate:
  assumes "wf_Propagator p" and "length from = 16"
    and "HandleRouteUpdate peers now now' from data p = Return (p', acts)"
  shows "wf_Propagator p'"
proof (cases rule: HandleRouteUpdate_cases [of data peers now now' "from" p])
  case (withdraw msg)
  with assms show ?thesis by (auto intro: wf_Propagator_remove)
next
  case (stored msg changed table')
  with assms wf_Propagator_add [OF assms(1) wf_learnt, of data msg "from" now now'] show ?thesis by simp
qed (use assms in auto)

lemma advertise_nets_wf:
  "wf_Propagator p \<Longrightarrow> wf_Propagator (fst (advertise_nets clk i nets p))"
proof (induction nets arbitrary: i p)
  case (Cons nw nets)
  let ?p = "p\<lparr>p_table := snd (AddRoute (clk (2 * i)) (clk (2 * i + 1)) (own_route (p_selfID p) nw) (p_table p))\<rparr>"
  have "wf_Propagator ?p"
    using Cons.prems by (intro wf_Propagator_add wf_own_route) (simp_all add: wf_Propagator_def)
  from Cons.IH [OF this, of "i + 1"] show ?case by (simp add: Let_def case_prod_beta)
qed simp

text \<open>Every network gets its advertisement, whatever the table already holds.\<close>

lemma advertise_nets_acts:
  "snd (advertise_nets clk i nets p) =
     concat (map (\<lambda>nw. broadcast (encodeRouteWithSelf (p_selfID p) (own_route (p_selfID p) nw)) p) nets)"
  by (induction nets arbitrary: i p) (simp_all add: Let_def broadcast_def case_prod_beta cong: if_cong)

lemma advertise_nets_fields [simp]:
  "p_selfID (fst (advertise_nets clk i nets p)) = p_selfID p"
  "p_broadcastFunc (fst (advertise_nets clk i nets p)) = p_broadcastFunc p"
  by (induction nets arbitrary: i p) (simp_all add: Let_def case_prod_beta)

subsection \<open>Properties\<close>

text \<open>
  C21: No message from a peer can break the propagator: whatever the bytes, HandleRouteUpdate
  panics only where the decoder does, and otherwise keeps the table well formed, with paths of
  at most 31 identifiers so that the re-advertised path fits the limit of 32, and sends nothing
  back to the peer the message came from.
\<close>

theorem HandleRouteUpdate_safe:
  assumes "wf_Propagator p" and "length from = 16" and "DecodeRouteMessage data \<noteq> Panic"
  shows "\<exists>p' acts. HandleRouteUpdate peers now now' from data p = Return (p', acts) \<and>
    wf_Propagator p' \<and> (\<forall>msg. Send from msg \<notin> set acts)"
proof -
  have "Send from m \<notin> set (propagateExcept peers msg from p)" for m msg
    by (auto simp: propagateExcept_def NodeID_Equal_def)
  with assms(3) have "\<exists>p' acts. HandleRouteUpdate peers now now' from data p = Return (p', acts) \<and>
      (\<forall>msg. Send from msg \<notin> set acts)"
    by (cases rule: HandleRouteUpdate_cases [of data peers now now' "from" p]) auto
  with wf_HandleRouteUpdate [OF assms(1,2)] show ?thesis by blast
qed

definition example_node :: Propagator where
  "example_node = SetPeersFunc True (SetBroadcaster True (SetSender True
     (NewPropagator (NewRoutingTable (replicate 16 1)) (replicate 16 1) 30)))"

lemma wf_example_node: "wf_Propagator example_node"
  by (simp add: wf_Propagator_def example_node_def SetPeersFunc_def SetBroadcaster_def SetSender_def
      NewPropagator_def wf_NewRoutingTable)

theorem HandleRouteUpdate_safe_witness:
  "\<exists>p' acts. HandleRouteUpdate [replicate 16 2] 1 1 (replicate 16 2) [1, 2, 3] example_node = Return (p', acts) \<and>
    wf_Propagator p'"
proof -
  have "DecodeRouteMessage [1, 2, 3] \<noteq> Panic" by code_simp
  from HandleRouteUpdate_safe [OF wf_example_node _ this, of "replicate 16 2" "[replicate 16 2]" 1 1]
  show ?thesis by auto
qed



text \<open>
  A withdrawal removes the routes of its prefix and origin, whichever peer they were learnt
  from, and is passed on unchanged to every peer but the sender, whether or not there was
  anything to remove; when there was not, the propagator is unchanged. Nothing stops a
  withdrawal from going around a cycle of peers for ever.
\<close>

theorem HandleRouteUpdate_withdraws:
  assumes "wf_Propagator p" and "wf_RouteMessage msg" and "rm_Flags msg = RouteFlagWithdraw"
    and "p_sendFunc p" and "p_getPeersFunc p"
  shows "\<exists>p'. HandleRouteUpdate peers now now' from (EncodeRouteMessage msg) p =
      Return (p', map (\<lambda>peer. Send peer (EncodeRouteMessage msg)) (filter (\<lambda>peer. peer \<noteq> from) peers)) \<and>
    routes_of (p_table p') = {r \<in> routes_of (p_table p).
       \<not> (route_key r = IPNet_String (rm_Prefix msg) \<and> r_Origin r = rm_Origin msg)} \<and>
    (routes_of (p_table p) = {} \<longrightarrow> p' = p)"
proof -
  let ?msg = "canon_RouteMessage msg"
  have dec: "DecodeRouteMessage (EncodeRouteMessage msg) = Return ?msg"
    by (rule route_codec.decodes_encoded [OF assms(2)])
  have msg: "rm_Flags ?msg = RouteFlagWithdraw" "rm_Origin ?msg = rm_Origin msg"
    "rm_Prefix ?msg = canon_IPNet (rm_Prefix msg)"
    using assms(3) by (simp_all add: canon_RouteMessage_def)
  have res: "HandleRouteUpdate peers now now' from (EncodeRouteMessage msg) p =
      Return (p\<lparr>p_table := RemoveRoute (rm_Prefix ?msg) (rm_Origin msg) (p_table p)\<rparr>,
        propagateExcept peers (EncodeRouteMessage msg) from p)"
    using dec msg
    by (cases rule: HandleRouteUpdate_cases [of "EncodeRouteMessage msg" peers now now' "from" p]) auto
  note wf = wf_Propagator_table(1) [OF assms(1)]
  have "RemoveRoute d n (p_table p) = p_table p" if "routes_of (p_table p) = {}" for d n
    using that by (auto simp: RemoveRoute_def routes_of_empty [OF wf])
  then show ?thesis
    unfolding res using assms(4,5) wf
    by (auto simp: RemoveRoute_routes msg propagateExcept_def NodeID_Equal_def)
qed

theorem HandleRouteUpdate_withdraws_witness:
  "HandleRouteUpdate [replicate 16 2, replicate 16 3] 1 1 (replicate 16 2)
      (EncodeRouteMessage (example_route_message\<lparr>rm_Flags := RouteFlagWithdraw\<rparr>)) example_node =
    Return (example_node, [Send (replicate 16 3)
      (EncodeRouteMessage (example_route_message\<lparr>rm_Flags := RouteFlagWithdraw\<rparr>))])"
proof -
  let ?msg = "example_route_message\<lparr>rm_Flags := RouteFlagWithdraw\<rparr>"
  have "wf_RouteMessage ?msg" "rm_Flags ?msg = RouteFlagWithdraw"
    "p_sendFunc example_node" "p_getPeersFunc example_node"
    by code_simp+
  moreover have "routes_of (p_table example_node) = {}"
    by (simp add: example_node_def SetPeersFunc_def SetBroadcaster_def SetSender_def NewPropagator_def)
  ultimately show ?thesis
    using HandleRouteUpdate_withdraws [OF wf_example_node, of ?msg "[replicate 16 2, replicate 16 3]" 1 1 "replicate 16 2"]
    by auto
qed

text \<open>
  When a peer goes down, the table loses every route that has it as origin or next hop, and
  no other, and one withdrawal is broadcast for each route lost; the propagator stays well
  formed. This holds for all iteration orders of the two loops over the table.
\<close>

theorem WithdrawAllFromPeer_announces:
  assumes "wf_Propagator p" and "p_broadcastFunc p"
    and "range_order (rt_routes (p_table p)) order" and "range_order (rt_routes (p_table p)) order'"
    and "WithdrawAllFromPeer order order' peer p = (p', acts)"
  shows "wf_Propagator p' \<and>
    routes_of (p_table p') = {r \<in> routes_of (p_table p). r_NextHop r \<noteq> peer \<and> r_Origin r \<noteq> peer} \<and>
    (\<exists>lost. distinct lost \<and> set lost = routes_of (p_table p) - routes_of (p_table p') \<and>
       acts = map (\<lambda>r. Broadcast (encodeWithdrawal r)) lost)"
proof -
  let ?gone = "\<lambda>r. r_NextHop r = peer \<or> r_Origin r = peer"
  let ?lost = "filter ?gone (GetAllRoutes order (p_table p))"
  note wf = wf_Propagator_table(1) [OF assms(1)]
  have p': "p' = p\<lparr>p_table := RemoveAllFromOrigin order' peer (p_table p)\<rparr>"
    using assms(5) by (simp add: WithdrawAllFromPeer_def Let_def)
  have "acts = concat (map (\<lambda>r. if ?gone r then [Broadcast (encodeWithdrawal r)] else [])
      (GetAllRoutes order (p_table p)))"
    using assms(2,5) by (auto simp: WithdrawAllFromPeer_def Let_def broadcast_def NodeID_Equal_def cong: if_cong)
  then have acts: "acts = map (\<lambda>r. Broadcast (encodeWithdrawal r)) ?lost"
    by (simp add: concat_map_if)
  have left: "routes_of (p_table p') = {r \<in> routes_of (p_table p). r_NextHop r \<noteq> peer \<and> r_Origin r \<noteq> peer}"
    using assms(4) by (auto simp: p' RemoveAllFromOrigin_routes)
  have "distinct ?lost"
    using distinct_GetAllRoutes [OF wf, of order] assms(3) by (simp add: range_order_def)
  moreover have "set ?lost = routes_of (p_table p) - routes_of (p_table p')"
    using set_GetAllRoutes [OF assms(3)] by (auto simp: left)
  moreover have "wf_Propagator p'" unfolding p' by (rule wf_Propagator_purge [OF assms(1,4)])
  ultimately show ?thesis using acts left by blast
qed

definition example_relay :: Propagator where
  "example_relay = example_node\<lparr>p_table := example_table\<rparr>"

lemma wf_example_relay: "wf_Propagator example_relay"
proof -
  have routes: "r \<in> {(example_learned 1 8 2)\<lparr>r_Timestamp := 6\<rparr>, (example_learned 1 16 2)\<lparr>r_Timestamp := 7\<rparr>,
      (example_learned 1 16 3)\<lparr>r_Timestamp := 8\<rparr>}" if "r \<in> routes_of example_table" for r
    using that by (auto simp: routes_of_iff example_table_routes split: if_splits)
  have "wf_Route (example_learned 1 8 2)" "wf_Route (example_learned 1 16 2)" "wf_Route (example_learned 1 16 3)"
    by code_simp+
  then have "\<forall>r\<in>routes_of example_table. wf_Route r" by (auto dest!: routes)
  then show ?thesis
    by (simp add: wf_Propagator_def example_relay_def wf_example_table example_node_def SetPeersFunc_def
        SetBroadcaster_def SetSender_def NewPropagator_def)
qed

theorem WithdrawAllFromPeer_announces_witness:
  "routes_of (p_table (fst (WithdrawAllFromPeer example_keys (rev example_keys) (replicate 16 2) example_relay))) =
     {r \<in> routes_of example_table. r_NextHop r \<noteq> replicate 16 2 \<and> r_Origin r \<noteq> replicate 16 2} \<and>
   length (snd (WithdrawAllFromPeer example_keys (rev example_keys) (replicate 16 2) example_relay)) = 3"
proof
  have order: "range_order (rt_routes (p_table example_relay)) example_keys"
    "range_order (rt_routes (p_table example_relay)) (rev example_keys)"
    using example_order by (simp_all add: example_relay_def range_order_def)
  have "p_broadcastFunc example_relay" by code_simp
  from WithdrawAllFromPeer_announces [OF wf_example_relay this order surjective_pairing]
  show "routes_of (p_table (fst (WithdrawAllFromPeer example_keys (rev example_keys) (replicate 16 2) example_relay))) =
     {r \<in> routes_of example_table. r_NextHop r \<noteq> replicate 16 2 \<and> r_Origin r \<noteq> replicate 16 2}"
    by (simp add: example_relay_def)
  show "length (snd (WithdrawAllFromPeer example_keys (rev example_keys) (replicate 16 2) example_relay)) = 3"
    by code_simp
qed

end
