(* ===== verification/Network.thy ===== *)
theory Network
  imports Route_Propagation
begin

text \<open>
  A network of propagators. Nodes run route/propagation.go; a message is handled for the node
  at the other end of the connection it came by, which is the node that sent it. A step of the network is a node handling a
  message in flight, a message getting lost with its connection, a node advertising its own
  networks or all its routes, withdrawing the routes of a peer that went down, or expiring old
  routes. Who is connected to whom may change from step to step: the peers a node sends to are
  chosen anew in every step. Steps of the nodes interleave in any order, and messages are
  delivered in any order.

  Shown, for all nodes and in every reachable state: a route's path starts at its next hop, ends
  at its origin, visits no node twice and never this node, and its cost is the number of hops;
  and no message a node sends makes another one panic.
\<close>

subsection \<open>The system\<close>

record network =
  net_nodes :: "NodeID \<rightharpoonup> Propagator"
  net_flight :: "(NodeID \<times> NodeID \<times> bytes) list"

text \<open>The messages a node's actions put in flight; a broadcast goes to all its neighbours.\<close>

fun post :: "NodeID \<Rightarrow> NodeID list \<Rightarrow> action \<Rightarrow> (NodeID \<times> NodeID \<times> bytes) list" where
  "post self neighbours (Send peer msg) = [(self, peer, msg)]"
| "post self neighbours (Broadcast msg) = map (\<lambda>peer. (self, peer, msg)) neighbours"

definition posts :: "NodeID \<Rightarrow> NodeID list \<Rightarrow> action list \<Rightarrow> (NodeID \<times> NodeID \<times> bytes) list" where
  "posts self neighbours acts = concat (map (post self neighbours) acts)"

definition act :: "NodeID \<Rightarrow> NodeID list \<Rightarrow> Propagator \<times> action list \<Rightarrow> network \<Rightarrow> network" where
  "act self neighbours res net =
     net\<lparr>net_nodes := (net_nodes net)(self \<mapsto> fst res), net_flight := net_flight net @ posts self neighbours (snd res)\<rparr>"

inductive net_step :: "network \<Rightarrow> network \<Rightarrow> bool" where
  deliver: "net_step net (act b nbrs res (net\<lparr>net_flight := xs @ ys\<rparr>))"
    if "net_nodes net b = Some p" "net_flight net = xs @ (a, b, data) # ys"
       "HandleRouteUpdate peers now now' a data p = Return res"
| lose: "net_step net (net\<lparr>net_flight := xs @ ys\<rparr>)"
    if "net_flight net = xs @ m # ys"
| advertise: "net_step net (act b nbrs (AdvertiseDirectNetworks clk p) net)"
    if "net_nodes net b = Some p"
| tick: "net_step net (act b nbrs (advertise_tick clk order p) net)"
    if "net_nodes net b = Some p"
       "range_order (rt_routes (p_table (fst (AdvertiseDirectNetworks clk p)))) order"
| peer_down: "net_step net (act b nbrs (WithdrawAllFromPeer order order' peer p) net)"
    if "net_nodes net b = Some p" "range_order (rt_routes (p_table p)) order" "range_order (rt_routes (p_table p)) order'"
| expire: "net_step net (net\<lparr>net_nodes := (net_nodes net)(b \<mapsto> p\<lparr>p_table := snd (GC order now ttl (p_table p))\<rparr>)\<rparr>)"
    if "net_nodes net b = Some p" "range_order (rt_routes (p_table p)) order"

text \<open>At the start every node has its own networks and no routes, and nothing is in flight.\<close>

definition fresh_node :: "NodeID \<Rightarrow> Propagator \<Rightarrow> bool" where
  "fresh_node b p \<longleftrightarrow> length b = 16 \<and> p_selfID p = b \<and>
     (\<exists>nets. p_table p = SetDirectNetworks nets (NewRoutingTable b) \<and> list_all wf_IPNet nets)"

definition net_initial :: "network \<Rightarrow> bool" where
  "net_initial net \<longleftrightarrow> net_flight net = [] \<and> (\<forall>b p. net_nodes net b = Some p \<longrightarrow> fresh_node b p)"

subsection \<open>Sound routes\<close>

definition sound_path :: "NodeID \<Rightarrow> Route \<Rightarrow> bool" where
  "sound_path self r \<longleftrightarrow>
     (let hops = Hops (r_ASPath r) in
      self \<notin> set hops \<and> distinct hops \<and>
      (if hops = [] then r_NextHop r = self \<and> r_Origin r = self
       else hd hops = r_NextHop r \<and> last hops = r_Origin r) \<and>
      r_Cost r = of_nat (length hops) + 1 \<and> r_LocalPref r = 100)"

text \<open>\<open>D\<close> gives the networks each node serves, in canonical form.\<close>

definition sound_route :: "(NodeID \<Rightarrow> IPNet set) \<Rightarrow> NodeID \<Rightarrow> Route \<Rightarrow> bool" where
  "sound_route D self r \<longleftrightarrow> sound_path self r \<and> wf_Route r \<and> wf_IPNet (r_Destination r) \<and>
     canon_IPNet (r_Destination r) \<in> D (r_Origin r)"

definition sound_node :: "(NodeID \<Rightarrow> IPNet set) \<Rightarrow> NodeID \<Rightarrow> Propagator \<Rightarrow> bool" where
  "sound_node D b p \<longleftrightarrow> wf_table (p_table p) \<and> rt_selfID (p_table p) = b \<and> p_selfID p = b \<and> length b = 16 \<and>
     list_all wf_IPNet (rt_directNetworks (p_table p)) \<and>
     D b = canon_IPNet ` set (rt_directNetworks (p_table p)) \<and> (\<forall>r\<in>routes_of (p_table p). sound_route D b r)"

text \<open>What travels: an advertisement of a sound route by its sender, or a withdrawal.\<close>

definition sound_msg :: "(NodeID \<Rightarrow> IPNet set) \<Rightarrow> NodeID \<Rightarrow> bytes \<Rightarrow> bool" where
  "sound_msg D a data \<longleftrightarrow>
     length a = 16 \<and> ((\<exists>r. data = encodeRouteWithSelf a r \<and> sound_route D a r) \<or>
     (\<exists>msg. data = EncodeRouteMessage msg \<and> wf_RouteMessage msg \<and> rm_Flags msg = RouteFlagWithdraw))"

definition sound_parts :: "(NodeID \<Rightarrow> IPNet set) \<Rightarrow> network \<Rightarrow> bool" where
  "sound_parts D net \<longleftrightarrow> (\<forall>b p. net_nodes net b = Some p \<longrightarrow> sound_node D b p) \<and>
     (\<forall>(a, b, data)\<in>set (net_flight net). sound_msg D a data)"

text \<open>No node is missing that serves a network.\<close>

definition sound_under :: "(NodeID \<Rightarrow> IPNet set) \<Rightarrow> network \<Rightarrow> bool" where
  "sound_under D net \<longleftrightarrow> sound_parts D net \<and> (\<forall>b. net_nodes net b = None \<longrightarrow> D b = {})"

fun sound_act :: "(NodeID \<Rightarrow> IPNet set) \<Rightarrow> NodeID \<Rightarrow> action \<Rightarrow> bool" where
  "sound_act D b (Send peer msg) = sound_msg D b msg"
| "sound_act D b (Broadcast msg) = sound_msg D b msg"

lemma sound_posts: "list_all (sound_act D b) acts \<Longrightarrow> \<forall>(a, c, data)\<in>set (posts b nbrs acts). sound_msg D a data"
proof (induction acts)
  case (Cons a acts)
  then show ?case by (cases a) (auto simp: posts_def)
qed (simp add: posts_def)

lemma sound_net_act:
  "sound_parts D net \<Longrightarrow> sound_node D b (fst res) \<Longrightarrow> list_all (sound_act D b) (snd res) \<Longrightarrow>
     sound_parts D (act b nbrs res net)"
  using sound_posts [of D b "snd res" nbrs] by (auto simp: sound_parts_def act_def)

lemma sound_route_stamp [simp]: "sound_route D b (r\<lparr>r_Timestamp := t\<rparr>) = sound_route D b r"
  by (simp add: sound_route_def sound_path_def)

lemma sound_own_route: "length b = 16 \<Longrightarrow> wf_IPNet nw \<Longrightarrow> canon_IPNet nw \<in> D b \<Longrightarrow> sound_route D b (own_route b nw)"
  by (simp add: sound_route_def wf_own_route) (simp add: sound_path_def own_route_def)

lemma sound_node_wf: "sound_node D b p \<Longrightarrow> wf_Propagator p"
  by (simp add: sound_node_def wf_Propagator_def sound_route_def)

lemma sound_node_add:
  assumes "sound_node D b p" and "sound_route D b r"
  shows "sound_node D b (p\<lparr>p_table := snd (AddRoute now now' r (p_table p))\<rparr>)"
proof -
  have "\<forall>er\<in>routes_of (snd (AddRoute now now' r (p_table p))). sound_route D b er"
    by (rule table.all_add [OF _ sound_route_stamp assms(2)]) (use assms(1) in \<open>simp_all add: sound_node_def\<close>)
  with assms(1) show ?thesis by (simp add: sound_node_def wf_AddRoute)
qed

text \<open>The route a node learns from a sound advertisement of a neighbour is sound for it.\<close>

lemma sound_learnt:
  assumes "sound_route D a r" and "length a = 16" and "length b = 16" and "b \<notin> set (a # Hops (r_ASPath r))"
    and "length (a # Hops (r_ASPath r)) < 32"
  shows "sound_route D b (learnt a ((advert a r)\<lparr>rm_Prefix := canon_IPNet (r_Destination r)\<rparr>))"
  using assms
  by (auto simp: sound_route_def sound_path_def learnt_def advert_def wf_Route_def wf_ASPath_def ASPath_Len_def Let_def
      canon_idem split: if_splits)

subsection \<open>Steps keep the network sound\<close>

lemma sound_propagate: "sound_msg D b msg \<Longrightarrow> list_all (sound_act D b) (propagateExcept peers msg except p)"
  by (simp add: propagateExcept_def list_all_iff)

lemma sound_broadcast: "sound_msg D b msg \<Longrightarrow> list_all (sound_act D b) (broadcast msg p)"
  by (simp add: broadcast_def)

lemma sound_advert: "sound_route D b r \<Longrightarrow> length b = 16 \<Longrightarrow> sound_msg D b (encodeRouteWithSelf b r)"
  by (auto simp: sound_msg_def)

lemma sound_withdrawal: "sound_route D b r \<Longrightarrow> length b = 16 \<Longrightarrow> sound_msg D b (encodeWithdrawal r)"
proof -
  assume r: "sound_route D b r" and b: "length b = 16"
  have "rm_Flags (withdrawal r) = RouteFlagWithdraw" by (simp add: withdrawal_def)
  moreover have "encodeWithdrawal r = EncodeRouteMessage (withdrawal r)" "wf_RouteMessage (withdrawal r)"
    using r by (simp_all add: sound_route_def encodeWithdrawal_withdrawal wf_withdrawal)
  ultimately show "sound_msg D b (encodeWithdrawal r)" using b unfolding sound_msg_def by blast
qed

lemma sound_msg_decodes:
  assumes "sound_msg D a data"
  obtains (update) r where "sound_route D a r"
      "DecodeRouteMessage data = Return ((advert a r)\<lparr>rm_Prefix := canon_IPNet (r_Destination r)\<rparr>)"
  | (withdraw) msg where "DecodeRouteMessage data = Return msg" "rm_Flags msg = RouteFlagWithdraw"
      "data = EncodeRouteMessage msg" "wf_RouteMessage msg"
proof -
  from assms consider (u) r where "data = encodeRouteWithSelf a r" "sound_route D a r" "length a = 16"
    | (w) msg where "data = EncodeRouteMessage msg" "wf_RouteMessage msg" "rm_Flags msg = RouteFlagWithdraw"
    by (auto simp: sound_msg_def)
  then show thesis
  proof cases
    case u
    with update [of r] decode_advert [of r a] show thesis by (simp add: sound_route_def)
  next
    case w
    have "rm_Flags (canon_RouteMessage msg) = RouteFlagWithdraw"
      using w(3) by (simp add: canon_RouteMessage_def)
    with w withdraw [of "canon_RouteMessage msg"] show thesis
      by (simp add: route_codec.decodes_encoded route_codec.wf_norm route_codec.enc_norm)
  qed
qed

lemma sound_HandleRouteUpdate:
  assumes "sound_node D b p" and "sound_msg D a data"
  shows "\<exists>res. HandleRouteUpdate peers now now' a data p = Return res \<and>
    sound_node D b (fst res) \<and> list_all (sound_act D b) (snd res)"
  using assms(2)
proof (cases rule: sound_msg_decodes)
  case (update r)
  let ?msg = "(advert a r)\<lparr>rm_Prefix := canon_IPNet (r_Destination r)\<rparr>"
  have self: "p_selfID p = b" "length b = 16" "length a = 16"
    using assms by (auto simp: sound_node_def sound_msg_def)
  have flags: "rm_Flags ?msg = RouteFlagUpdate" "rm_ASPath ?msg = a # Hops (r_ASPath r)"
    by (simp_all add: advert_def)
  show ?thesis
  proof (cases rule: HandleRouteUpdate_cases [of data peers now now' a p])
    case (stored msg changed table')
    then have msg: "msg = ?msg" using update by simp
    have "sound_route D b (learnt a ?msg)"
      using stored(3,4) flags self by (intro sound_learnt [OF update(1)]) (simp_all add: msg)
    with stored(5,6) self sound_node_add [OF assms(1) this, of now now'] show ?thesis
      by (auto simp: msg sound_advert intro!: sound_propagate)
  qed (use update assms flags in auto)
next
  case (withdraw msg)
  have "sound_msg D b data" using assms(1) withdraw by (auto simp: sound_msg_def sound_node_def)
  moreover have "sound_node D b (p\<lparr>p_table := RemoveRoute d n (p_table p)\<rparr>)" for d n
    using assms(1) table.all_remove [of "p_table p" "sound_route D b" d n] by (simp add: sound_node_def RemoveRoute_wf)
  ultimately show ?thesis
    using withdraw(1,2)
    by (cases rule: HandleRouteUpdate_cases [of data peers now now' a p]) (auto intro: sound_propagate)
qed

lemma sound_advertise_nets:
  "sound_node D b p \<Longrightarrow> list_all wf_IPNet nets \<Longrightarrow> canon_IPNet ` set nets \<subseteq> D b \<Longrightarrow>
     sound_node D b (fst (advertise_nets clk i nets p)) \<and> list_all (sound_act D b) (snd (advertise_nets clk i nets p))"
proof (induction nets arbitrary: i p)
  case (Cons nw nets)
  have self: "p_selfID p = b" "length b = 16" using Cons.prems by (simp_all add: sound_node_def)
  have own: "sound_route D b (own_route b nw)" using Cons.prems self by (simp add: sound_own_route)
  from Cons.IH [OF sound_node_add [OF Cons.prems(1) own]] Cons.prems(2,3) self own show ?case
    by (simp add: Let_def case_prod_beta sound_broadcast sound_advert)
qed simp

lemma sound_advertise:
  "sound_node D b p \<Longrightarrow> sound_node D b (fst (AdvertiseDirectNetworks clk p)) \<and>
     list_all (sound_act D b) (snd (AdvertiseDirectNetworks clk p))"
  using sound_advertise_nets [of D b p "rt_directNetworks (p_table p)" clk 0]
  by (simp add: AdvertiseDirectNetworks_def GetDirectNetworks_def sound_node_def)

lemma sound_tick:
  assumes "sound_node D b p" and "range_order (rt_routes (p_table (fst (AdvertiseDirectNetworks clk p)))) order"
  shows "sound_node D b (fst (advertise_tick clk order p)) \<and> list_all (sound_act D b) (snd (advertise_tick clk order p))"
proof -
  let ?p = "fst (AdvertiseDirectNetworks clk p)"
  note adv = sound_advertise [OF assms(1), of clk]
  have "list_all (sound_act D b) (concat (map (\<lambda>r. broadcast (encodeRouteWithSelf (p_selfID ?p) r) ?p)
      (GetAllRoutes order (p_table ?p))))"
    using adv set_GetAllRoutes [OF assms(2)]
    by (auto simp: list_all_iff sound_node_def broadcast_def sound_advert)
  with adv show ?thesis by (simp add: advertise_tick_def case_prod_beta Let_def)
qed

lemma sound_peer_down:
  assumes "sound_node D b p" and "range_order (rt_routes (p_table p)) order" and "range_order (rt_routes (p_table p)) order'"
  shows "sound_node D b (fst (WithdrawAllFromPeer order order' peer p)) \<and>
    list_all (sound_act D b) (snd (WithdrawAllFromPeer order order' peer p))"
  using assms set_GetAllRoutes [OF assms(2)]
  by (auto simp: WithdrawAllFromPeer_def Let_def sound_node_def RemoveAllFromOrigin_wf RemoveAllFromOrigin_routes
      list_all_iff broadcast_def sound_withdrawal split: if_splits)

lemma sound_expire:
  assumes "sound_node D b p" and "range_order (rt_routes (p_table p)) order"
  shows "sound_node D b (p\<lparr>p_table := snd (GC order now ttl (p_table p))\<rparr>)"
proof -
  have "snd (GC order now ttl (p_table p)) = (p_table p)\<lparr>rt_routes :=
      fold (sweep_key (\<lambda>r. now - r_Timestamp r < ttl)) order (rt_routes (p_table p))\<rparr>"
    using assms(2) by (simp add: GC_eq range_order_def)
  with assms sweep_table [OF assms(2), of "\<lambda>r. now - r_Timestamp r < ttl"] show ?thesis
    by (simp add: sound_node_def)
qed

lemma sound_parts_step: "net_step net net' \<Longrightarrow> sound_parts D net \<Longrightarrow> sound_parts D net'"
proof (induction rule: net_step.induct)
  case (deliver net b p xs a data ys peers now now' res nbrs)
  then have "sound_node D b p" "sound_msg D a data" by (auto simp: sound_parts_def)
  from sound_HandleRouteUpdate [OF this, of peers now now'] deliver(3)
  have "sound_node D b (fst res) \<and> list_all (sound_act D b) (snd res)" by auto
  moreover have "sound_parts D (net\<lparr>net_flight := xs @ ys\<rparr>)" using deliver by (auto simp: sound_parts_def)
  ultimately show ?case by (simp add: sound_net_act)
next
  case (lose net xs m ys)
  then show ?case by (auto simp: sound_parts_def)
next
  case (advertise net b p nbrs clk)
  then have "sound_node D b p" by (simp add: sound_parts_def)
  from sound_advertise [OF this, of clk] advertise show ?case by (simp add: sound_net_act)
next
  case (tick net b p clk order nbrs)
  then have "sound_node D b p" by (simp add: sound_parts_def)
  from sound_tick [OF this tick(2)] tick show ?case by (simp add: sound_net_act)
next
  case (peer_down net b p order order' nbrs peer)
  then have "sound_node D b p" by (simp add: sound_parts_def)
  from sound_peer_down [OF this peer_down(2,3), of peer] peer_down show ?case by (simp add: sound_net_act)
next
  case (expire net b p order now ttl)
  then show ?case using sound_expire by (auto simp: sound_parts_def)
qed

lemma net_step_dom: "net_step net net' \<Longrightarrow> dom (net_nodes net') = dom (net_nodes net)"
  by (induction rule: net_step.induct) (auto simp: act_def split: if_splits)

lemma sound_under_step: "net_step net net' \<Longrightarrow> sound_under D net \<Longrightarrow> sound_under D net'"
  unfolding sound_under_def using sound_parts_step net_step_dom [of net net'] by (metis domIff)

definition served :: "network \<Rightarrow> NodeID \<Rightarrow> IPNet set" where
  "served net b =
     (case net_nodes net b of None \<Rightarrow> {} | Some p \<Rightarrow> canon_IPNet ` set (rt_directNetworks (p_table p)))"

definition sound_net :: "network \<Rightarrow> bool" where
  "sound_net net \<longleftrightarrow> sound_under (served net) net"

lemma sound_under_served: "sound_under D net \<Longrightarrow> served net = D"
  by (rule ext) (auto simp: served_def sound_under_def sound_parts_def sound_node_def split: option.splits)

lemma sound_fresh: "fresh_node b p \<Longrightarrow> net_nodes net b = Some p \<Longrightarrow> sound_node (served net) b p"
  by (auto simp: fresh_node_def sound_node_def wf_NewRoutingTable served_def)
     (simp_all add: SetDirectNetworks_def routes_of_def NewRoutingTable_def)

interpretation net: invariant net_step net_initial sound_net
proof unfold_locales
  show "net_initial s \<Longrightarrow> sound_net s" for s
    by (auto simp: net_initial_def sound_net_def sound_under_def sound_parts_def sound_fresh served_def split: option.splits)
  show "net_step s s' \<Longrightarrow> sound_net s \<Longrightarrow> sound_net s'" for s s'
    using sound_under_step [of s s' "served s"] sound_under_served [of "served s" s'] by (simp add: sound_net_def)
qed

lemma reachable_sound:
  assumes "net_initial net0" and "net_step\<^sup>*\<^sup>* net0 net" and "net_nodes net b = Some p"
  shows "sound_node (served net) b p" and "(a, b, data) \<in> set (net_flight net) \<Longrightarrow> sound_msg (served net) a data"
  using net.reachable_inv [OF assms(1,2)] assms(3) by (auto simp: sound_net_def sound_under_def sound_parts_def)

subsection \<open>Properties\<close>

text \<open>
  C3: In every reachable state of every network, each route in each table is genuine: its origin
  is a node that serves the destination; the path has no repeated node and does not contain this
  node; it begins at the next hop and ends at the origin, or is empty for the node's own
  networks; and the cost is one more than the number of nodes on the path.
\<close>

theorem routes_genuine_and_loop_free:
  assumes "net_initial net0" and "net_step\<^sup>*\<^sup>* net0 net" and "net_nodes net b = Some p"
    and "r \<in> routes_of (p_table p)"
  shows "(\<exists>q. net_nodes net (r_Origin r) = Some q \<and>
        canon_IPNet (r_Destination r) \<in> canon_IPNet ` set (rt_directNetworks (p_table q))) \<and>
    b \<notin> set (Hops (r_ASPath r)) \<and> distinct (Hops (r_ASPath r)) \<and>
    (if Hops (r_ASPath r) = [] then r_NextHop r = b \<and> r_Origin r = b
     else hd (Hops (r_ASPath r)) = r_NextHop r \<and> last (Hops (r_ASPath r)) = r_Origin r) \<and>
    length (Hops (r_ASPath r)) < 32 \<and> unat (r_Cost r) = length (Hops (r_ASPath r)) + 1"
proof -
  have r: "sound_path b r" "wf_Route r" "canon_IPNet (r_Destination r) \<in> served net (r_Origin r)"
    using reachable_sound(1) [OF assms(1-3)] assms(4) by (auto simp: sound_node_def sound_route_def)
  have len: "length (Hops (r_ASPath r)) < 32" using r(2) by (simp add: wf_Route_def ASPath_Len_def)
  have "r_Cost r = of_nat (length (Hops (r_ASPath r)) + 1)" using r(1) by (simp add: sound_path_def Let_def add.commute)
  with len have "unat (r_Cost r) = length (Hops (r_ASPath r)) + 1"
    by (simp only: unat_of_nat) (simp add: take_bit_nat_eq_self)
  with r(1,3) len show ?thesis by (auto simp: sound_path_def Let_def served_def split: option.splits)
qed

text \<open>A network of two nodes; the first serves 10.0.0.0/8 and the second nothing.\<close>

definition serving :: "NodeID \<Rightarrow> IPNet list \<Rightarrow> Propagator" where
  "serving b nets = SetPeersFunc True (SetBroadcaster True (SetSender True
     (NewPropagator (SetDirectNetworks nets (NewRoutingTable b)) b 30)))"

definition example_mesh :: network where
  "example_mesh = \<lparr>net_nodes = [replicate 16 1 \<mapsto> serving (replicate 16 1) [\<lparr>ipn_IP = IPv4 10 0 0 0, ipn_Mask = CIDRMask 8 32\<rparr>],
      replicate 16 2 \<mapsto> serving (replicate 16 2) []], net_flight = []\<rparr>"

definition example_advert :: bytes where
  "example_advert = encodeRouteWithSelf (replicate 16 1)
     (own_route (replicate 16 1) \<lparr>ipn_IP = IPv4 10 0 0 0, ipn_Mask = CIDRMask 8 32\<rparr>)"

lemma fresh_serving: "length b = 16 \<Longrightarrow> list_all wf_IPNet nets \<Longrightarrow> fresh_node b (serving b nets)"
  by (auto simp: fresh_node_def serving_def SetPeersFunc_def SetBroadcaster_def SetSender_def NewPropagator_def)

lemma example_mesh_initial: "net_initial example_mesh"
proof -
  have "wf_IPNet \<lparr>ipn_IP = IPv4 10 0 0 0, ipn_Mask = CIDRMask 8 32\<rparr>" by code_simp
  then show ?thesis by (auto simp: net_initial_def example_mesh_def intro!: fresh_serving split: if_splits)
qed

lemma example_mesh_advertises:
  "\<exists>net. net_step example_mesh net \<and> net_flight net = [(replicate 16 1, replicate 16 2, example_advert)] \<and>
     net_nodes net (replicate 16 2) = Some (serving (replicate 16 2) [])"
proof -
  let ?p = "serving (replicate 16 1) [\<lparr>ipn_IP = IPv4 10 0 0 0, ipn_Mask = CIDRMask 8 32\<rparr>]"
  let ?net = "act (replicate 16 1) [replicate 16 2] (AdvertiseDirectNetworks (\<lambda>_. 0) ?p) example_mesh"
  have "(replicate 16 1 :: bytes) \<noteq> replicate 16 2" by code_simp
  then have "net_nodes example_mesh (replicate 16 1) = Some ?p" by (simp add: example_mesh_def)
  from net_step.advertise [of example_mesh, OF this] have "net_step example_mesh ?net" .
  moreover have "net_flight ?net = [(replicate 16 1, replicate 16 2, example_advert)]"
    by (simp add: act_def example_mesh_def AdvertiseDirectNetworks_def advertise_nets_acts posts_def example_advert_def
        broadcast_def serving_def SetPeersFunc_def SetBroadcaster_def SetSender_def NewPropagator_def GetDirectNetworks_def SetDirectNetworks_def
        Let_def case_prod_beta)
  moreover have "net_nodes ?net (replicate 16 2) = Some (serving (replicate 16 2) [])"
    by (simp add: act_def example_mesh_def)
  ultimately show ?thesis by blast
qed

theorem routes_genuine_and_loop_free_witness:
  "\<exists>net p r. net_step\<^sup>*\<^sup>* example_mesh net \<and> net_nodes net (replicate 16 2) = Some p \<and> r \<in> routes_of (p_table p) \<and>
     Hops (r_ASPath r) \<noteq> [] \<and> unat (r_Cost r) = length (Hops (r_ASPath r)) + 1"
proof -
  obtain net where net: "net_step example_mesh net" "net_flight net = [(replicate 16 1, replicate 16 2, example_advert)]"
    "net_nodes net (replicate 16 2) = Some (serving (replicate 16 2) [])"
    using example_mesh_advertises by blast
  obtain p acts where res: "HandleRouteUpdate [] 0 0 (replicate 16 1) example_advert (serving (replicate 16 2) []) = Return (p, acts)"
    and "list_ex (\<lambda>r. Hops (r_ASPath r) \<noteq> []) (the (rt_routes (p_table p) ''10.0.0.0/8''))"
    "rt_routes (p_table p) ''10.0.0.0/8'' \<noteq> None"
  proof -
    let ?res = "HandleRouteUpdate [] 0 0 (replicate 16 1) example_advert (serving (replicate 16 2) [])"
    have "case ?res of Return (p, _) \<Rightarrow> rt_routes (p_table p) ''10.0.0.0/8'' \<noteq> None \<and>
        list_ex (\<lambda>r. Hops (r_ASPath r) \<noteq> []) (the (rt_routes (p_table p) ''10.0.0.0/8'')) | _ \<Rightarrow> False"
      by code_simp
    with that show thesis by (cases ?res) auto
  qed
  then obtain r where r: "r \<in> routes_of (p_table p)" "Hops (r_ASPath r) \<noteq> []"
    by (fastforce simp: list_ex_iff routes_of_def intro: ranI)
  let ?net = "act (replicate 16 2) [] (p, acts) (net\<lparr>net_flight := []\<rparr>)"
  have "net_step net ?net" using net_step.deliver [OF net(3), of "[]" _ _ "[]"] net(2) res by simp
  with net(1) have steps: "net_step\<^sup>*\<^sup>* example_mesh ?net" by (simp add: converse_rtranclp_into_rtranclp)
  have "net_nodes ?net (replicate 16 2) = Some p" by (simp add: act_def)
  with routes_genuine_and_loop_free [OF example_mesh_initial steps this r(1)] r steps show ?thesis by blast
qed

text \<open>
  C13: No message that travels in a network of these nodes makes its receiver panic: in every
  reachable state, a node that handles any message in flight to it returns, with a table that is
  again well formed.
\<close>

theorem messages_never_panic:
  assumes "net_initial net0" and "net_step\<^sup>*\<^sup>* net0 net" and "net_nodes net b = Some p"
    and "(a, b, data) \<in> set (net_flight net)"
  shows "\<exists>p' acts. HandleRouteUpdate peers now now' a data p = Return (p', acts) \<and> wf_Propagator p'"
  using sound_HandleRouteUpdate [OF reachable_sound(1) [OF assms(1-3)] reachable_sound(2) [OF assms], of peers now now']
  by (auto dest: sound_node_wf)

theorem messages_never_panic_witness:
  "\<exists>p' acts. HandleRouteUpdate [replicate 16 1] 0 0 (replicate 16 1) example_advert (serving (replicate 16 2) []) =
     Return (p', acts) \<and> wf_Propagator p'"
proof -
  obtain net where net: "net_step example_mesh net" "net_flight net = [(replicate 16 1, replicate 16 2, example_advert)]"
    "net_nodes net (replicate 16 2) = Some (serving (replicate 16 2) [])"
    using example_mesh_advertises by blast
  from net(1) have "net_step\<^sup>*\<^sup>* example_mesh net" by simp
  from messages_never_panic [OF example_mesh_initial this net(3)] net(2) show ?thesis by simp
qed

end
