(* ===== verification/Network_Spread.thy ===== *)
theory Network_Spread
  imports Network
begin

text \<open>
  How far an advertisement gets. In the network of theory \<open>Network\<close>, a network that a node serves
  becomes known along every path of nodes that do not know it yet: there are steps after which
  each node of the path has the route through its predecessor, and finds it when it looks up an
  address. The paths the program allows have at most 31 hops.
\<close>

subsection \<open>One hop\<close>

definition wired :: "Propagator \<Rightarrow> bool" where
  "wired p \<longleftrightarrow> p_sendFunc p \<and> p_getPeersFunc p \<and> p_broadcastFunc p"

text \<open>The route a node learns when the node \<open>a\<close> advertises its route \<open>r\<close>.\<close>

definition next_route :: "NodeID \<Rightarrow> Route \<Rightarrow> Route" where
  "next_route a r = learnt a ((advert a r)\<lparr>rm_Prefix := canon_IPNet (r_Destination r)\<rparr>)"

lemma next_route_fields [simp]:
  "r_Destination (next_route a r) = canon_IPNet (r_Destination r)" "r_NextHop (next_route a r) = a"
  "r_Origin (next_route a r) = r_Origin r" "Hops (r_ASPath (next_route a r)) = a # Hops (r_ASPath r)"
  by (simp_all add: next_route_def learnt_def advert_def)

lemma empty_table_learns:
  assumes "sound_node D b p" and "sound_route D a r" and "length a = 16" and "routes_of (p_table p) = {}"
    and "b \<notin> set (a # Hops (r_ASPath r))" and "length (a # Hops (r_ASPath r)) < 32" and "wired p"
  obtains table where "HandleRouteUpdate peers now now' a (encodeRouteWithSelf a r) p = Return (p\<lparr>p_table := table\<rparr>,
      map (\<lambda>c. Send c (encodeRouteWithSelf b (next_route a r))) (filter (\<lambda>c. c \<noteq> a) peers))"
    and "routes_of table = {(next_route a r)\<lparr>r_Timestamp := now\<rparr>}" and "sound_route D b (next_route a r)"
proof -
  let ?msg = "(advert a r)\<lparr>rm_Prefix := canon_IPNet (r_Destination r)\<rparr>"
  have p: "wf_table (p_table p)" "rt_selfID (p_table p) = b" "p_selfID p = b" "length b = 16"
    using assms(1) by (simp_all add: sound_node_def)
  have dec: "DecodeRouteMessage (encodeRouteWithSelf a r) = Return ?msg"
    using assms(2,3) by (simp add: decode_advert sound_route_def)
  have msg: "rm_Flags ?msg = RouteFlagUpdate" "rm_ASPath ?msg = a # Hops (r_ASPath r)" by (simp_all add: advert_def)
  obtain changed table where add: "AddRoute now now' (next_route a r) (p_table p) = (changed, table)"
    and res: "HandleRouteUpdate peers now now' a (encodeRouteWithSelf a r) p = Return (p\<lparr>p_table := table\<rparr>,
      if changed then propagateExcept peers (encodeRouteWithSelf b (next_route a r)) a p else [])"
    using dec msg p(3) assms(5,6) unfolding next_route_def
    by (cases rule: HandleRouteUpdate_cases [of "encodeRouteWithSelf a r" peers now now' a p]) auto
  have "rt_selfID (p_table p) \<notin> set (Hops (r_ASPath (next_route a r)))" using assms(5) p(2) by simp
  note routes = AddRoute_routes [OF p(1) this add]
  have "changed" using routes(2) assms(4) by simp
  with res routes(1) assms(4,7) show thesis
    using sound_learnt [OF assms(2,3) p(4) assms(5,6)]
    by (intro that [of table]) (simp_all add: propagateExcept_def wired_def NodeID_Equal_def next_route_def)
qed

subsection \<open>Along a path\<close>

text \<open>What the nodes of a path know in the end when the node before the path advertised \<open>r\<close>.\<close>

fun knows_along :: "network \<Rightarrow> NodeID \<Rightarrow> Route \<Rightarrow> NodeID list \<Rightarrow> bool" where
  "knows_along net a r [] \<longleftrightarrow> True"
| "knows_along net a r (b # bs) \<longleftrightarrow>
     (\<exists>p t. net_nodes net b = Some p \<and> routes_of (p_table p) = {(next_route a r)\<lparr>r_Timestamp := t\<rparr>}) \<and>
     knows_along net b (next_route a r) bs"

definition unaware :: "network \<Rightarrow> NodeID \<Rightarrow> bool" where
  "unaware net b \<longleftrightarrow> (\<exists>p. net_nodes net b = Some p \<and> wired p \<and> routes_of (p_table p) = {})"

lemma spreads_along:
  assumes "sound_under D net" and "bs \<noteq> [] \<Longrightarrow> (a, hd bs, encodeRouteWithSelf a r) \<in> set (net_flight net)"
    and "sound_route D a r" and "length a = 16" and "distinct (rev bs @ a # Hops (r_ASPath r))"
    and "length bs + length (Hops (r_ASPath r)) < 32" and "\<forall>b\<in>set bs. unaware net b"
  shows "\<exists>net'. net_step\<^sup>*\<^sup>* net net' \<and> knows_along net' a r bs \<and> (\<forall>c. c \<notin> set bs \<longrightarrow> net_nodes net' c = net_nodes net c)"
  using assms
proof (induction bs arbitrary: net a r)
  case (Cons b bs)
  obtain p where p: "net_nodes net b = Some p" "wired p" "routes_of (p_table p) = {}"
    using Cons.prems(7) by (auto simp: unaware_def)
  obtain xs ys where flight: "net_flight net = xs @ (a, b, encodeRouteWithSelf a r) # ys"
    using Cons.prems(2) by (auto dest: split_list)
  have node: "sound_node D b p" using Cons.prems(1) p(1) by (simp add: sound_under_def sound_parts_def)
  have b: "b \<notin> set (a # Hops (r_ASPath r))" "length (a # Hops (r_ASPath r)) < 32" using Cons.prems(5,6) by auto
  obtain table where res: "HandleRouteUpdate (take 1 bs) 0 0 a (encodeRouteWithSelf a r) p = Return (p\<lparr>p_table := table\<rparr>,
      map (\<lambda>c. Send c (encodeRouteWithSelf b (next_route a r))) (filter (\<lambda>c. c \<noteq> a) (take 1 bs)))"
    and routes: "routes_of table = {(next_route a r)\<lparr>r_Timestamp := 0\<rparr>}" and route: "sound_route D b (next_route a r)"
    using empty_table_learns [OF node Cons.prems(3,4) p(3) b p(2)] by blast
  let ?res = "(p\<lparr>p_table := table\<rparr>, map (\<lambda>c. Send c (encodeRouteWithSelf b (next_route a r))) (filter (\<lambda>c. c \<noteq> a) (take 1 bs)))"
  let ?net = "act b [] ?res (net\<lparr>net_flight := xs @ ys\<rparr>)"
  have step: "net_step net ?net" by (rule net_step.deliver [OF p(1) flight res])
  have nodes: "net_nodes ?net c = (if c = b then Some (p\<lparr>p_table := table\<rparr>) else net_nodes net c)" for c
    by (simp add: act_def)
  have "\<exists>net'. net_step\<^sup>*\<^sup>* ?net net' \<and> knows_along net' b (next_route a r) bs \<and>
      (\<forall>c. c \<notin> set bs \<longrightarrow> net_nodes net' c = net_nodes ?net c)"
  proof (rule Cons.IH)
    show "sound_under D ?net" by (rule sound_under_step [OF step Cons.prems(1)])
    show "(b, hd bs, encodeRouteWithSelf b (next_route a r)) \<in> set (net_flight ?net)" if "bs \<noteq> []"
      using that Cons.prems(5) by (cases bs) (auto simp: act_def posts_def)
    show "sound_route D b (next_route a r)" "length b = 16" using route node by (simp_all add: sound_node_def)
    show "distinct (rev bs @ b # Hops (r_ASPath (next_route a r)))"
      "length bs + length (Hops (r_ASPath (next_route a r))) < 32"
      using Cons.prems(5,6) by auto
    show "\<forall>c\<in>set bs. unaware ?net c"
    proof
      fix c
      assume c: "c \<in> set bs"
      then have "net_nodes ?net c = net_nodes net c" using Cons.prems(5) by (auto simp: act_def)
      with c Cons.prems(7) show "unaware ?net c" by (simp add: unaware_def)
    qed
  qed
  then obtain net' where net': "net_step\<^sup>*\<^sup>* ?net net'" "knows_along net' b (next_route a r) bs"
    "\<forall>c. c \<notin> set bs \<longrightarrow> net_nodes net' c = net_nodes ?net c" by blast
  have "net_nodes net' b = Some (p\<lparr>p_table := table\<rparr>)" using net'(3) Cons.prems(5) nodes by auto
  with net' routes nodes converse_rtranclp_into_rtranclp [OF step net'(1)] show ?case
    by (intro exI [of _ net']) auto
qed auto

lemma only_route_found:
  assumes "routes_of rt = {r}" and "canon_IPNet (r_Destination r) = canon_IPNet nw"
    and "range_order (rt_routes rt) order" and "\<forall>own\<in>set (rt_directNetworks rt). \<not> IPNet_Contains own ip"
    and "IPNet_Contains nw ip" and "0 < mask_ones (ipn_Mask nw)"
  shows "Lookup order rt ip = Some r"
proof -
  have "matches ip r"
    using assms(2,5,6) IPNet_Contains_canon [of "r_Destination r" ip] IPNet_Contains_canon [of nw ip]
      ipn_Mask_canon [of "r_Destination r"] ipn_Mask_canon [of nw]
    by (simp add: matches_def prefix_len_def)
  with Lookup_learned [OF assms(3,4)] assms(1) show ?thesis by (cases "Lookup order rt ip") auto
qed

text \<open>A node whose table has one route, to \<open>nw\<close> with origin \<open>a\<close> along the given path, and finds it.\<close>

definition reaches :: "network \<Rightarrow> NodeID \<Rightarrow> IPNet \<Rightarrow> NodeID \<Rightarrow> NodeID list \<Rightarrow> bool" where
  "reaches net b nw a path \<longleftrightarrow> (\<exists>p r. net_nodes net b = Some p \<and> routes_of (p_table p) = {r} \<and>
     canon_IPNet (r_Destination r) = canon_IPNet nw \<and> r_Origin r = a \<and> r_NextHop r = hd path \<and> Hops (r_ASPath r) = path \<and>
     (\<forall>order ip. range_order (rt_routes (p_table p)) order \<longrightarrow> IPNet_Contains nw ip \<longrightarrow> 0 < mask_ones (ipn_Mask nw) \<longrightarrow>
        (\<forall>own\<in>set (rt_directNetworks (p_table p)). \<not> IPNet_Contains own ip) \<longrightarrow>
        Lookup order (p_table p) ip = Some r))"

lemma knows_along_nth:
  assumes "knows_along net a r bs" and "i < length bs"
  shows "reaches net (bs ! i) (r_Destination r) (r_Origin r) (rev (take (Suc i) (a # bs)) @ Hops (r_ASPath r))"
  using assms
proof (induction bs arbitrary: a r i)
  case (Cons b bs)
  show ?case
  proof (cases i)
    case 0
    with Cons.prems(1) show ?thesis by (auto simp: reaches_def canon_idem intro!: only_route_found)
  next
    case (Suc j)
    have "reaches net c (canon_IPNet nw) d path = reaches net c nw d path" for c nw d path
      by (simp add: reaches_def canon_idem)
    with Suc Cons.IH [of b "next_route a r" j] Cons.prems show ?thesis by simp
  qed
qed simp

subsection \<open>Property\<close>

text \<open>
  C4: A network that a node serves becomes reachable along every path: from every reachable state,
  for every node \<open>a\<close> that serves \<open>nw\<close> and every path of at most 31 further nodes, all different, that
  have no routes yet, there are steps of the network after which each node on the path has exactly
  one route, to \<open>nw\<close>, with its predecessor as next hop and the way back to \<open>a\<close> as path; and that is
  the route it finds for every address in \<open>nw\<close> that it does not serve itself, unless \<open>nw\<close> is the
  whole address space.
\<close>

theorem advertisement_reaches:
  assumes "net_initial net0" and "net_step\<^sup>*\<^sup>* net0 net" and "distinct (a # bs)" and "length bs < 32"
    and "net_nodes net a = Some q" and "wired q" and "nw \<in> set (rt_directNetworks (p_table q))"
    and "\<forall>b\<in>set bs. unaware net b"
  shows "\<exists>net'. net_step\<^sup>*\<^sup>* net net' \<and>
    (\<forall>i<length bs. reaches net' (bs ! i) nw a (rev (take (Suc i) (a # bs))))"
proof -
  let ?r = "own_route a nw"
  have sound: "sound_under (served net) net" using net.reachable_inv [OF assms(1,2)] by (simp add: sound_net_def)
  have a: "p_selfID q = a" "length a = 16" "wf_IPNet nw" "canon_IPNet nw \<in> served net a"
    using reachable_sound(1) [OF assms(1,2,5)] assms(7) by (auto simp: sound_node_def list_all_iff)
  let ?net = "act a (take 1 bs) (AdvertiseDirectNetworks (\<lambda>_. 0) q) net"
  have step: "net_step net ?net" by (rule net_step.advertise [OF assms(5)])
  have "\<exists>net'. net_step\<^sup>*\<^sup>* ?net net' \<and> knows_along net' a ?r bs \<and> (\<forall>c. c \<notin> set bs \<longrightarrow> net_nodes net' c = net_nodes ?net c)"
  proof (rule spreads_along [of "served net"])
    show "sound_under (served net) ?net" by (rule sound_under_step [OF step sound])
    show "(a, hd bs, encodeRouteWithSelf a ?r) \<in> set (net_flight ?net)" if "bs \<noteq> []"
      using that assms(6,7) a(1)
      by (cases bs) (auto simp: act_def posts_def AdvertiseDirectNetworks_def advertise_nets_acts GetDirectNetworks_def
          broadcast_def wired_def)
    show "\<forall>b\<in>set bs. unaware ?net b"
    proof
      fix b
      assume b: "b \<in> set bs"
      with assms(3) have "net_nodes ?net b = net_nodes net b" by (auto simp: act_def)
      with b assms(8) show "unaware ?net b" by (simp add: unaware_def)
    qed
    show "sound_route (served net) a ?r" using a(2-4) by (rule sound_own_route)
  qed (use assms(3,4) a in \<open>simp_all add: own_route_def\<close>)
  then obtain net' where net': "net_step\<^sup>*\<^sup>* ?net net'" "knows_along net' a ?r bs" by blast
  have "reaches net' (bs ! i) nw a (rev (take (Suc i) (a # bs)))" if "i < length bs" for i
    using knows_along_nth [OF net'(2) that] by (simp add: own_route_def)
  with converse_rtranclp_into_rtranclp [OF step net'(1)] show ?thesis by blast
qed

text \<open>Three nodes in a line; the first serves 10.0.0.0/8.\<close>

definition example_net10 :: IPNet where
  "example_net10 = \<lparr>ipn_IP = IPv4 10 0 0 0, ipn_Mask = CIDRMask 8 32\<rparr>"

definition example_line :: network where
  "example_line = \<lparr>net_nodes = [replicate 16 1 \<mapsto> serving (replicate 16 1) [example_net10],
      replicate 16 2 \<mapsto> serving (replicate 16 2) [], replicate 16 3 \<mapsto> serving (replicate 16 3) []], net_flight = []\<rparr>"

lemma serving_fields [simp]:
  "p_table (serving b nets) = SetDirectNetworks nets (NewRoutingTable b)" "wired (serving b nets)"
  by (simp_all add: serving_def wired_def SetPeersFunc_def SetBroadcaster_def SetSender_def NewPropagator_def)

theorem advertisement_reaches_witness:
  "\<exists>net. net_step\<^sup>*\<^sup>* example_line net \<and>
     reaches net (replicate 16 3) example_net10 (replicate 16 1) [replicate 16 2, replicate 16 1]"
proof -
  let ?b = "\<lambda>n. replicate 16 n :: NodeID"
  have diff: "?b 1 \<noteq> ?b 2" "?b 1 \<noteq> ?b 3" "?b 2 \<noteq> ?b 3" by code_simp+
  have "wf_IPNet example_net10" by code_simp
  then have "net_initial example_line"
    by (auto simp: net_initial_def example_line_def intro!: fresh_serving split: if_splits)
  moreover have "routes_of (SetDirectNetworks [] (NewRoutingTable b)) = {}" for b
    by (simp add: SetDirectNetworks_def routes_of_def NewRoutingTable_def)
  then have "\<forall>b\<in>set [?b 2, ?b 3]. unaware example_line b" using diff by (simp add: unaware_def example_line_def)
  moreover have "net_nodes example_line (?b 1) = Some (serving (?b 1) [example_net10])"
    using diff by (simp add: example_line_def)
  ultimately obtain net where "net_step\<^sup>*\<^sup>* example_line net"
    "\<forall>i<2. reaches net ([?b 2, ?b 3] ! i) example_net10 (?b 1) (rev (take (Suc i) [?b 1, ?b 2, ?b 3]))"
    using advertisement_reaches [of example_line example_line "?b 1" "[?b 2, ?b 3]" _ example_net10] diff
    by (auto simp: SetDirectNetworks_def)
  then show ?thesis by (intro exI [of _ net]) (auto dest: spec [of _ 1])
qed

end
