(* ===== verification/Network_Expire.thy ===== *)
theory Network_Expire
  imports Network
begin

text \<open>
  What becomes of the routes to a node that is gone. No node keeps a route alive that its origin no
  longer advertises: routes are passed on again and again, but each node that passes one on adds
  itself to the path, and a route is refreshed only by a message with a path of the same length. In
  the network of theory \<open>Network\<close> a round is a stretch of any steps in which all messages that were in
  flight at its beginning are delivered or lost, and after which every node has expired what it held
  until then and has not had refreshed.

  Shown: with every round the paths of the routes that are left to a node that is gone become longer
  by one, so that after 31 rounds there is none. The network does not count to infinity.
\<close>

subsection \<open>Rounds\<close>

text \<open>A node disappears; messages it sent are still under way.\<close>

definition crash :: "NodeID \<Rightarrow> network \<Rightarrow> network" where
  "crash gone net = net\<lparr>net_nodes := (net_nodes net)(gone := None)\<rparr>"

text \<open>The steps of the network, with the position of the message that is taken from those in flight.\<close>

inductive net_move :: "nat option \<Rightarrow> network \<Rightarrow> network \<Rightarrow> bool" where
  deliver: "net_move (Some (length xs)) net (act b nbrs res (net\<lparr>net_flight := xs @ ys\<rparr>))"
    if "net_nodes net b = Some p" "net_flight net = xs @ (a, b, data) # ys"
       "HandleRouteUpdate peers now now' a data p = Return res"
| lose: "net_move (Some (length xs)) net (net\<lparr>net_flight := xs @ ys\<rparr>)"
    if "net_flight net = xs @ m # ys"
| advertise: "net_move None net (act b nbrs (AdvertiseDirectNetworks clk p) net)"
    if "net_nodes net b = Some p"
| tick: "net_move None net (act b nbrs (advertise_tick clk order p) net)"
    if "net_nodes net b = Some p"
       "range_order (rt_routes (p_table (fst (AdvertiseDirectNetworks clk p)))) order"
| peer_down: "net_move None net (act b nbrs (WithdrawAllFromPeer order order' peer p) net)"
    if "net_nodes net b = Some p" "range_order (rt_routes (p_table p)) order" "range_order (rt_routes (p_table p)) order'"
| expire: "net_move None net (net\<lparr>net_nodes := (net_nodes net)(b \<mapsto> p\<lparr>p_table := snd (GC order now ttl (p_table p))\<rparr>)\<rparr>)"
    if "net_nodes net b = Some p" "range_order (rt_routes (p_table p)) order"

lemma net_move_iff: "net_step net net' \<longleftrightarrow> (\<exists>l. net_move l net net')"
proof
  show "\<exists>l. net_move l net net'" if "net_step net net'"
    using that by cases (blast intro: net_move.intros)+
  show "net_step net net'" if "\<exists>l. net_move l net net'"
    using that by (auto elim!: net_move.cases intro: net_step.intros)
qed

definition routes_at :: "network \<Rightarrow> NodeID \<Rightarrow> Route set" where
  "routes_at net b = (case net_nodes net b of None \<Rightarrow> {} | Some p \<Rightarrow> routes_of (p_table p))"

text \<open>
  New messages are put behind those in flight, so the messages of a past moment that are left are the
  first ones; \<open>k\<close> counts them.
\<close>

inductive ages :: "nat \<times> network \<Rightarrow> nat \<times> network \<Rightarrow> bool" where
  takes: "ages (k, net) (if i < k then k - 1 else k, net')" if "net_move (Some i) net net'"
| leaves: "ages (k, net) (k, net')" if "net_move None net net'"

text \<open>The nodes \<open>S\<close> still have to expire what they held in the state \<open>old\<close>.\<close>

inductive sweeps :: "network \<Rightarrow> NodeID set \<times> network \<Rightarrow> NodeID set \<times> network \<Rightarrow> bool" for old where
  moves: "sweeps old (S, net) (S, net')" if "net_step net net'"
| expires: "sweeps old (S, net) (S - {b}, net\<lparr>net_nodes := (net_nodes net)(b \<mapsto> p\<lparr>p_table := snd (GC order now ttl (p_table p))\<rparr>)\<rparr>)"
    if "net_nodes net b = Some p" "range_order (rt_routes (p_table p)) order" "\<forall>r\<in>routes_at old b. ttl \<le> now - r_Timestamp r"

definition expiry_round :: "network \<Rightarrow> network \<Rightarrow> bool" where
  "expiry_round net net' \<longleftrightarrow> (\<exists>old. ages\<^sup>*\<^sup>* (length (net_flight net), net) (0, old) \<and>
     (sweeps old)\<^sup>*\<^sup>* (dom (net_nodes old), old) ({}, net'))"

subsection \<open>Distance\<close>

definition path_length :: "Route \<Rightarrow> nat" where
  "path_length r = length (Hops (r_ASPath r))"

definition route_far :: "NodeID \<Rightarrow> nat \<Rightarrow> Route \<Rightarrow> bool" where
  "route_far gone k r \<longleftrightarrow> (r_Origin r = gone \<longrightarrow> k \<le> path_length r)"

definition msg_far :: "NodeID \<Rightarrow> nat \<Rightarrow> bytes \<Rightarrow> bool" where
  "msg_far gone k data \<longleftrightarrow> (\<forall>msg. DecodeRouteMessage data = Return msg \<longrightarrow> rm_Flags msg AND RouteFlagWithdraw = 0 \<longrightarrow>
     rm_Origin msg = gone \<longrightarrow> k \<le> length (rm_ASPath msg))"

fun act_far :: "NodeID \<Rightarrow> nat \<Rightarrow> action \<Rightarrow> bool" where
  "act_far gone k (Send peer msg) = msg_far gone k msg"
| "act_far gone k (Broadcast msg) = msg_far gone k msg"

lemma route_far_mono: "route_far gone k r \<Longrightarrow> m \<le> k \<Longrightarrow> route_far gone m r"
  by (auto simp: route_far_def)

lemma msg_far_mono: "msg_far gone k data \<Longrightarrow> m \<le> k \<Longrightarrow> msg_far gone m data"
  by (fastforce simp: msg_far_def)

lemma posts_far: "list_all (act_far gone k) acts \<Longrightarrow> (a, b, data) \<in> set (posts c nbrs acts) \<Longrightarrow> msg_far gone k data"
proof (induction acts)
  case (Cons act acts)
  then show ?case by (cases act) (auto simp: posts_def)
qed (simp add: posts_def)

text \<open>A message is one hop farther than the route it carries.\<close>

lemma advert_far: "sound_route D b r \<Longrightarrow> length b = 16 \<Longrightarrow> route_far gone k r \<Longrightarrow> msg_far gone (Suc k) (encodeRouteWithSelf b r)"
  by (auto simp: msg_far_def sound_route_def decode_advert advert_def route_far_def path_length_def)

lemma withdrawal_far: "sound_route D b r \<Longrightarrow> msg_far gone k (encodeWithdrawal r)"
  by (auto simp: msg_far_def sound_route_def decode_withdrawal withdrawal_def)

lemma sound_path_length:
  assumes "sound_route D b r" and "sound_route D b r'" and "r_Cost r = r_Cost r'"
  shows "path_length r = path_length r'"
proof -
  have "path_length x < 32" "r_Cost x = of_nat (path_length x) + 1" if "sound_route D b x" for x
    using that by (simp_all add: sound_route_def sound_path_def wf_Route_def ASPath_Len_def path_length_def Let_def)
  from this(1) [OF assms(1)] this(1) [OF assms(2)] this(2) [OF assms(1)] this(2) [OF assms(2)] assms(3)
  have "unat (of_nat (path_length r) :: uint32) = unat (of_nat (path_length r') :: uint32)"
    "path_length r < 4294967296" "path_length r' < 4294967296" by simp_all
  then show ?thesis by (simp del: unat_of_nat)
qed

subsection \<open>The effect of a step\<close>

text \<open>
  A node changes from \<open>p\<close> to \<open>p'\<close> and sends \<open>acts\<close>: the routes it has gained are at least \<open>k\<close> hops away from
  the node that is gone, and if those it had before are at least \<open>m\<close> hops away, what it sends is farther.
\<close>

definition effect :: "NodeID \<Rightarrow> nat \<Rightarrow> Propagator \<Rightarrow> Propagator \<times> action list \<Rightarrow> bool" where
  "effect gone k p res \<longleftrightarrow> (\<forall>r\<in>routes_of (p_table (fst res)). r \<in> routes_of (p_table p) \<or> route_far gone k r) \<and>
     (\<forall>m\<le>k. (\<forall>r\<in>routes_of (p_table p). route_far gone m r) \<longrightarrow> list_all (act_far gone (Suc m)) (snd res))"

lemma effect_kept: "routes_of (p_table p') \<subseteq> routes_of (p_table p) \<Longrightarrow> (\<And>m. list_all (act_far gone m) acts) \<Longrightarrow> effect gone k p (p', acts)"
  by (auto simp: effect_def)

lemma propagate_far: "msg_far gone k msg \<Longrightarrow> list_all (act_far gone k) (propagateExcept peers msg except p)"
  by (simp add: propagateExcept_def list_all_iff)

lemma broadcast_far: "msg_far gone k msg \<Longrightarrow> list_all (act_far gone k) (broadcast msg p)"
  by (simp add: broadcast_def)

text \<open>A route is refreshed by one of the same cost only, which for a sound route means of the same length.\<close>

lemma AddRoute_far:
  assumes "sound_node D b p" and "sound_route D b r" and "route_far gone k r" and "AddRoute now now' r (p_table p) = (changed, rt)"
    and "x \<in> routes_of rt"
  shows "x \<in> routes_of (p_table p) \<or> route_far gone k x"
proof -
  have p: "wf_table (p_table p)" "rt_selfID (p_table p) \<notin> set (Hops (r_ASPath r))" "\<forall>er\<in>routes_of (p_table p). sound_route D b er"
    using assms(1,2) by (auto simp: sound_node_def sound_route_def sound_path_def Let_def)
  note routes = AddRoute_routes [OF p(1,2) assms(4)]
  consider "x \<in> routes_of (p_table p)" | "x = r\<lparr>r_Timestamp := now\<rparr>"
    | er where "\<not> changed" "er \<in> routes_of (p_table p)" "slot er = slot r" "x = er\<lparr>r_Timestamp := now'\<rparr>"
    using assms(5) unfolding routes(1) by (auto split: if_splits)
  then show ?thesis
  proof cases
    case 3
    obtain er' where er': "{e \<in> routes_of rt. slot e = slot r} = {er'}" "r_Cost er' = r_Cost r"
      using AddRoute_slot [OF p(1,2) assms(4)] by blast
    have "x \<in> {e \<in> routes_of rt. slot e = slot r}" using assms(5) 3(3,4) by simp
    then have "r_Cost x = r_Cost r" using er' by simp
    then have "path_length er = path_length r"
      using 3(2,4) p(3) assms(2) by (intro sound_path_length [of D b]) auto
    moreover have "r_Origin er = r_Origin r" using 3(3) by (simp add: slot_def source_def)
    ultimately show ?thesis using assms(3) 3(4) by (simp add: route_far_def path_length_def)
  qed (use assms(3) in \<open>auto simp: route_far_def path_length_def\<close>)
qed

lemma effect_HandleRouteUpdate:
  assumes "sound_node D b p" and "sound_msg D a data" and "HandleRouteUpdate peers now now' a data p = Return res"
    and "msg_far gone k data"
  shows "effect gone k p res"
proof (cases rule: HandleRouteUpdate_cases [of data peers now now' a p])
  case (withdraw msg)
  have "list_all (act_far gone m) (propagateExcept peers data a p)" for m
    using withdraw(1,2) by (intro propagate_far) (simp add: msg_far_def)
  with withdraw(3) assms(1,3) show ?thesis
    by (auto intro!: effect_kept simp: RemoveRoute_routes sound_node_def)
next
  case (stored msg changed table')
  have self: "p_selfID p = b" "length b = 16" using assms(1) by (simp_all add: sound_node_def)
  have sound: "sound_route D b (learnt a msg)"
    using assms(2)
  proof (cases rule: sound_msg_decodes)
    case (update r)
    then have msg: "msg = (advert a r)\<lparr>rm_Prefix := canon_IPNet (r_Destination r)\<rparr>" using stored(1) by simp
    then have "rm_ASPath msg = a # Hops (r_ASPath r)" by (simp add: advert_def)
    moreover have "length a = 16" using assms(2) by (simp add: sound_msg_def)
    ultimately show ?thesis
      using stored(3,4) self unfolding msg by (intro sound_learnt [OF update(1)]) simp_all
  qed (use stored(1,2) in auto)
  have far: "route_far gone k (learnt a msg)"
    using assms(4) stored(1,2) by (simp add: msg_far_def route_far_def path_length_def learnt_def)
  have "list_all (act_far gone (Suc m)) (snd res)" if "m \<le> k" for m
    using propagate_far [OF advert_far [OF sound self(2) route_far_mono [OF far that]]] stored(6) assms(3) self(1) by auto
  moreover have "x \<in> routes_of (p_table p) \<or> route_far gone k x" if "x \<in> routes_of (p_table (fst res))" for x
    using AddRoute_far [OF assms(1) sound far stored(5)] stored(6) assms(3) that by auto
  ultimately show ?thesis by (simp add: effect_def)
qed (use assms(3) in \<open>auto intro: effect_kept\<close>)

lemma effect_advertise:
  assumes "sound_node D b p" and "b \<noteq> gone"
  shows "effect gone k p (AdvertiseDirectNetworks clk p)"
proof -
  have own: "route_far gone m (own_route b nw)" for m nw using assms(2) by (simp add: route_far_def own_route_def)
  have nets: "x \<in> routes_of (p_table q) \<or> route_far gone k x"
    if "sound_node D b q" "list_all wf_IPNet nets" "canon_IPNet ` set nets \<subseteq> D b"
      "x \<in> routes_of (p_table (fst (advertise_nets clk i nets q)))" for i nets q x
    using that
  proof (induction nets arbitrary: i q)
    case (Cons nw nets)
    have self: "p_selfID q = b" "length b = 16" using Cons.prems(1) by (simp_all add: sound_node_def)
    have route: "sound_route D b (own_route b nw)" using Cons.prems self by (simp add: sound_own_route)
    let ?q = "q\<lparr>p_table := snd (AddRoute (clk (2 * i)) (clk (2 * i + 1)) (own_route b nw) (p_table q))\<rparr>"
    have "x \<in> routes_of (p_table ?q) \<or> route_far gone k x"
      using Cons.IH [OF sound_node_add [OF Cons.prems(1) route]] Cons.prems(2-4) self by (simp add: Let_def case_prod_beta)
    then show ?case using AddRoute_far [OF Cons.prems(1) route own surjective_pairing] by auto
  qed simp
  have "list_all (act_far gone (Suc m)) (snd (AdvertiseDirectNetworks clk p))" for m
    using assms(1) own
    by (auto simp: AdvertiseDirectNetworks_def advertise_nets_acts list_all_iff broadcast_def sound_node_def GetDirectNetworks_def
        split: if_splits intro!: advert_far [OF sound_own_route])
  with nets [OF assms(1)] assms(1) show ?thesis
    by (auto simp: effect_def AdvertiseDirectNetworks_def GetDirectNetworks_def sound_node_def)
qed

lemma effect_tick:
  assumes "sound_node D b p" and "b \<noteq> gone" and "range_order (rt_routes (p_table (fst (AdvertiseDirectNetworks clk p)))) order"
  shows "effect gone k p (advertise_tick clk order p)"
proof -
  let ?p = "fst (AdvertiseDirectNetworks clk p)"
  note adv = effect_advertise [OF assms(1,2), of k clk] and sound = sound_advertise [OF assms(1), of clk]
  have "msg_far gone (Suc m) (encodeRouteWithSelf b r)"
    if "m \<le> k" "\<forall>r\<in>routes_of (p_table p). route_far gone m r" "r \<in> routes_of (p_table ?p)" for m r
    using that adv sound by (intro advert_far [of D]) (auto simp: effect_def sound_node_def intro: route_far_mono)
  with adv sound set_GetAllRoutes [OF assms(3)] show ?thesis
    by (auto simp: effect_def advertise_tick_def case_prod_beta Let_def list_all_iff sound_node_def broadcast_def split: if_splits)
qed

lemma effect_peer_down:
  assumes "sound_node D b p" and "range_order (rt_routes (p_table p)) order" and "range_order (rt_routes (p_table p)) order'"
  shows "effect gone k p (WithdrawAllFromPeer order order' peer p)"
  unfolding WithdrawAllFromPeer_def Let_def
  using assms set_GetAllRoutes [OF assms(2)]
  by (intro effect_kept)
     (auto simp: RemoveAllFromOrigin_routes list_all_iff broadcast_def sound_node_def intro!: withdrawal_far [of D b] split: if_splits)

lemma GC_routes:
  "range_order (rt_routes rt) order \<Longrightarrow> routes_of (snd (GC order now ttl rt)) = {r \<in> routes_of rt. now - r_Timestamp r < ttl}"
  by (simp add: GC_eq range_order_def sweep_table)

text \<open>The effect of a step on the network: one message less, if one is taken, and new ones behind.\<close>

definition left_over :: "nat option \<Rightarrow> 'a list \<Rightarrow> 'a list" where
  "left_over l ms = (case l of None \<Rightarrow> ms | Some i \<Rightarrow> take i ms @ drop (Suc i) ms)"

definition flight_far :: "NodeID \<Rightarrow> nat \<Rightarrow> (NodeID \<times> NodeID \<times> bytes) list \<Rightarrow> bool" where
  "flight_far gone k ms \<longleftrightarrow> (\<forall>(a, b, data)\<in>set ms. msg_far gone k data)"

definition nodes_far :: "NodeID \<Rightarrow> nat \<Rightarrow> network \<Rightarrow> bool" where
  "nodes_far gone k net \<longleftrightarrow> (\<forall>b. \<forall>r\<in>routes_at net b. route_far gone k r)"

lemma act_effect:
  assumes "net_nodes net b = Some p" and "effect gone k p res" and "nodes_far gone m net" and "m \<le> k"
  shows "\<exists>new. net_flight (act b nbrs res net') = net_flight net' @ new \<and> flight_far gone (Suc m) new"
    and "net_nodes net' = net_nodes net \<Longrightarrow> r \<in> routes_at (act b nbrs res net') c \<Longrightarrow> r \<in> routes_at net c \<or> route_far gone k r"
proof -
  have "\<forall>r\<in>routes_of (p_table p). route_far gone m r" using assms(1,3) by (auto simp: nodes_far_def routes_at_def split: option.splits)
  with assms(2,4) have "list_all (act_far gone (Suc m)) (snd res)" by (simp add: effect_def)
  then have "flight_far gone (Suc m) (posts b nbrs (snd res))" unfolding flight_far_def using posts_far by blast
  then show "\<exists>new. net_flight (act b nbrs res net') = net_flight net' @ new \<and> flight_far gone (Suc m) new"
    by (auto simp: act_def)
  show "r \<in> routes_at net c \<or> route_far gone k r" if "net_nodes net' = net_nodes net" "r \<in> routes_at (act b nbrs res net') c"
    using that assms(1,2) by (auto simp: act_def routes_at_def effect_def split: if_splits)
qed

lemma move_cases:
  assumes "net_move l net net'" and "sound_parts D net" and "gone \<notin> dom (net_nodes net)" and "flight_far gone k (net_flight net)"
  obtains (acts) b p res nbrs where "net_nodes net b = Some p" "effect gone k p res"
      "net' = act b nbrs res (net\<lparr>net_flight := left_over l (net_flight net)\<rparr>)"
    | (quiet) "net_flight net' = left_over l (net_flight net)" "\<And>c. routes_at net' c \<subseteq> routes_at net c"
proof -
  have node: "sound_node D b p" "b \<noteq> gone" if "net_nodes net b = Some p" for b p
    using that assms(2,3) by (auto simp: sound_parts_def)
  have none: "left_over None ms = ms" for ms :: "(NodeID \<times> NodeID \<times> bytes) list" by (simp add: left_over_def)
  from assms(1) show thesis
  proof cases
    case (deliver b p xs a data ys peers now now' res nbrs)
    have "effect gone k p res"
      using effect_HandleRouteUpdate [OF node(1) [OF deliver(3)] _ deliver(5)] deliver(4) assms(2,4)
      by (auto simp: sound_parts_def flight_far_def)
    with acts [OF deliver(3) this, of nbrs] deliver show thesis by (simp add: left_over_def)
  next
    case (lose xs m ys)
    then show thesis by (intro quiet) (simp_all add: left_over_def routes_at_def)
  next
    case (advertise b p nbrs clk)
    with acts [OF advertise(3) effect_advertise [OF node [OF advertise(3)]], of nbrs] show thesis by (simp add: none)
  next
    case (tick b p clk order nbrs)
    with acts [OF tick(3) effect_tick [OF node [OF tick(3)] tick(4)], of nbrs] show thesis by (simp add: none)
  next
    case (peer_down b p order order' nbrs peer)
    with acts [OF peer_down(3) effect_peer_down [OF node(1) [OF peer_down(3)] peer_down(4,5)], of nbrs] show thesis by (simp add: none)
  next
    case (expire b p order now ttl)
    then show thesis by (intro quiet) (auto simp: none routes_at_def GC_routes split: if_splits)
  qed
qed

lemma move_effect:
  assumes "net_move l net net'" and "sound_parts D net" and "gone \<notin> dom (net_nodes net)" and "flight_far gone k (net_flight net)"
    and "nodes_far gone m net" and "m \<le> k"
  shows "\<exists>new. net_flight net' = left_over l (net_flight net) @ new \<and> flight_far gone (Suc m) new"
    and "r \<in> routes_at net' c \<Longrightarrow> r \<in> routes_at net c \<or> route_far gone k r"
proof -
  have "(\<exists>new. net_flight net' = left_over l (net_flight net) @ new \<and> flight_far gone (Suc m) new) \<and>
    (r \<in> routes_at net' c \<longrightarrow> r \<in> routes_at net c \<or> route_far gone k r)"
    using assms(1-4)
  proof (cases rule: move_cases)
    case (acts b p res nbrs)
    let ?net = "net\<lparr>net_flight := left_over l (net_flight net)\<rparr>"
    from act_effect(1) [OF acts(1,2) assms(5,6), of nbrs ?net] act_effect(2) [OF acts(1,2) assms(5,6), of ?net r nbrs c]
    show ?thesis unfolding acts(3) by simp
  next
    case quiet
    then show ?thesis by (auto simp: flight_far_def)
  qed
  then show "\<exists>new. net_flight net' = left_over l (net_flight net) @ new \<and> flight_far gone (Suc m) new"
    and "r \<in> routes_at net' c \<Longrightarrow> r \<in> routes_at net c \<or> route_far gone k r" by blast+
qed

subsection \<open>The two halves of a round\<close>

lemma move_sound:
  assumes "net_move l net net'" and "sound_parts D net"
  shows "sound_parts D net'" and "net_nodes net gone = None \<Longrightarrow> net_nodes net' gone = None"
  using assms net_move_iff sound_parts_step net_step_dom [of net net'] by (blast, metis domIff)

lemma flight_far_append [simp]: "flight_far gone k (xs @ ys) \<longleftrightarrow> flight_far gone k xs \<and> flight_far gone k ys"
  unfolding flight_far_def set_append ball_Un by blast

lemma flight_far_mono: "flight_far gone k ms \<Longrightarrow> m \<le> k \<Longrightarrow> flight_far gone m ms"
  by (fastforce simp: flight_far_def intro: msg_far_mono)

lemma flight_far_subset: "flight_far gone k ms \<Longrightarrow> set ms' \<subseteq> set ms \<Longrightarrow> flight_far gone k ms'"
  by (auto simp: flight_far_def)

lemma flight_far_left: "flight_far gone k ms \<Longrightarrow> flight_far gone k (left_over l ms)"
  by (erule flight_far_subset) (auto simp: left_over_def split: option.split dest: in_set_takeD in_set_dropD)

text \<open>The first half: \<open>n\<close> messages of the beginning are left.\<close>

definition aging :: "(NodeID \<Rightarrow> IPNet set) \<Rightarrow> NodeID \<Rightarrow> nat \<Rightarrow> nat \<times> network \<Rightarrow> bool" where
  "aging D gone k x \<longleftrightarrow> sound_parts D (snd x) \<and> gone \<notin> dom (net_nodes (snd x)) \<and> nodes_far gone k (snd x) \<and>
     fst x \<le> length (net_flight (snd x)) \<and> flight_far gone k (net_flight (snd x)) \<and>
     flight_far gone (Suc k) (drop (fst x) (net_flight (snd x)))"

lemma drop_left_over:
  assumes "i < length ms" and "n \<le> length ms"
  shows "(if i < n then n - 1 else n) \<le> length (left_over (Some i) ms) \<and>
    set (drop (if i < n then n - 1 else n) (left_over (Some i) ms)) \<subseteq> set (drop n ms)"
proof (cases "i < n")
  case True
  then have "drop (n - 1) (take i ms @ drop (Suc i) ms) = drop n ms" using assms by (simp add: min_def)
  with True assms show ?thesis by (simp add: left_over_def)
next
  case False
  have "set (drop n (take i ms)) \<subseteq> set (drop n ms)" by (metis append_take_drop_id drop_append le_sup_iff order_refl set_append)
  moreover have "set (drop (Suc i) ms) \<subseteq> set (drop n ms)" using False by (simp add: set_drop_subset_set_drop)
  ultimately show ?thesis using False assms by (auto simp: left_over_def)
qed

lemma aging_step:
  assumes "ages x y" and "aging D gone k x"
  shows "aging D gone k y"
  using assms(1)
proof cases
  case (takes i net net' n)
  have i: "i < length (net_flight net)" using takes(3) by cases auto
  note inv = assms(2) [unfolded aging_def takes(1), simplified]
  obtain new where new: "net_flight net' = left_over (Some i) (net_flight net) @ new" "flight_far gone (Suc k) new"
    using move_effect(1) [OF takes(3), of D gone k k] inv by auto
  have far: "nodes_far gone k net'"
    using move_effect(2) [OF takes(3), of D gone k k] inv unfolding nodes_far_def by blast
  have "flight_far gone k (left_over (Some i) (net_flight net))"
    using inv by (simp add: flight_far_left)
  moreover have "flight_far gone (Suc k) (drop (if i < n then n - 1 else n) (left_over (Some i) (net_flight net)))"
    using drop_left_over [OF i, of n] inv by (blast intro: flight_far_subset)
  moreover have "(if i < n then n - 1 else n) \<le> length (left_over (Some i) (net_flight net))"
    using drop_left_over [OF i, of n] inv by blast
  ultimately show ?thesis
    using move_sound [OF takes(3)] inv far new flight_far_mono [OF new(2), of k]
    by (auto simp: aging_def takes(2))
next
  case (leaves net net' n)
  note inv = assms(2) [unfolded aging_def leaves(1), simplified]
  obtain new where new: "net_flight net' = net_flight net @ new" "flight_far gone (Suc k) new"
    using move_effect(1) [OF leaves(3), of D gone k k] inv by (auto simp: left_over_def)
  have far: "nodes_far gone k net'"
    using move_effect(2) [OF leaves(3), of D gone k k] inv unfolding nodes_far_def by blast
  show ?thesis
    using move_sound [OF leaves(3)] inv far new flight_far_mono [OF new(2), of k]
    by (auto simp: aging_def leaves(2))
qed

text \<open>The second half: the nodes \<open>S\<close> may still have old routes.\<close>

definition sweeping :: "(NodeID \<Rightarrow> IPNet set) \<Rightarrow> NodeID \<Rightarrow> nat \<Rightarrow> network \<Rightarrow> NodeID set \<times> network \<Rightarrow> bool" where
  "sweeping D gone k old x \<longleftrightarrow> sound_parts D (snd x) \<and> gone \<notin> dom (net_nodes (snd x)) \<and>
     flight_far gone (Suc k) (net_flight (snd x)) \<and>
     (\<forall>b. \<forall>r\<in>routes_at (snd x) b. route_far gone (Suc k) r \<or> b \<in> fst x \<and> r \<in> routes_at old b)"

lemma sweeping_step:
  assumes "sweeps old x y" and "sweeping D gone k old x" and "nodes_far gone k old"
  shows "sweeping D gone k old y"
  using assms(1)
proof cases
  case (moves net net' S)
  note inv = assms(2) [unfolded sweeping_def moves(1), simplified]
  obtain l where l: "net_move l net net'" using moves(3) net_move_iff by blast
  have far: "nodes_far gone k net"
    using inv assms(3) unfolding nodes_far_def by (meson Suc_n_not_le_n nat_le_linear route_far_mono)
  have "flight_far gone (Suc k) (net_flight net')"
    using move_effect(1) [OF l, of D gone "Suc k" k] inv far by (auto simp: flight_far_left)
  moreover have "route_far gone (Suc k) r \<or> b \<in> S \<and> r \<in> routes_at old b" if "r \<in> routes_at net' b" for r b
    using move_effect(2) [OF l, of D gone "Suc k" k r b] that inv far by auto
  ultimately show ?thesis using move_sound [OF l] inv by (auto simp: sweeping_def moves(2))
next
  case (expires net b p order ttl now S)
  note inv = assms(2) [unfolded sweeping_def expires(1), simplified]
  note sound = sound_parts_step [OF net_step.expire [OF expires(3,4), of now ttl]] net_step_dom [OF net_step.expire [OF expires(3,4), of now ttl]]
  have kept: "route_far gone (Suc k) r" if "r \<in> routes_of (p_table p)" "now - r_Timestamp r < ttl" for r
  proof -
    have "r \<in> routes_at net b" using that(1) expires(3) by (simp add: routes_at_def)
    moreover have "r \<notin> routes_at old b" using that(2) expires(5) by auto
    ultimately show ?thesis using inv by blast
  qed
  then show ?thesis
    using sound inv expires(3,4) by (auto simp: sweeping_def expires(2) routes_at_def GC_routes split: if_splits)
qed

lemma round_farther:
  assumes "expiry_round net net'" and "sound_parts D net" and "gone \<notin> dom (net_nodes net)" and "nodes_far gone k net"
    and "flight_far gone k (net_flight net)"
  shows "sound_parts D net' \<and> gone \<notin> dom (net_nodes net') \<and> nodes_far gone (Suc k) net' \<and> flight_far gone (Suc k) (net_flight net')"
proof -
  obtain old where old: "ages\<^sup>*\<^sup>* (length (net_flight net), net) (0, old)" "(sweeps old)\<^sup>*\<^sup>* (dom (net_nodes old), old) ({}, net')"
    using assms(1) by (auto simp: expiry_round_def)
  have "aging D gone k (length (net_flight net), net)" using assms(2-5) by (simp add: aging_def flight_far_def)
  from old(1) this have aged: "aging D gone k (0, old)"
    by (induction rule: rtranclp_induct) (auto intro: aging_step)
  then have far: "nodes_far gone k old" by (simp add: aging_def)
  have "sweeping D gone k old (dom (net_nodes old), old)"
    using aged by (auto simp: aging_def sweeping_def routes_at_def split: option.splits)
  from old(2) this have "sweeping D gone k old ({}, net')"
    by (induction rule: rtranclp_induct) (auto intro: sweeping_step [OF _ _ far])
  then show ?thesis by (auto simp: sweeping_def nodes_far_def)
qed

subsection \<open>Properties\<close>

lemma crash_far:
  assumes "sound_under D net"
  shows "sound_parts D (crash gone net)" and "gone \<notin> dom (net_nodes (crash gone net))"
    and "nodes_far gone 1 (crash gone net)" and "flight_far gone 1 (net_flight (crash gone net))"
proof -
  have parts: "sound_parts D net" using assms by (simp add: sound_under_def)
  then show "sound_parts D (crash gone net)" and "gone \<notin> dom (net_nodes (crash gone net))"
    by (auto simp: sound_parts_def crash_def)
  have "route_far gone 1 r" if "r \<in> routes_at (crash gone net) b" for b r
  proof -
    have "sound_path b r" "b \<noteq> gone"
      using that parts by (auto simp: routes_at_def crash_def sound_parts_def sound_node_def sound_route_def split: option.splits if_splits)
    then show ?thesis by (auto simp: sound_path_def Let_def route_far_def path_length_def Suc_le_eq split: if_splits)
  qed
  then show "nodes_far gone 1 (crash gone net)" by (simp add: nodes_far_def)
  have "msg_far gone 1 data" if "sound_msg D a data" for a data
    using that by (cases rule: sound_msg_decodes) (auto simp: msg_far_def advert_def)
  with parts show "flight_far gone 1 (net_flight (crash gone net))"
    by (fastforce simp: flight_far_def sound_parts_def crash_def)
qed

text \<open>
  C5: Routes to a node that is gone die out. From any state that a network of nodes can reach, let a
  node disappear, and let any number of rounds pass, whatever the others do meanwhile. A route to that
  node that is left after \<open>n\<close> rounds has a path of more than \<open>n\<close> hops; paths have at most 31, so after 31
  rounds no node has a route to it. In particular nodes do not keep each other's routes alive.
\<close>

theorem stale_routes_vanish:
  assumes "net_initial net0" and "net_step\<^sup>*\<^sup>* net0 net" and "(expiry_round ^^ n) (crash gone net) net'"
    and "net_nodes net' b = Some p" and "r \<in> routes_of (p_table p)" and "r_Origin r = gone"
  shows "n < length (Hops (r_ASPath r)) \<and> n < 31"
proof -
  have sound: "sound_under (served net) net" using net.reachable_inv [OF assms(1,2)] by (simp add: sound_net_def)
  from assms(3) have "sound_parts (served net) net' \<and> gone \<notin> dom (net_nodes net') \<and> nodes_far gone (Suc n) net' \<and>
      flight_far gone (Suc n) (net_flight net')"
  proof (induction n arbitrary: net')
    case 0
    then show ?case using crash_far [OF sound, of gone] by (simp add: numeral_eq_Suc)
  next
    case (Suc n)
    then obtain net1 where "(expiry_round ^^ n) (crash gone net) net1" "expiry_round net1 net'" by auto
    with Suc.IH round_farther show ?case by blast
  qed
  then have "Suc n \<le> path_length r" "sound_node (served net) b p"
    using assms(4-6) by (auto simp: nodes_far_def routes_at_def route_far_def sound_parts_def split: option.splits)
  moreover from this have "path_length r < 32"
    using assms(5) by (auto simp: sound_node_def sound_route_def wf_Route_def ASPath_Len_def path_length_def)
  ultimately show ?thesis by (simp add: path_length_def)
qed

text \<open>A node alone: it can always expire what it has, so that there are as many rounds as one likes.\<close>

definition lonely :: "NodeID \<Rightarrow> network \<Rightarrow> bool" where
  "lonely b net \<longleftrightarrow> net_flight net = [] \<and> dom (net_nodes net) = {b} \<and> finite (dom (rt_routes (p_table (the (net_nodes net b)))))"

lemma lonely_round:
  assumes "lonely b net"
  shows "\<exists>net'. expiry_round net net' \<and> lonely b net'"
proof -
  have dom: "net_flight net = []" "dom (net_nodes net) = {b}" using assms by (simp_all add: lonely_def)
  then obtain p where p: "net_nodes net b = Some p" by auto
  then have fin: "finite (dom (rt_routes (p_table p)))" using assms by (simp add: lonely_def)
  obtain order where order: "range_order (rt_routes (p_table p)) order"
    using finite_distinct_list [OF fin] by (auto simp: range_order_def)
  have "finite (routes_of (p_table p))" using fin by (simp add: routes_of_def finite_ran)
  then obtain now where now: "\<forall>r\<in>routes_of (p_table p). r_Timestamp r \<le> now"
    by (metis (mono_tags, lifting) Max_ge finite_imageI imageI)
  let ?p = "p\<lparr>p_table := snd (GC order now 0 (p_table p))\<rparr>"
  let ?net = "net\<lparr>net_nodes := (net_nodes net)(b \<mapsto> ?p)\<rparr>"
  have "sweeps net (dom (net_nodes net), net) (dom (net_nodes net) - {b}, ?net)"
    using p order now by (intro sweeps.expires) (auto simp: routes_at_def)
  then have "sweeps net (dom (net_nodes net), net) ({}, ?net)" by (simp add: dom(2))
  moreover have "ages\<^sup>*\<^sup>* (length (net_flight net), net) (0, net)" by (simp add: dom(1))
  ultimately have "expiry_round net ?net" unfolding expiry_round_def by blast
  moreover have "dom (fold (sweep_key keep) order' m) \<subseteq> dom m" for keep order' and m :: "string \<rightharpoonup> Route list"
    by (induction order' arbitrary: m) (fastforce simp: sweep_key_def Let_def split: option.splits if_splits)+
  then have "finite (dom (rt_routes (p_table ?p)))"
    using order finite_subset [OF _ fin] by (simp add: GC_eq range_order_def)
  ultimately show ?thesis using dom by (intro exI [of _ ?net]) (simp add: lonely_def)
qed

lemma lonely_rounds: "lonely b net \<Longrightarrow> \<exists>net'. (expiry_round ^^ n) net net' \<and> lonely b net'"
proof (induction n)
  case (Suc n)
  then obtain net' where "(expiry_round ^^ n) net net'" "lonely b net'" by blast
  with lonely_round show ?case by (metis relcomppI relpowp.simps(2))
qed auto

text \<open>The second node of the example has learnt a route to the first when that one disappears.\<close>

theorem stale_routes_vanish_witness:
  "\<exists>net net' p p'. net_step\<^sup>*\<^sup>* example_mesh net \<and> net_nodes net (replicate 16 2) = Some p \<and>
     (\<exists>r\<in>routes_of (p_table p). r_Origin r = replicate 16 1) \<and> (expiry_round ^^ 31) (crash (replicate 16 1) net) net' \<and>
     net_nodes net' (replicate 16 2) = Some p' \<and> (\<forall>r\<in>routes_of (p_table p'). r_Origin r \<noteq> replicate 16 1)"
proof -
  let ?a = "replicate 16 1 :: NodeID" and ?b = "replicate 16 2 :: NodeID"
  obtain net where net: "net_step example_mesh net" "net_flight net = [(?a, ?b, example_advert)]" "net_nodes net ?b = Some (serving ?b [])"
    using example_mesh_advertises by blast
  let ?res = "HandleRouteUpdate [] 0 0 ?a example_advert (serving ?b [])"
  have "case ?res of Return (p, acts) \<Rightarrow> acts = [] \<and> list_ex (\<lambda>r. r_Origin r = ?a) (the (rt_routes (p_table p) ''10.0.0.0/8'')) \<and>
      rt_routes (p_table p) ''10.0.0.0/8'' \<noteq> None | _ \<Rightarrow> False"
    by code_simp
  then obtain p where res: "?res = Return (p, [])" and r: "\<exists>r\<in>routes_of (p_table p). r_Origin r = ?a"
    by (cases ?res) (fastforce simp: list_ex_iff routes_of_def intro: ranI)+
  let ?net = "act ?b [] (p, []) (net\<lparr>net_flight := []\<rparr>)"
  have "net_step net ?net" using net_step.deliver [OF net(3), of "[]" _ _ "[]"] net(2) res by simp
  with net(1) have steps: "net_step\<^sup>*\<^sup>* example_mesh ?net" by (simp add: converse_rtranclp_into_rtranclp)
  have fin: "finite (dom (rt_routes (p_table p)))"
  proof (cases rule: HandleRouteUpdate_cases [of example_advert "[]" 0 0 ?a "serving ?b []"])
    case (stored msg changed table')
    then have "p_table p = snd (AddRoute 0 0 (learnt ?a msg) (p_table (serving ?b [])))" using res by simp
    then show ?thesis
      by (simp add: AddRoute_def Let_def serving_def SetPeersFunc_def SetBroadcaster_def SetSender_def NewPropagator_def
          SetDirectNetworks_def NewRoutingTable_def)
  qed (use res in \<open>auto simp: RemoveRoute_def serving_def SetPeersFunc_def SetBroadcaster_def SetSender_def NewPropagator_def
          SetDirectNetworks_def NewRoutingTable_def Let_def\<close>)
  have "dom (net_nodes net) = dom (net_nodes example_mesh)" by (rule net_step_dom [OF net(1)])
  moreover have "?b \<noteq> ?a" by code_simp
  ultimately have "dom (net_nodes (crash ?a ?net)) = {?b}" "net_nodes (crash ?a ?net) ?b = Some p"
    by (auto simp: crash_def act_def example_mesh_def)
  then have "lonely ?b (crash ?a ?net)" using fin by (simp add: lonely_def) (simp add: crash_def act_def posts_def)
  then obtain net' p' where rounds: "(expiry_round ^^ 31) (crash ?a ?net) net'" "net_nodes net' ?b = Some p'"
    using lonely_rounds [of ?b "crash ?a ?net" 31] unfolding lonely_def by (metis domD insertI1)
  have "r_Origin r \<noteq> ?a" if "r \<in> routes_of (p_table p')" for r
    using stale_routes_vanish [OF example_mesh_initial steps rounds that] by auto
  moreover have "net_nodes ?net ?b = Some p" by (simp add: act_def)
  ultimately show ?thesis using steps r rounds by blast
qed

end
