(* ===== verification/Go_Addr.thy ===== *)
theory Go_Addr
  imports Go_Net
begin

text \<open>
  The text forms of addresses the program reads: \<open>net.ParseIP\<close>, \<open>net.ParseCIDR\<close>,
  \<open>net.SplitHostPort\<close>, \<open>net.JoinHostPort\<close> and the decimal numbers of \<open>fmt.Sscanf\<close> and
  \<open>strconv\<close>. A call that returns an error is \<open>None\<close>: the callers only look at whether there is
  one. Shown: what \<open>IP.String\<close> prints, \<open>ParseIP\<close> reads back, for IPv4 and for IPv6 with its
  run of zero groups left out; and \<open>SplitHostPort\<close> undoes \<open>JoinHostPort\<close>.
\<close>

subsection \<open>Digits\<close>

definition decval :: "char \<Rightarrow> nat option" where
  "decval c = (let n = of_char c :: nat in if 48 \<le> n \<and> n \<le> 57 then Some (n - 48) else None)"

definition hexval :: "char \<Rightarrow> nat option" where
  "hexval c =
     (let n = of_char c :: nat
      in if 48 \<le> n \<and> n \<le> 57 then Some (n - 48)
         else if 97 \<le> n \<and> n \<le> 102 then Some (n - 87)
         else if 65 \<le> n \<and> n \<le> 70 then Some (n - 55) else None)"

definition number :: "nat \<Rightarrow> (char \<Rightarrow> nat option) \<Rightarrow> string \<Rightarrow> nat" where
  "number base val s = foldl (\<lambda>acc c. base * acc + the (val c)) 0 s"

subsection \<open>Addresses\<close>

text \<open>
  The fields of a dotted address: \<open>fld\<close> are those complete, \<open>val\<close> and \<open>digLen\<close> the value
  and the number of digits of the current one.
\<close>

fun parseIPv4Fields :: "bytes \<Rightarrow> nat \<Rightarrow> nat \<Rightarrow> string \<Rightarrow> bytes option" where
  "parseIPv4Fields fld val digLen [] =
     (if length fld < 3 then None else Some (fld @ [of_nat val]))"
| "parseIPv4Fields fld val digLen (c # s) =
     (case decval c of
        Some d \<Rightarrow>
          if digLen = 1 \<and> val = 0 then None
          else if val * 10 + d > 255 then None
          else parseIPv4Fields fld (val * 10 + d) (digLen + 1) s
      | None \<Rightarrow>
          if c \<noteq> CHR ''.'' then None
          else if digLen = 0 \<or> s = [] then None
          else if length fld = 3 then None
          else parseIPv4Fields (fld @ [of_nat val]) 0 0 s)"

text \<open>One group of an IPv6 address: at most four hexadecimal digits, and what follows them.\<close>

definition hex_group :: "string \<Rightarrow> (nat \<times> string) option" where
  "hex_group s =
     (let digs = takeWhile (\<lambda>c. hexval c \<noteq> None) s
      in if digs = [] \<or> length digs > 4 then None
         else Some (number 16 hexval digs, drop (length digs) s))"

lemma hex_group_shorter: "hex_group s = Some (g, rest) \<Longrightarrow> length rest < length s"
  by (cases s) (auto simp: hex_group_def Let_def split: if_splits)

text \<open>
  The loop over the groups: \<open>ip\<close> are the bytes so far, \<open>ell\<close> the position of the ellipsis.
  It stops when sixteen bytes are there or the text ends.
\<close>

function parseIPv6_loop :: "bytes \<Rightarrow> nat option \<Rightarrow> string \<Rightarrow> (bytes \<times> nat option \<times> string) option" where
  "parseIPv6_loop ip ell s =
     (if length ip \<ge> 16 then Some (ip, ell, s)
      else (case hex_group s of
        None \<Rightarrow> None
      | Some (acc, rest) \<Rightarrow>
          if rest \<noteq> [] \<and> hd rest = CHR ''.'' then
            (if ell = None \<and> length ip \<noteq> 12 then None
             else if length ip + 4 > 16 then None
             else map_option (\<lambda>f. (ip @ f, ell, [])) (parseIPv4Fields [] 0 0 s))
          else (let ip' = ip @ [of_nat (acc div 256), of_nat (acc mod 256)]
            in if rest = [] then Some (ip', ell, [])
               else if hd rest \<noteq> CHR '':'' \<or> tl rest = [] then None
               else if hd (tl rest) = CHR '':'' then
                 (if ell \<noteq> None then None
                  else if tl (tl rest) = [] then Some (ip', Some (length ip'), [])
                  else parseIPv6_loop ip' (Some (length ip')) (tl (tl rest)))
               else parseIPv6_loop ip' ell (tl rest))))"
  by pat_completeness auto
termination
  by (relation "measure (\<lambda>(ip, ell, s). length s)") (auto dest: hex_group_shorter)

declare parseIPv6_loop.simps [simp del]

definition parseIPv6 :: "string \<Rightarrow> bytes option" where
  "parseIPv6 s =
     (let leading = take 2 s = ''::''; s' = (if leading then drop 2 s else s)
      in if leading \<and> s' = [] then Some (replicate 16 0)
         else (case parseIPv6_loop [] (if leading then Some 0 else None) s' of
             None \<Rightarrow> None
           | Some (ip, ell, rest) \<Rightarrow>
               if rest \<noteq> [] then None
               else if length ip < 16 then
                 (case ell of None \<Rightarrow> None
                  | Some e \<Rightarrow> Some (take e ip @ replicate (16 - length ip) 0 @ drop e ip))
               else if ell \<noteq> None then None else Some ip))"

text \<open>
  An address with a zone is not an IP. The first of the characters dot, colon and percent
  decides between the two forms; the result is always sixteen bytes long, together with the
  number of bits of the form that was read.
\<close>

fun parseAddr :: "string \<Rightarrow> string \<Rightarrow> (IP \<times> nat) option" where
  "parseAddr s [] = None"
| "parseAddr s (c # rest) =
     (if c = CHR ''.'' then map_option (\<lambda>f. (To16 f, 32)) (parseIPv4Fields [] 0 0 s)
      else if c = CHR '':'' then (if CHR ''%'' \<in> set s then None else map_option (\<lambda>ip. (ip, 128)) (parseIPv6 s))
      else if c = CHR ''%'' then None
      else parseAddr s rest)"

definition ParseIP :: "string \<Rightarrow> IP option" where
  "ParseIP s = map_option fst (parseAddr s s)"

subsection \<open>Prefixes\<close>

definition IP_Mask :: "IP \<Rightarrow> IPMask \<Rightarrow> IP" where
  "IP_Mask ip m =
     (let mm = (if length m = 16 \<and> length ip = 4 \<and> list_all (\<lambda>b. b = 255) (take 12 m)
                   then drop 12 m else m);
          ip' = (if length mm = 4 \<and> length ip = 16 \<and> take 12 ip = replicate 10 0 @ [255, 255]
                 then drop 12 ip else ip)
      in if length ip' \<noteq> length mm then [] else map2 (AND) ip' mm)"

text \<open>The number at the start of a text; none when it is missing or at least \<open>0xFFFFFF\<close>.\<close>

fun dtoi_loop :: "nat \<Rightarrow> string \<Rightarrow> (nat \<times> string) option" where
  "dtoi_loop n [] = Some (n, [])"
| "dtoi_loop n (c # s) =
     (case decval c of
        None \<Rightarrow> Some (n, c # s)
      | Some d \<Rightarrow> if n * 10 + d \<ge> 0xFFFFFF then None else dtoi_loop (n * 10 + d) s)"

definition dtoi :: "string \<Rightarrow> (nat \<times> string) option" where
  "dtoi s = (if s = [] \<or> decval (hd s) = None then None else dtoi_loop 0 s)"

fun split_first :: "'a \<Rightarrow> 'a list \<Rightarrow> ('a list \<times> 'a list) option" where
  "split_first c [] = None"
| "split_first c (x # s) =
     (if x = c then Some ([], s) else map_option (\<lambda>(a, b). (x # a, b)) (split_first c s))"

fun split_last :: "'a \<Rightarrow> 'a list \<Rightarrow> ('a list \<times> 'a list) option" where
  "split_last c [] = None"
| "split_last c (x # s) =
     (case split_last c s of
        Some (a, b) \<Rightarrow> Some (x # a, b)
      | None \<Rightarrow> if x = c then Some ([], s) else None)"

definition ParseCIDR :: "string \<Rightarrow> (IP \<times> IPNet) option" where
  "ParseCIDR s =
     (case split_first (CHR ''/'') s of
        None \<Rightarrow> None
      | Some (addr, m) \<Rightarrow>
          (case parseAddr addr addr of
             None \<Rightarrow> None
           | Some (ip, bits) \<Rightarrow>
               (case dtoi m of
                  None \<Rightarrow> None
                | Some (n, rest) \<Rightarrow>
                    if rest \<noteq> [] \<or> n > bits then None
                    else Some (ip, \<lparr>ipn_IP = IP_Mask ip (CIDRMask n bits), ipn_Mask = CIDRMask n bits\<rparr>))))"

subsection \<open>Host and port\<close>

definition JoinHostPort :: "string \<Rightarrow> string \<Rightarrow> string" where
  "JoinHostPort host port =
     (if CHR '':'' \<in> set host then ''['' @ host @ '']:'' @ port else host @ '':'' @ port)"

definition SplitHostPort :: "string \<Rightarrow> (string \<times> string) option" where
  "SplitHostPort s =
     (case split_last (CHR '':'') s of
        None \<Rightarrow> None
      | Some (pre, port) \<Rightarrow>
          if hd s = CHR ''['' then
            (case split_first (CHR '']'') s of
               None \<Rightarrow> None
             | Some (inner, after) \<Rightarrow>
                 if length inner + 1 \<noteq> length pre then None
                 else if CHR ''['' \<in> set (tl s) \<or> CHR '']'' \<in> set after then None
                 else Some (tl inner, port))
          else if CHR '':'' \<in> set pre then None
          else if CHR ''['' \<in> set s \<or> CHR '']'' \<in> set s then None
          else Some (pre, port))"

text \<open>
  \<open>fmt.Sscanf(s, "%d", &v)\<close> with a 16-bit \<open>v\<close>: leading white space is skipped (a newline is an
  error), the longest run of digits is the number, what follows is ignored. White space is that
  of Unicode, in UTF-8.
\<close>

definition go_spaces :: "nat list list" where
  "go_spaces = [[9], [11], [12], [13], [32], [194, 133], [194, 160], [225, 154, 128]]
     @ map (\<lambda>n. [226, 128, n]) ([128..<139] @ [168, 169, 175]) @ [[226, 129, 159], [227, 128, 128]]"

definition space_prefix :: "string \<Rightarrow> nat" where
  "space_prefix s =
     (case find (\<lambda>w. take (length w) s = map char_of w) go_spaces of None \<Rightarrow> 0 | Some w \<Rightarrow> length w)"

fun skip_space :: "nat \<Rightarrow> string \<Rightarrow> string" where
  "skip_space 0 s = s"
| "skip_space (Suc k) s = (if space_prefix s = 0 then s else skip_space k (drop (space_prefix s) s))"

definition Sscanf_uint16 :: "string \<Rightarrow> uint16 option" where
  "Sscanf_uint16 s =
     (let digs = takeWhile (\<lambda>c. decval c \<noteq> None) (skip_space (length s) s); n = number 10 decval digs
      in if digs = [] \<or> n \<ge> 65536 then None else Some (of_nat n))"

subsection \<open>Lemmas on digits\<close>

lemma decval_hexdigit [simp]: "d < 10 \<Longrightarrow> decval (hexdigit d) = Some d"
proof -
  have "list_all (\<lambda>d. decval (hexdigit d) = Some d) [0..<10]" by code_simp
  then show "d < 10 \<Longrightarrow> decval (hexdigit d) = Some d" by (simp add: list_all_iff)
qed

lemma hexval_hexdigit [simp]: "d < 16 \<Longrightarrow> hexval (hexdigit d) = Some d"
proof -
  have "list_all (\<lambda>d. hexval (hexdigit d) = Some d) [0..<16]" by code_simp
  then show "d < 16 \<Longrightarrow> hexval (hexdigit d) = Some d" by (simp add: list_all_iff)
qed

lemma punctuation_no_digit [simp]:
  "hexval (CHR '':'') = None" "hexval (CHR ''.'') = None" "hexval (CHR ''['') = None" "hexval (CHR '']'') = None"
  "hexval (CHR ''%'') = None" "decval (CHR '':'') = None" "decval (CHR ''.'') = None" "decval (CHR ''/'') = None"
  "decval (CHR ''%'') = None" "decval (CHR ''['') = None" "decval (CHR '']'') = None"
  by code_simp+

lemma number_append: "number b v (s @ [c]) = b * number b v s + the (v c)"
  by (simp add: number_def)

lemma itoa_digits: "list_all (\<lambda>c. decval c \<noteq> None) (itoa n) \<and> number 10 decval (itoa n) = n \<and> itoa n \<noteq> []"
proof (induction n rule: itoa.induct)
  case (1 n)
  then show ?case
    by (cases "n < 10") (auto simp: itoa.simps [of n] number_append number_def)
qed

lemma hex_of_nat_digits:
  "list_all (\<lambda>c. hexval c \<noteq> None) (hex_of_nat n) \<and> number 16 hexval (hex_of_nat n) = n \<and> hex_of_nat n \<noteq> []"
proof (induction n rule: hex_of_nat.induct)
  case (1 n)
  then show ?case
    by (cases "n < 16") (auto simp: hex_of_nat.simps [of n] number_append number_def)
qed

lemma length_hex_of_nat: "n < 16 ^ Suc k \<Longrightarrow> length (hex_of_nat n) \<le> Suc k"
proof (induction k arbitrary: n)
  case 0
  then show ?case by (simp add: hex_of_nat.simps [of n])
next
  case (Suc k)
  then have "n div 16 < 16 ^ Suc k" by (simp add: less_mult_imp_div_less mult.commute)
  from Suc.IH [OF this] show ?case by (simp add: hex_of_nat.simps [of n])
qed

lemma takeWhile_digits: "list_all P ds \<Longrightarrow> s = [] \<or> \<not> P (hd s) \<Longrightarrow> takeWhile P (ds @ s) = ds"
  by (induction ds) (cases s; simp)+

lemma hex_group_printed:
  "g < 65536 \<Longrightarrow> s = [] \<or> hexval (hd s) = None \<Longrightarrow> hex_group (hex_of_nat g @ s) = Some (g, s)"
  using hex_of_nat_digits [of g] length_hex_of_nat [of g 3]
  by (simp add: hex_group_def takeWhile_digits)

lemma itoa_byte_cases:
  assumes "n < 256"
  obtains (one) "n < 10" "itoa n = [hexdigit n]"
  | (two) "10 \<le> n" "n < 100" "itoa n = [hexdigit (n div 10), hexdigit (n mod 10)]"
  | (three) "100 \<le> n" "itoa n = [hexdigit (n div 100), hexdigit (n div 10 mod 10), hexdigit (n mod 10)]"
proof -
  consider "n < 10" | "10 \<le> n" "n < 100" | "100 \<le> n" by linarith
  then show thesis
  proof cases
    case 1
    with one show thesis by (simp add: itoa.simps [of n])
  next
    case 2
    then have "n div 10 < 10" by (simp add: less_mult_imp_div_less)
    with 2 two show thesis by (simp add: itoa.simps [of n] itoa.simps [of "n div 10"])
  next
    case 3
    then have "\<not> n div 10 < 10" "n div 100 < 10" "n div 10 div 10 = n div 100"
      using assms by (simp_all add: less_mult_imp_div_less div_mult2_eq [of n 10 10, simplified] div_less_iff_less_mult)
    with 3 three show thesis
      by (simp add: itoa.simps [of n] itoa.simps [of "n div 10"] itoa.simps [of "n div 100"])
  qed
qed

subsection \<open>Reading what is printed\<close>

lemma parseIPv4Fields_itoa:
  assumes "n < 256"
  shows "parseIPv4Fields fld 0 0 (itoa n @ s) = parseIPv4Fields fld n (length (itoa n)) s"
  using assms
proof (cases rule: itoa_byte_cases)
  case three
  have "n div 100 < 10" "n div 100 * 10 + n div 10 mod 10 = n div 10" "0 < n div 100" "n div 10 \<le> 25"
    using assms three(1) by (simp_all add: div_mult2_eq [of n 10 10, simplified])
  with three assms show ?thesis by simp
next
  case two
  have "n div 10 < 10" "0 < n div 10" using two by (simp_all add: less_mult_imp_div_less div_greater_zero_iff)
  with two assms show ?thesis by simp
qed simp

lemma parseIPv4Fields_dot:
  "0 < k \<Longrightarrow> s \<noteq> [] \<Longrightarrow> length fld < 3 \<Longrightarrow>
     parseIPv4Fields fld n k (CHR ''.'' # s) = parseIPv4Fields (fld @ [of_nat n]) 0 0 s"
  by simp

lemma parseIPv4_String:
  assumes "length ip = 4"
  shows "parseIPv4Fields [] 0 0 (join_with ''.'' (map (itoa \<circ> unat) ip)) = Some ip"
proof -
  obtain a b c d where ip: "ip = [a, b, c, d]" using assms by (auto simp: length4_conv)
  have lt: "unat x < 256" for x :: byte using unsigned_less [of x] by simp
  have ne: "itoa n \<noteq> []" "0 < length (itoa n)" for n using itoa_digits [of n] by auto
  show ?thesis
    by (simp add: ip parseIPv4Fields_itoa [OF lt] parseIPv4Fields_dot ne lt del: parseIPv4Fields.simps(2))
      (simp add: parseIPv4Fields_itoa [OF lt, of _ _ "[]", simplified])
qed

definition group_bytes :: "nat list \<Rightarrow> bytes" where
  "group_bytes gs = concat (map (\<lambda>g. [of_nat (g div 256), of_nat (g mod 256)]) gs)"

abbreviation hexes :: "nat list \<Rightarrow> string" where
  "hexes gs \<equiv> join_with '':'' (map hex_of_nat gs)"

lemma group_bytes_simps [simp]:
  "group_bytes [] = []" "group_bytes (g # gs) = of_nat (g div 256) # of_nat (g mod 256) # group_bytes gs"
  "group_bytes (xs @ ys) = group_bytes xs @ group_bytes ys"
  by (simp_all add: group_bytes_def)

lemma length_group_bytes [simp]: "length (group_bytes gs) = 2 * length gs"
  by (induction gs) simp_all

lemma group_bytes_zero: "group_bytes (replicate n 0) = replicate (2 * n) 0"
  by (induction n) simp_all

lemma hexes_hd: "gs \<noteq> [] \<Longrightarrow> hexes gs \<noteq> [] \<and> hexval (hd (hexes gs)) \<noteq> None"
proof -
  have hex: "hex_of_nat g \<noteq> [] \<and> hexval (hd (hex_of_nat g)) \<noteq> None" for g
    using hex_of_nat_digits [of g] by (cases "hex_of_nat g") auto
  then show "gs \<noteq> [] \<Longrightarrow> hexes gs \<noteq> [] \<and> hexval (hd (hexes gs)) \<noteq> None"
    by (induction gs rule: induct_list012) (auto simp del: not_None_eq)
qed

lemma hexes_no_colon: "gs \<noteq> [] \<Longrightarrow> hd (hexes gs @ s) \<noteq> CHR '':'' \<and> hd (hexes gs @ s) \<noteq> CHR ''.''"
  using hexes_hd [of gs] by (auto simp: hd_append)

text \<open>One round of the loop on a printed group.\<close>

lemma parseIPv6_loop_group:
  assumes "g < 65536" and "length ip < 16"
  shows "parseIPv6_loop ip ell (hex_of_nat g) = Some (ip @ group_bytes [g], ell, [])"
    and "s \<noteq> [] \<Longrightarrow> hd s \<noteq> CHR '':'' \<Longrightarrow>
      parseIPv6_loop ip ell (hex_of_nat g @ CHR '':'' # s) = parseIPv6_loop (ip @ group_bytes [g]) ell s"
    and "parseIPv6_loop ip None (hex_of_nat g @ CHR '':'' # CHR '':'' # s) =
      (if s = [] then Some (ip @ group_bytes [g], Some (length ip + 2), [])
       else parseIPv6_loop (ip @ group_bytes [g]) (Some (length ip + 2)) s)"
  using assms hex_group_printed [of g "[]"] hex_group_printed [of g "CHR '':'' # s"]
    hex_group_printed [of g "CHR '':'' # CHR '':'' # s"]
  by (simp_all add: parseIPv6_loop.simps [of ip])

lemma parseIPv6_loop_hexes:
  "gs \<noteq> [] \<Longrightarrow> list_all (\<lambda>g. g < 65536) gs \<Longrightarrow> length ip + 2 * length gs \<le> 16 \<Longrightarrow>
     parseIPv6_loop ip ell (hexes gs) = Some (ip @ group_bytes gs, ell, [])"
proof (induction gs arbitrary: ip rule: induct_list012)
  case (3 g g' gs)
  have "parseIPv6_loop ip ell (hexes (g # g' # gs)) = parseIPv6_loop (ip @ group_bytes [g]) ell (hexes (g' # gs))"
    using 3(4,5) hexes_hd [of "g' # gs"] hexes_no_colon [of "g' # gs" "[]"]
    by (simp add: parseIPv6_loop_group(2) del: group_bytes_simps(2))
  with 3 show ?case by simp
qed (simp_all add: parseIPv6_loop_group)

lemma parseIPv6_loop_ellipsis:
  "gs \<noteq> [] \<Longrightarrow> list_all (\<lambda>g. g < 65536) gs \<Longrightarrow> length ip + 2 * length gs \<le> 16 \<Longrightarrow>
     parseIPv6_loop ip None (hexes gs @ ''::'' @ s) =
       (if s = [] then Some (ip @ group_bytes gs, Some (length ip + 2 * length gs), [])
        else parseIPv6_loop (ip @ group_bytes gs) (Some (length ip + 2 * length gs)) s)"
proof (induction gs arbitrary: ip rule: induct_list012)
  case (3 g g' gs)
  have "parseIPv6_loop ip None (hexes (g # g' # gs) @ ''::'' @ s) =
      parseIPv6_loop (ip @ group_bytes [g]) None (hexes (g' # gs) @ ''::'' @ s)"
    using 3(4,5) hexes_hd [of "g' # gs"] hexes_no_colon [of "g' # gs" "''::'' @ s"]
    by (simp add: parseIPv6_loop_group(2) del: group_bytes_simps(2))
  also have "\<dots> = (if s = [] then Some ((ip @ group_bytes [g]) @ group_bytes (g' # gs), Some (length (ip @ group_bytes [g]) + 2 * length (g' # gs)), [])
      else parseIPv6_loop ((ip @ group_bytes [g]) @ group_bytes (g' # gs)) (Some (length (ip @ group_bytes [g]) + 2 * length (g' # gs))) s)"
    by (rule 3(2)) (use 3 in auto)
  finally show ?case by simp
qed (simp_all add: parseIPv6_loop_group)

text \<open>The run that is left out consists of zero groups.\<close>

definition zero_range :: "nat list \<Rightarrow> nat \<times> nat \<Rightarrow> bool" where
  "zero_range gs r \<longleftrightarrow> r = (255, 255) \<or>
     fst r + 2 \<le> snd r \<and> snd r \<le> length gs \<and> take (snd r - fst r) (drop (fst r) gs) = replicate (snd r - fst r) 0"

lemma takeWhile_zeros: "takeWhile (\<lambda>g. g = (0::nat)) xs = replicate (length (takeWhile (\<lambda>g. g = 0) xs)) 0"
  by (induction xs) auto

lemma zero_run_range: "zero_range gs (zero_run gs)"
proof -
  have step: "zero_range gs (let l = length (takeWhile (\<lambda>g. g = 0) (drop i gs)) in if 2 \<le> l \<and> e - s < l then (i, i + l) else (s, e))"
    if "zero_range gs (s, e)" for i s e
  proof -
    let ?l = "length (takeWhile (\<lambda>g. g = 0) (drop i gs))"
    have "?l \<le> length gs - i" using length_takeWhile_le [of "\<lambda>g. g = 0" "drop i gs"] by simp
    moreover have "take ?l (drop i gs) = replicate ?l 0"
      using takeWhile_eq_take [of "\<lambda>g. g = 0" "drop i gs"] takeWhile_zeros [of "drop i gs"] by simp
    ultimately show ?thesis using that by (auto simp: Let_def zero_range_def)
  qed
  have "zero_range gs (fold (\<lambda>i (s, e). let l = length (takeWhile (\<lambda>g. g = 0) (drop i gs))
      in if 2 \<le> l \<and> e - s < l then (i, i + l) else (s, e)) is r)" if "zero_range gs r" for "is" r
    using that
  proof (induction "is" arbitrary: r)
    case (Cons i "is")
    then show ?case using step [of "fst r" "snd r" i] by (simp add: case_prod_beta)
  qed simp
  then show ?thesis by (simp add: zero_run_def zero_range_def)
qed

lemma v6_groups_bytes: "even (length ip) \<Longrightarrow> group_bytes (v6_groups ip) = ip \<and>
    length (v6_groups ip) = length ip div 2 \<and> list_all (\<lambda>g. g < 65536) (v6_groups ip)"
proof (induction ip rule: v6_groups.induct)
  case (1 a b rest)
  have "unat a < 256" "unat b < 256" using unsigned_less [of a] unsigned_less [of b] by simp_all
  with 1 show ?case by simp
qed auto

lemma parseIPv6_String:
  assumes "length ip = 16"
  shows "parseIPv6 (v6_string ip) = Some ip"
proof -
  let ?gs = "v6_groups ip"
  obtain s e where zr: "zero_run ?gs = (s, e)" by fastforce
  have gs: "group_bytes ?gs = ip" "length ?gs = 8" "list_all (\<lambda>g. g < 65536) ?gs"
    using v6_groups_bytes [of ip] assms by simp_all
  from zero_run_range [of ?gs] consider (none) "s = 255" "e = 255"
    | (run) "s + 2 \<le> e" "e \<le> 8" "take (e - s) (drop s ?gs) = replicate (e - s) 0"
    by (auto simp: zero_range_def zr gs)
  then show ?thesis
  proof cases
    case none
    have "?gs \<noteq> []" using gs(2) by auto
    moreover from this have "take 2 (hexes ?gs) \<noteq> ''::''"
      using hexes_hd [of ?gs] hexes_no_colon [of ?gs "[]"] by (cases "hexes ?gs") auto
    ultimately show ?thesis
      using none gs parseIPv6_loop_hexes [of ?gs "[]" None] assms
      by (simp add: v6_string_def zr parseIPv6_def Let_def)
  next
    case run
    let ?a = "take s ?gs" and ?b = "drop e ?gs"
    have all: "list_all (\<lambda>g. g < 65536) ?a" "list_all (\<lambda>g. g < 65536) ?b"
      using gs(3) by (auto simp: list_all_iff dest: in_set_takeD in_set_dropD)
    have len: "length ?a = s" "length ?b = 8 - e" using run gs(2) by simp_all
    have "?gs = ?a @ take (e - s) (drop s ?gs) @ ?b"
      using run by (metis append_take_drop_id drop_drop le_add_diff_inverse2 add_leD1)
    with run(3) have "?gs = ?a @ replicate (e - s) 0 @ ?b" by simp
    then have ip: "ip = group_bytes ?a @ replicate (2 * (e - s)) 0 @ group_bytes ?b"
      using gs(1) by (metis group_bytes_simps(3) group_bytes_zero)
    have str: "v6_string ip = hexes ?a @ ''::'' @ hexes ?b"
      using run by (simp add: v6_string_def zr Let_def)
    show ?thesis
    proof (cases "s = 0")
      case True
      then have "ip = replicate (16 - 2 * (8 - e)) 0 @ group_bytes ?b" using ip run by (simp add: diff_mult_distrib2)
      with True show ?thesis
        using str len all run gs(2) parseIPv6_loop_hexes [of ?b "[]" "Some 0"] hexes_hd [of ?b]
        by (cases "e = 8") (simp_all add: parseIPv6_def Let_def)
    next
      case False
      then have a: "?a \<noteq> []" using len by auto
      then have "take 2 (v6_string ip) \<noteq> ''::''"
        using hexes_hd [of ?a] hexes_no_colon [of ?a "[]"] by (cases "hexes ?a") (auto simp: str)
      moreover have "parseIPv6_loop [] None (v6_string ip) =
          Some (group_bytes ?a @ group_bytes ?b, Some (2 * s), [])"
        using str len all run a parseIPv6_loop_ellipsis [of ?a "[]" "hexes ?b"] hexes_hd [of ?b]
          parseIPv6_loop_hexes [of ?b "group_bytes ?a" "Some (2 * s)"]
        by (cases "e = 8") auto
      moreover have "16 - (2 * s + 2 * (8 - e)) = 2 * (e - s)" "2 * s + 2 * (8 - e) < 16"
        using run by arith+
      ultimately show ?thesis using ip len by (auto simp: parseIPv6_def Let_def)
    qed
  qed
qed

text \<open>The characters of a printed address.\<close>

definition addr_chars :: "string \<Rightarrow> bool" where
  "addr_chars s \<longleftrightarrow> CHR ''['' \<notin> set s \<and> CHR '']'' \<notin> set s \<and> CHR ''%'' \<notin> set s"

lemma digit_strings [simp]:
  "decval c = None \<Longrightarrow> c \<notin> set (itoa n)" "hexval c = None \<Longrightarrow> c \<notin> set (hex_of_nat n)"
  using itoa_digits [of n] hex_of_nat_digits [of n] by (auto simp: list_all_iff)

lemma set_join_with: "set (join_with sep xs) \<subseteq> set sep \<union> (\<Union>x\<in>set xs. set x)"
  by (induction sep xs rule: join_with.induct) auto

lemma dotted_chars:
  "c \<in> set (join_with ''.'' (map (itoa \<circ> unat) ip)) \<Longrightarrow> c = CHR ''.'' \<or> decval c \<noteq> None"
  using set_join_with [of "''.''" "map (itoa \<circ> unat) ip"] digit_strings(1) [of c] by auto

lemma v6_chars: "c \<in> set (v6_string ip) \<Longrightarrow> c = CHR '':'' \<or> hexval c \<noteq> None"
  using set_join_with [of "'':''" "map hex_of_nat (v6_groups ip)"] digit_strings(2) [of c]
    set_join_with [of "'':''" "map hex_of_nat (take (fst (zero_run (v6_groups ip))) (v6_groups ip))"]
    set_join_with [of "'':''" "map hex_of_nat (drop (snd (zero_run (v6_groups ip))) (v6_groups ip))"]
  by (auto simp: v6_string_def Let_def case_prod_beta split: if_splits)

lemma parseAddr_skip: "(\<And>c. c \<in> set pre \<Longrightarrow> c \<noteq> CHR ''.'' \<and> c \<noteq> CHR '':'' \<and> c \<noteq> CHR ''%'') \<Longrightarrow>
    parseAddr s (pre @ rest) = parseAddr s rest"
  by (induction pre) auto

lemma parseAddr_v4:
  assumes "length ip = 4"
  shows "parseAddr (join_with ''.'' (map (itoa \<circ> unat) ip)) (join_with ''.'' (map (itoa \<circ> unat) ip)) = Some (To16 ip, 32)"
proof -
  obtain a b c d where ip: "ip = [a, b, c, d]" using assms by (auto simp: length4_conv)
  let ?s = "join_with ''.'' (map (itoa \<circ> unat) ip)"
  have "?s = itoa (unat a) @ CHR ''.'' # join_with ''.'' (map (itoa \<circ> unat) [b, c, d])" by (simp add: ip)
  moreover have "parseAddr ?s (itoa (unat a) @ CHR ''.'' # r) = parseAddr ?s (CHR ''.'' # r)" for r
    by (rule parseAddr_skip) auto
  ultimately have "parseAddr ?s ?s = parseAddr ?s (CHR ''.'' # join_with ''.'' (map (itoa \<circ> unat) [b, c, d]))"
    by metis
  with parseIPv4_String [OF assms] show ?thesis by simp
qed

lemma v6_string_hd: "length ip = 16 \<Longrightarrow> CHR '':'' \<in> set (v6_string ip)"
proof -
  assume "length ip = 16"
  with v6_groups_bytes [of ip] have "length (v6_groups ip) = 8" by simp
  then obtain a b gs where "v6_groups ip = a # b # gs" by (auto simp: eval_nat_numeral length_Suc_conv)
  then show ?thesis by (simp add: v6_string_def Let_def case_prod_beta)
qed

lemma parseAddr_v6:
  assumes "length ip = 16"
  shows "parseAddr (v6_string ip) (v6_string ip) = Some (ip, 128)"
proof -
  let ?s = "v6_string ip"
  have "CHR ''%'' \<notin> set ?s" "CHR ''.'' \<notin> set ?s" using v6_chars [of _ ip] by fastforce+
  moreover obtain pre rest where split: "?s = pre @ CHR '':'' # rest" "CHR '':'' \<notin> set pre"
    using split_list_first [OF v6_string_hd [OF assms]] by blast
  ultimately have "parseAddr ?s (pre @ CHR '':'' # rest) = parseAddr ?s (CHR '':'' # rest)"
    by (intro parseAddr_skip) auto
  with split(1) parseIPv6_String [OF assms] \<open>CHR ''%'' \<notin> set ?s\<close> show ?thesis by simp
qed

lemma parseAddr_String:
  assumes "length ip = 4 \<or> length ip = 16"
  shows "parseAddr (IP_String ip) (IP_String ip) = Some (if To4 ip \<noteq> [] then (To16 (To4 ip), 32) else (ip, 128))"
  using assms parseAddr_v4 [OF length_To4] parseAddr_v6 [of ip]
  by (cases "To4 ip = []") (auto simp: IP_String_def)

lemma To16_To4: "length ip = 16 \<Longrightarrow> To4 ip \<noteq> [] \<Longrightarrow> To16 (To4 ip) = ip"
proof -
  assume ip: "length ip = 16" "To4 ip \<noteq> []"
  then have zero: "isZeros (take 10 ip)" "ip ! 10 = 255" "ip ! 11 = 255" and four: "To4 ip = drop 12 ip"
    by (auto simp: To4_def split: if_splits)
  have "take 10 ip = replicate 10 0" using zero(1) ip(1) by (intro replicate_eqI) (auto simp: isZeros_def list_all_iff)
  moreover obtain a b c d where "drop 12 ip = [a, b, c, d]" using ip(1) length4_conv [of "drop 12 ip"] by auto
  moreover have "drop 10 ip = ip ! 10 # ip ! 11 # drop 12 ip"
    using ip(1) by (simp add: Cons_nth_drop_Suc [symmetric, of 10] Cons_nth_drop_Suc [symmetric, of 11])
  ultimately show ?thesis
    using append_take_drop_id [of 10 ip] zero(2,3) four by (simp add: To16_def IPv4_def)
qed

text \<open>What \<open>IP.String\<close> prints, \<open>ParseIP\<close> reads back as the address in sixteen bytes.\<close>

lemma ParseIP_String:
  assumes "length ip = 4 \<or> length ip = 16"
  shows "ParseIP (IP_String ip) = Some (To16 ip)"
proof (cases "To4 ip = []")
  case True
  then show ?thesis using assms by (auto simp: ParseIP_def parseAddr_String To16_def)
next
  case False
  then show ?thesis using assms To16_To4 [of ip] by (auto simp: ParseIP_def parseAddr_String To16_def)
qed

lemma IP_String_To16: "length ip = 4 \<Longrightarrow> IP_String (To16 ip) = IP_String ip"
proof -
  assume ip: "length ip = 4"
  then have "To16 ip \<noteq> []" "ip \<noteq> []" by (auto simp: To16_def IPv4_def)
  with ip show ?thesis by (simp add: IP_String_def)
qed

lemma IP_String_chars: "length ip = 4 \<or> length ip = 16 \<Longrightarrow> addr_chars (IP_String ip)"
proof -
  assume ip: "length ip = 4 \<or> length ip = 16"
  have "c = CHR ''.'' \<or> c = CHR '':'' \<or> hexval c \<noteq> None \<or> decval c \<noteq> None" if "c \<in> set (IP_String ip)" for c
    using ip that dotted_chars [of c "To4 ip"] v6_chars [of c ip] by (auto simp: IP_String_def split: if_splits)
  then show ?thesis by (fastforce simp: addr_chars_def)
qed

subsection \<open>Host and port\<close>

lemma split_last_append: "c \<notin> set b \<Longrightarrow> split_last c (a @ c # b) = Some (a, b)"
proof -
  assume b: "c \<notin> set b"
  then have "split_last c b = None" by (induction b) auto
  then show ?thesis by (induction a) simp_all
qed

lemma split_first_append: "c \<notin> set a \<Longrightarrow> split_first c (a @ c # b) = Some (a, b)"
  by (induction a) auto

lemma SplitHostPort_JoinHostPort:
  assumes "CHR ''['' \<notin> set host" "CHR '']'' \<notin> set host"
    and "CHR '':'' \<notin> set port" "CHR ''['' \<notin> set port" "CHR '']'' \<notin> set port"
  shows "SplitHostPort (JoinHostPort host port) = Some (host, port)"
proof (cases "CHR '':'' \<in> set host")
  case True
  have "split_last (CHR '':'') (CHR ''['' # host @ CHR '']'' # CHR '':'' # port) = Some (CHR ''['' # host @ '']'', port)"
    using split_last_append [OF assms(3), of "CHR ''['' # host @ '']''"] by simp
  moreover have "split_first (CHR '']'') (CHR ''['' # host @ CHR '']'' # CHR '':'' # port) = Some (CHR ''['' # host, CHR '':'' # port)"
    using split_first_append [of "CHR '']''" "CHR ''['' # host" "CHR '':'' # port"] assms by simp
  ultimately show ?thesis using True assms by (simp add: JoinHostPort_def SplitHostPort_def)
next
  case False
  then have "hd (host @ CHR '':'' # port) \<noteq> CHR ''[''" using assms(1) by (cases host) auto
  with False assms split_last_append [OF assms(3), of host] show ?thesis
    by (simp add: JoinHostPort_def SplitHostPort_def)
qed

lemma space_prefix_digit: "decval c \<noteq> None \<Longrightarrow> space_prefix (c # s) = 0"
proof -
  assume "decval c \<noteq> None"
  then have c: "48 \<le> (of_char c :: nat)" "(of_char c :: nat) \<le> 57" by (auto simp: decval_def Let_def split: if_splits)
  have sp: "list_all (\<lambda>w. w \<noteq> [] \<and> (hd w < 48 \<or> 57 < hd w) \<and> hd w < 256) go_spaces" by code_simp
  have "take (length w) (c # s) \<noteq> map char_of w" if "w \<in> set go_spaces" for w
  proof
    assume "take (length w) (c # s) = map char_of w"
    with sp that obtain n :: nat where "c = char_of n" "n < 48 \<or> 57 < n" "n < 256" by (cases w) (auto simp: list_all_iff)
    with c show False by auto
  qed
  then have "find (\<lambda>w. take (length w) (c # s) = map char_of w) go_spaces = None" by (simp add: find_None_iff)
  then show ?thesis by (simp add: space_prefix_def)
qed

lemma Sscanf_itoa: "n < 65536 \<Longrightarrow> Sscanf_uint16 (itoa n) = Some (of_nat n)"
proof -
  assume n: "n < 65536"
  note digits = itoa_digits [of n]
  then obtain c s where cs: "itoa n = c # s" by (cases "itoa n") auto
  with digits have "skip_space (length (itoa n)) (itoa n) = itoa n" by (simp add: space_prefix_digit)
  moreover have "takeWhile (\<lambda>c. decval c \<noteq> None) (itoa n) = itoa n"
    using digits takeWhile_digits [of "\<lambda>c. decval c \<noteq> None" "itoa n" "[]"] by (simp del: not_None_eq)
  ultimately show ?thesis using n digits unfolding Sscanf_uint16_def Let_def by (simp only:) simp
qed

subsection \<open>Prefixes read from text\<close>

lemma parseIPv4Fields_length: "parseIPv4Fields fld val k s = Some ip \<Longrightarrow> length fld \<le> 3 \<Longrightarrow> length ip = 4"
proof (induction fld val k s rule: parseIPv4Fields.induct)
  case (2 fld val digLen c s)
  then show ?case by (cases "decval c") (auto split: if_splits)
qed (auto split: if_splits)

definition v6_partial :: "bytes \<Rightarrow> nat option \<Rightarrow> bool" where
  "v6_partial ip ell \<longleftrightarrow> even (length ip) \<and> length ip \<le> 16 \<and> (\<forall>e. ell = Some e \<longrightarrow> e \<le> length ip)"

lemma parseIPv6_loop_partial:
  "parseIPv6_loop ip ell s = Some (ip', ell', r) \<Longrightarrow> v6_partial ip ell \<Longrightarrow> v6_partial ip' ell'"
proof (induction s arbitrary: ip ell rule: measure_induct_rule [of length])
  case (less s)
  show ?case
  proof (cases "length ip < 16")
    case False
    with less.prems show ?thesis by (simp add: parseIPv6_loop.simps)
  next
    case True
    then obtain acc rest where g: "hex_group s = Some (acc, rest)"
      using less.prems(1) by (auto simp: parseIPv6_loop.simps split: option.splits)
    let ?ip = "ip @ [of_nat (acc div 256), of_nat (acc mod 256)]"
    have "length ip \<noteq> 15" using less.prems(2) by (auto simp: v6_partial_def)
    then have nxt: "v6_partial ?ip ell" "v6_partial ?ip (Some (length ?ip))"
      using True less.prems(2) by (auto simp: v6_partial_def le_Suc_eq)
    have v4: "v6_partial (ip @ f) ell" if "length ip + 4 \<le> 16" "parseIPv4Fields [] 0 0 s = Some f" for f
      using that less.prems(2) parseIPv4Fields_length [OF that(2)] by (auto simp: v6_partial_def)
    have "length (tl rest) < length s" "length (tl (tl rest)) < length s"
      using hex_group_shorter [OF g] by auto
    note ih = less.IH [OF this(1) _ nxt(1)] less.IH [OF this(2) _ nxt(2)]
    show ?thesis
      using less.prems(1) True nxt v4 ih
      by (subst (asm) parseIPv6_loop.simps) (auto simp: g Let_def split: if_splits)
  qed
qed

lemma parseAddr_length:
  assumes "parseAddr s t = Some (ip, bits)"
  shows "length ip = 16 \<and> (bits = 32 \<and> To4 ip \<noteq> [] \<or> bits = 128)"
  using assms
proof (induction s t rule: parseAddr.induct)
  case (2 s c rest)
  have "length ip = 16" if "parseIPv6 s = Some ip"
    using that parseIPv6_loop_partial [of "[]" None s] parseIPv6_loop_partial [of "[]" "Some 0" "drop 2 s"]
    by (fastforce simp: parseIPv6_def Let_def v6_partial_def split: if_splits option.splits)
  moreover have "length ip = 16 \<and> To4 ip \<noteq> []" if "parseIPv4Fields [] 0 0 s = Some f" "ip = To16 f" for f
    using parseIPv4Fields_length [OF that(1)] that(2) by auto
  ultimately show ?case using 2 by (auto split: if_splits)
qed simp

lemma mask_bytes_nth: "i < l \<Longrightarrow> mask_bytes l n ! i = 255 \<longleftrightarrow> 8 * (i + 1) \<le> n"
proof (induction l n arbitrary: i rule: mask_bytes.induct)
  case (2 l n)
  have zeros: "mask_bytes l 0 ! j = 0" if "j < l" for j
    using mask_bytes_zero [of l] that by (simp add: isZeros_def list_all_length)
  show ?case
    using 2 partial_mask_byte [of n] zeros
    by (cases i) (auto simp: not_le)
qed simp

lemma masked_v4_in_v6:
  assumes "length ip = 16" "k \<le> 128" "To4 (map2 (AND) ip (CIDRMask k 128)) \<noteq> []"
  shows "To4 ip \<noteq> []"
proof -
  let ?m = "CIDRMask k 128"
  have m: "?m = mask_bytes 16 k" using assms(2) by (simp add: CIDRMask_def)
  have nth: "map2 (AND) ip ?m ! i = ip ! i AND ?m ! i" if "i < 16" for i using that assms(1) by (simp add: m)
  have masked: "isZeros (take 10 (map2 (AND) ip ?m))" "ip ! 10 AND ?m ! 10 = 255" "ip ! 11 AND ?m ! 11 = 255"
    using assms(1,3) nth [of 10] nth [of 11] by (auto simp: To4_def m split: if_splits)
  have ff: "a = 255 \<and> b = 255" if "a AND b = 255" for a b :: byte
  proof -
    have "(255::byte) = - 1" by simp
    with that show ?thesis by (metis and.right_neutral and.left_commute and.idem and.commute)
  qed
  from ff [OF masked(3)] have "8 * (11 + 1) \<le> k" using mask_bytes_nth [of 11 16 k] by (simp add: m)
  then have "?m ! i = 255" if "i < 12" for i using that mask_bytes_nth [of i 16 k] by (simp add: m)
  then have "ip ! i = 0" if "i < 10" for i
  proof -
    have "ip ! i AND ?m ! i = 0" using that masked(1) assms(1) by (simp add: isZeros_def list_all_length m)
    then have "ip ! i AND 255 = 0" using that \<open>\<And>i. i < 12 \<Longrightarrow> ?m ! i = 255\<close> [of i] by simp
    moreover have "(255::byte) = - 1" by simp
    ultimately show ?thesis by (metis and.right_neutral)
  qed
  then have "isZeros (take 10 ip)" using assms(1) by (simp add: isZeros_def list_all_length)
  with ff [OF masked(2)] ff [OF masked(3)] assms(1) show ?thesis by (simp add: To4_def)
qed

lemma contains_masked:
  "length ip = length m \<Longrightarrow> list_all (\<lambda>(a, b, k). a AND k = b AND k) (zip (map2 (AND) ip m) (zip ip (m :: bytes)))"
  by (auto simp: list_all_length and.assoc)

lemma ParseCIDR_cases:
  assumes "ParseCIDR s = Some (ip, n)"
  obtains (v4) k where "k \<le> 32" "length ip = 16" "To4 ip \<noteq> []"
      "n = \<lparr>ipn_IP = map2 (AND) (To4 ip) (CIDRMask k 32), ipn_Mask = CIDRMask k 32\<rparr>"
  | (v6) k where "k \<le> 128" "length ip = 16" "n = \<lparr>ipn_IP = map2 (AND) ip (CIDRMask k 128), ipn_Mask = CIDRMask k 128\<rparr>"
proof -
  obtain addr bits k where p: "parseAddr addr addr = Some (ip, bits)" "k \<le> bits"
    "n = \<lparr>ipn_IP = IP_Mask ip (CIDRMask k bits), ipn_Mask = CIDRMask k bits\<rparr>"
    using assms unfolding ParseCIDR_def by (auto split: option.splits if_splits dest!: not_less [THEN iffD1])
  note len = parseAddr_length [OF p(1)]
  then consider "bits = 32" "To4 ip \<noteq> []" | "bits = 128" by auto
  then show thesis
  proof cases
    case 1
    have "take 12 ip = replicate 10 0 @ [255, 255]" "To4 ip = drop 12 ip"
      using To16_To4 [OF conjunct1 [OF len] 1(2)] len 1(2) length_To4 [of ip]
      by (auto simp: To16_def IPv4_def To4_def length4_conv split: if_splits)
    with 1 p len show thesis by (intro v4) (auto simp: IP_Mask_def length_CIDRMask)
  next
    case 2
    with p len show thesis by (intro v6) (auto simp: IP_Mask_def length_CIDRMask)
  qed
qed

text \<open>
  A prefix read from text is one the routing table handles and contains the address it was
  written with, unless it is an IPv4 address written in its IPv6 form.
\<close>

lemma ParseCIDR_wf:
  assumes "ParseCIDR s = Some (ip, n)" and "To4 ip = [] \<or> length (ipn_Mask n) = 4"
  shows "wf_IPNet n \<and> IPNet_Contains n ip"
  using assms(1)
proof (cases rule: ParseCIDR_cases)
  case (v4 k)
  then have "length (To4 ip) = 4" "length (CIDRMask k 32) = 4" by (simp_all add: length_To4 length_CIDRMask)
  with v4 show ?thesis
    using contains_masked [of "To4 ip" "CIDRMask k 32"]
    by (auto simp: wf_IPNet_def mask_ones_CIDRMask IPNet_Contains_def networkNumberAndMask_def Let_def)
next
  case (v6 k)
  then have len: "length (CIDRMask k 128) = 16" by (simp add: length_CIDRMask)
  with assms(2) v6 have "To4 ip = []" by simp
  with v6 masked_v4_in_v6 [of ip k] have "To4 (map2 (AND) ip (CIDRMask k 128)) = []" by auto
  with v6 len \<open>To4 ip = []\<close> show ?thesis
    using contains_masked [of ip "CIDRMask k 128"]
    by (auto simp: wf_IPNet_def mask_ones_CIDRMask IPNet_Contains_def networkNumberAndMask_def Let_def)
qed

end
