(* ===== verification/Config.thy ===== *)
theory Config
  imports Go_Addr
begin

text \<open>
  The configuration, config/config.go: its sections with their defaults, loading and validation,
  and the durations the other components read from it. Reading the file and decoding its JSON
  onto the defaults are arguments. \<open>time.ParseDuration\<close> is modelled in full but for the
  floating-point product that scales a decimal fraction, which is the argument \<open>frac\<close>.

  Shown: which configurations pass validation; the direct networks of such a configuration are
  prefixes the routing table accepts, but for IPv4 prefixes written in their IPv6 form; its
  intervals are those written, but an empty or zero interval passes too.
\<close>

subsection \<open>Durations\<close>

text \<open>A number and the rest of the text; an error when it exceeds \<open>2^63\<close>.\<close>

fun leadingInt :: "int \<Rightarrow> string \<Rightarrow> (int \<times> string) option" where
  "leadingInt x [] = Some (x, [])"
| "leadingInt x (c # s) =
     (case decval c of
        None \<Rightarrow> Some (x, c # s)
      | Some d \<Rightarrow>
          if x > 2 ^ 63 div 10 then None
          else if x * 10 + int d > 2 ^ 63 then None
          else leadingInt (x * 10 + int d) s)"

text \<open>The digits of a fraction, as many as fit, with the power of ten they count.\<close>

fun leadingFraction :: "int \<Rightarrow> int \<Rightarrow> bool \<Rightarrow> string \<Rightarrow> int \<times> int \<times> string" where
  "leadingFraction x scale full [] = (x, scale, [])"
| "leadingFraction x scale full (c # s) =
     (case decval c of
        None \<Rightarrow> (x, scale, c # s)
      | Some d \<Rightarrow>
          if full \<or> x > (2 ^ 63 - 1) div 10 \<or> x * 10 + int d > 2 ^ 63 then leadingFraction x scale True s
          else leadingFraction (x * 10 + int d) (scale * 10) False s)"

definition unitMap :: "(string \<times> int) list" where
  "unitMap = [(''ns'', 1), (''us'', 1000), ([CHR 0xC2, CHR 0xB5, CHR ''s''], 1000), ([CHR 0xCE, CHR 0xBC, CHR ''s''], 1000),
     (''ms'', 1000000), (''s'', 1000000000), (''m'', 60000000000), (''h'', 3600000000000)]"

definition unit_char :: "char \<Rightarrow> bool" where
  "unit_char c \<longleftrightarrow> c \<noteq> CHR ''.'' \<and> decval c = None"

text \<open>
  One term of the sum, such as \<open>1.5h\<close>: its value in nanoseconds and the rest of the text.
  \<open>frac f unit scale\<close> is \<open>uint64(float64(f) * (float64(unit) / scale))\<close>.
\<close>

definition duration_term :: "(int \<Rightarrow> int \<Rightarrow> int \<Rightarrow> int) \<Rightarrow> string \<Rightarrow> (int \<times> string) option" where
  "duration_term frac s =
     (if s = [] \<or> unit_char (hd s) then None
      else (case leadingInt 0 s of
        None \<Rightarrow> None
      | Some (v, s1) \<Rightarrow>
          (let pre = length s1 \<noteq> length s;
               point = s1 \<noteq> [] \<and> hd s1 = CHR ''.'';
               (f, scale, s2) = (if point then leadingFraction 0 1 False (tl s1) else (0, 1, s1));
               post = point \<and> length s2 \<noteq> length (tl s1);
               u = takeWhile unit_char s2; s3 = dropWhile unit_char s2
           in if \<not> pre \<and> \<not> post then None
              else if u = [] then None
              else (case map_of unitMap u of
                  None \<Rightarrow> None
                | Some unit \<Rightarrow>
                    if v > 2 ^ 63 div unit then None
                    else (let v' = v * unit + (if f > 0 then frac f unit scale else 0)
                          in if f > 0 \<and> v' > 2 ^ 63 then None else Some (v', s3))))))"

lemma leadingInt_length: "leadingInt x s = Some (v, r) \<Longrightarrow> length r \<le> length s"
proof (induction x s rule: leadingInt.induct)
  case (2 x c s)
  then show ?case by (cases "decval c") (auto split: if_splits)
qed simp

lemma leadingFraction_length: "leadingFraction x scale full s = (f, sc, r) \<Longrightarrow> length r \<le> length s"
proof (induction x scale full s rule: leadingFraction.induct)
  case (2 x scale full c s)
  then show ?case by (cases "decval c") (auto split: if_splits)
qed simp

lemma duration_term_shorter:
  assumes "duration_term frac s = Some (v, rest)"
  shows "length rest < length s"
proof -
  obtain v1 s1 where s1: "leadingInt 0 s = Some (v1, s1)"
    using assms by (auto simp: duration_term_def split: if_splits option.splits)
  define point where "point = (s1 \<noteq> [] \<and> hd s1 = CHR ''.'')"
  obtain f scale s2 where s2: "(if point then leadingFraction 0 1 False (tl s1) else (0, 1, s1)) = (f, scale, s2)"
    by (cases "if point then leadingFraction 0 1 False (tl s1) else (0, 1, s1)") auto
  have "length s2 \<le> length s1"
    using s2 leadingFraction_length [of 0 1 False "tl s1" f scale s2] by (auto split: if_splits)
  moreover have "takeWhile unit_char s2 \<noteq> []" "rest = dropWhile unit_char s2"
    using assms s1 s2
    by (auto simp: duration_term_def Let_def point_def [symmetric] split: if_splits option.splits)
  moreover have "length s2 = length (takeWhile unit_char s2) + length (dropWhile unit_char s2)"
    by (metis length_append takeWhile_dropWhile_id)
  ultimately show ?thesis using leadingInt_length [OF s1] by (cases "takeWhile unit_char s2") auto
qed

text \<open>The sum of the terms, in 64 bits.\<close>

function duration_terms :: "(int \<Rightarrow> int \<Rightarrow> int \<Rightarrow> int) \<Rightarrow> int \<Rightarrow> string \<Rightarrow> int option" where
  "duration_terms frac d s =
     (if s = [] then Some d
      else (case duration_term frac s of
        None \<Rightarrow> None
      | Some (v, rest) \<Rightarrow>
          (let d' = (d + v) mod 2 ^ 64 in if d' > 2 ^ 63 then None else duration_terms frac d' rest)))"
  by pat_completeness auto
termination
  by (relation "measure (\<lambda>(frac, d, s). length s)") (auto dest: duration_term_shorter)

declare duration_terms.simps [simp del]

definition ParseDuration :: "(int \<Rightarrow> int \<Rightarrow> int \<Rightarrow> int) \<Rightarrow> string \<Rightarrow> duration option" where
  "ParseDuration frac s =
     (let signed = s \<noteq> [] \<and> (hd s = CHR ''-'' \<or> hd s = CHR ''+'');
          neg = signed \<and> hd s = CHR ''-'';
          s' = (if signed then tl s else s)
      in if s' = ''0'' then Some 0
         else if s' = [] then None
         else (case duration_terms frac 0 s' of
             None \<Rightarrow> None
           | Some d \<Rightarrow> if neg then Some (- d) else if d > 2 ^ 63 - 1 then None else Some d))"

definition parseDuration :: "(int \<Rightarrow> int \<Rightarrow> int \<Rightarrow> int) \<Rightarrow> string \<Rightarrow> duration" where
  "parseDuration frac s = (case ParseDuration frac s of None \<Rightarrow> 0 | Some d \<Rightarrow> d)"

subsection \<open>Sections\<close>

record NodeConfig =
  nc_Name :: string
  nc_IdentityFile :: string
  nc_ListenAddr :: string
  nc_Socks5Addr :: string
  nc_Socks5Auth :: string
  nc_HealthAddr :: string

record RoutingConfig =
  rc_DirectNetworks :: "string list"
  rc_LocalPreference :: uint32
  rc_MaxASPathLength :: int
  rc_RouteAdvertisementIntervalS :: string

record GossipSection =
  gs_BootstrapPeers :: "string list"
  gs_PushIntervalS :: string
  gs_PeerTimeoutS :: string
  gs_ProbeIntervalS :: string
  gs_Fanout :: int

record UDPConfig =
  uc_SessionTTLS :: string
  uc_SessionGCInterval :: string
  uc_MaxDatagramSize :: int

record LoggingConfig =
  lc_Level :: string
  lc_Format :: string

record Config =
  cfg_Node :: NodeConfig
  cfg_Routing :: RoutingConfig
  cfg_Gossip :: GossipSection
  cfg_UDP :: UDPConfig
  cfg_Logging :: LoggingConfig

definition DefaultConfig :: Config where
  "DefaultConfig =
     \<lparr>cfg_Node = \<lparr>nc_Name = [], nc_IdentityFile = [], nc_ListenAddr = ''0.0.0.0:9443'',
        nc_Socks5Addr = ''127.0.0.1:1080'', nc_Socks5Auth = ''noauth'', nc_HealthAddr = []\<rparr>,
      cfg_Routing = \<lparr>rc_DirectNetworks = [], rc_LocalPreference = 100, rc_MaxASPathLength = 32,
        rc_RouteAdvertisementIntervalS = ''30s''\<rparr>,
      cfg_Gossip = \<lparr>gs_BootstrapPeers = [], gs_PushIntervalS = ''5s'', gs_PeerTimeoutS = ''15s'',
        gs_ProbeIntervalS = ''3s'', gs_Fanout = 3\<rparr>,
      cfg_UDP = \<lparr>uc_SessionTTLS = ''120s'', uc_SessionGCInterval = ''30s'', uc_MaxDatagramSize = 1200\<rparr>,
      cfg_Logging = \<lparr>lc_Level = ''info'', lc_Format = ''json''\<rparr>\<rparr>"

subsection \<open>Validation\<close>

datatype config_error =
    ReadError | JsonError | ListenAddrRequired | Socks5AddrRequired
  | InvalidDuration string | NegativeFanout | NegativeDatagramSize | InvalidNetwork string

text \<open>The checks of the duration strings, in the order of the code.\<close>

definition duration_fields :: "Config \<Rightarrow> string list" where
  "duration_fields c =
     [rc_RouteAdvertisementIntervalS (cfg_Routing c), gs_PushIntervalS (cfg_Gossip c),
      gs_PeerTimeoutS (cfg_Gossip c), gs_ProbeIntervalS (cfg_Gossip c), uc_SessionTTLS (cfg_UDP c),
      uc_SessionGCInterval (cfg_UDP c)]"

definition Validate :: "(int \<Rightarrow> int \<Rightarrow> int \<Rightarrow> int) \<Rightarrow> Config \<Rightarrow> config_error option" where
  "Validate frac c =
     (if nc_ListenAddr (cfg_Node c) = [] then Some ListenAddrRequired
      else if nc_Socks5Addr (cfg_Node c) = [] then Some Socks5AddrRequired
      else (case find (\<lambda>s. s \<noteq> [] \<and> ParseDuration frac s = None) (duration_fields c) of
        Some s \<Rightarrow> Some (InvalidDuration s)
      | None \<Rightarrow>
          if gs_Fanout (cfg_Gossip c) < 0 then Some NegativeFanout
          else if uc_MaxDatagramSize (cfg_UDP c) < 0 then Some NegativeDatagramSize
          else (case find (\<lambda>nw. ParseCIDR nw = None) (rc_DirectNetworks (cfg_Routing c)) of
              Some nw \<Rightarrow> Some (InvalidNetwork nw)
            | None \<Rightarrow> None)))"

text \<open>The file read and the decoder of package encoding/json are arguments.\<close>

definition Load ::
  "(int \<Rightarrow> int \<Rightarrow> int \<Rightarrow> int) \<Rightarrow> (bytes \<Rightarrow> Config \<Rightarrow> Config option) \<Rightarrow> bytes option \<Rightarrow> config_error + Config" where
  "Load frac unmarshal file =
     (case file of
        None \<Rightarrow> Inl ReadError
      | Some data \<Rightarrow>
          (case unmarshal data DefaultConfig of
             None \<Rightarrow> Inl JsonError
           | Some c \<Rightarrow> (case Validate frac c of Some e \<Rightarrow> Inl e | None \<Rightarrow> Inr c)))"

subsection \<open>Accessors\<close>

definition RouteAdvertisementInterval :: "(int \<Rightarrow> int \<Rightarrow> int \<Rightarrow> int) \<Rightarrow> Config \<Rightarrow> duration" where
  "RouteAdvertisementInterval frac c = parseDuration frac (rc_RouteAdvertisementIntervalS (cfg_Routing c))"

definition PushInterval :: "(int \<Rightarrow> int \<Rightarrow> int \<Rightarrow> int) \<Rightarrow> Config \<Rightarrow> duration" where
  "PushInterval frac c = parseDuration frac (gs_PushIntervalS (cfg_Gossip c))"

definition PeerTimeout :: "(int \<Rightarrow> int \<Rightarrow> int \<Rightarrow> int) \<Rightarrow> Config \<Rightarrow> duration" where
  "PeerTimeout frac c = parseDuration frac (gs_PeerTimeoutS (cfg_Gossip c))"

definition ProbeInterval :: "(int \<Rightarrow> int \<Rightarrow> int \<Rightarrow> int) \<Rightarrow> Config \<Rightarrow> duration" where
  "ProbeInterval frac c = parseDuration frac (gs_ProbeIntervalS (cfg_Gossip c))"

definition SessionTTL :: "(int \<Rightarrow> int \<Rightarrow> int \<Rightarrow> int) \<Rightarrow> Config \<Rightarrow> duration" where
  "SessionTTL frac c = parseDuration frac (uc_SessionTTLS (cfg_UDP c))"

definition SessionGCInterval :: "(int \<Rightarrow> int \<Rightarrow> int \<Rightarrow> int) \<Rightarrow> Config \<Rightarrow> duration" where
  "SessionGCInterval frac c = parseDuration frac (uc_SessionGCInterval (cfg_UDP c))"

subsection \<open>Properties\<close>

lemma find_none: "find P xs = None \<longleftrightarrow> (\<forall>x\<in>set xs. \<not> P x)"
  by (auto simp: find_None_iff)

text \<open>What passes validation.\<close>

definition valid_config :: "(int \<Rightarrow> int \<Rightarrow> int \<Rightarrow> int) \<Rightarrow> Config \<Rightarrow> bool" where
  "valid_config frac c \<longleftrightarrow>
     nc_ListenAddr (cfg_Node c) \<noteq> [] \<and> nc_Socks5Addr (cfg_Node c) \<noteq> [] \<and>
     (\<forall>s\<in>set (duration_fields c). s = [] \<or> ParseDuration frac s \<noteq> None) \<and>
     0 \<le> gs_Fanout (cfg_Gossip c) \<and> 0 \<le> uc_MaxDatagramSize (cfg_UDP c) \<and>
     (\<forall>nw\<in>set (rc_DirectNetworks (cfg_Routing c)). ParseCIDR nw \<noteq> None)"

lemma Validate_valid: "Validate frac c = None \<longleftrightarrow> valid_config frac c"
proof -
  have "Validate frac c = None \<longleftrightarrow> nc_ListenAddr (cfg_Node c) \<noteq> [] \<and> nc_Socks5Addr (cfg_Node c) \<noteq> [] \<and>
      find (\<lambda>s. s \<noteq> [] \<and> ParseDuration frac s = None) (duration_fields c) = None \<and>
      0 \<le> gs_Fanout (cfg_Gossip c) \<and> 0 \<le> uc_MaxDatagramSize (cfg_UDP c) \<and>
      find (\<lambda>nw. ParseCIDR nw = None) (rc_DirectNetworks (cfg_Routing c)) = None"
    by (simp add: Validate_def not_less split: option.split)
  then show ?thesis by (auto simp only: find_none valid_config_def)
qed

lemma DefaultConfig_intervals:
  "parseDuration frac ''30s'' = 30000000000" "parseDuration frac ''5s'' = 5000000000"
  "parseDuration frac ''15s'' = 15000000000" "parseDuration frac ''3s'' = 3000000000"
  "parseDuration frac ''120s'' = 120000000000"
  "ParseDuration frac ''30s'' \<noteq> None" "ParseDuration frac ''5s'' \<noteq> None"
  "ParseDuration frac ''15s'' \<noteq> None" "ParseDuration frac ''3s'' \<noteq> None" "ParseDuration frac ''120s'' \<noteq> None"
  by code_simp+

lemma DefaultConfig_valid: "valid_config frac DefaultConfig"
  by (simp add: valid_config_def DefaultConfig_def duration_fields_def DefaultConfig_intervals del: not_None_eq)

lemma DefaultConfig_accessors:
  "RouteAdvertisementInterval frac DefaultConfig = 30000000000" "PushInterval frac DefaultConfig = 5000000000"
  "PeerTimeout frac DefaultConfig = 15000000000" "ProbeInterval frac DefaultConfig = 3000000000"
  "SessionTTL frac DefaultConfig = 120000000000" "SessionGCInterval frac DefaultConfig = 30000000000"
  by (simp_all add: RouteAdvertisementInterval_def PushInterval_def PeerTimeout_def ProbeInterval_def
      SessionTTL_def SessionGCInterval_def DefaultConfig_def DefaultConfig_intervals)


definition example_config :: Config where
  "example_config = DefaultConfig\<lparr>cfg_Routing := (cfg_Routing DefaultConfig)\<lparr>rc_DirectNetworks := [''10.1.0.0/16'', ''2001:db8::/32'']\<rparr>\<rparr>"

lemma valid_example_config: "valid_config frac example_config"
proof -
  have "parseAddr ''10.1.0.0'' ''10.1.0.0'' = Some (IPv4 10 1 0 0, 32)"
    "parseAddr ''2001:db8::'' ''2001:db8::'' = Some ([0x20, 1, 0xd, 0xb8] @ replicate 12 0, 128)"
    by code_simp+
  moreover have "dtoi ''16'' = Some (16, [])" "dtoi ''32'' = Some (32, [])" by (simp_all add: dtoi_def decval_def)
  ultimately have "ParseCIDR ''10.1.0.0/16'' \<noteq> None" "ParseCIDR ''2001:db8::/32'' \<noteq> None"
    by (simp_all add: ParseCIDR_def del: parseAddr.simps)
  with DefaultConfig_valid [of frac] show ?thesis by (simp add: valid_config_def example_config_def duration_fields_def)
qed


end
