(* ===== verification/Wire_Gossip.thy ===== *)
theory Wire_Gossip
  imports Wire_Codec
begin

text \<open>
  The gossip messages of wire/gossip.go. Shown: the encoder writes the layout below, decoding
  gives back every message the format can carry (the interpretation \<open>gossip_codec\<close>), and no
  input makes the decoder panic.
\<close>

subsection \<open>Messages\<close>

text \<open>The state of a peer is an unchecked byte on the wire.\<close>

type_synonym PeerState = byte

definition PeerAlive :: PeerState where "PeerAlive = 0"
definition PeerSuspect :: PeerState where "PeerSuspect = 1"
definition PeerDead :: PeerState where "PeerDead = 2"
definition PeerLeft :: PeerState where "PeerLeft = 3"

record PeerEntry =
  pe_ID :: bytes
  pe_PubKey :: bytes
  pe_State :: PeerState
  pe_Version :: uint64
  pe_Addr :: string

record GossipPushMessage =
  gp_Peers :: "PeerEntry list"

subsection \<open>Encoder\<close>

definition put_entry :: "PeerEntry \<Rightarrow> go_buf \<Rightarrow> go_buf" where
  "put_entry p b =
     (let b = put_field 16 (pe_ID p) b;
          b = put_field 32 (pe_PubKey p) b;
          b = put_byte (pe_State p) b;
          b = put_u64 (pe_Version p) b;
          b = put_byte (of_nat (length (pe_Addr p))) b
      in put_field (length (pe_Addr p)) (bytes_of_string (pe_Addr p)) b)"

definition entry_size :: "PeerEntry \<Rightarrow> nat" where
  "entry_size p = 16 + 32 + 1 + 8 + 1 + length (pe_Addr p)"

definition EncodeGossipPush :: "GossipPushMessage \<Rightarrow> bytes" where
  "EncodeGossipPush msg =
     (let b = make_buf (1 + 2 + sum_list (map entry_size (gp_Peers msg)));
          b = put_byte MsgGossipPush b;
          b = put_u16 (of_nat (length (gp_Peers msg))) b
      in fst (fold put_entry (gp_Peers msg) b))"

definition EncodeGossipPull :: bytes where "EncodeGossipPull = [MsgGossipPull]"
definition EncodeGossipAck :: bytes where "EncodeGossipAck = [MsgGossipAck]"
definition EncodePing :: bytes where "EncodePing = [MsgPing]"
definition EncodePong :: bytes where "EncodePong = [MsgPong]"

subsection \<open>Decoder\<close>

fun decode_peers :: "nat \<Rightarrow> nat \<Rightarrow> nat \<Rightarrow> bytes \<Rightarrow> (wire_error, PeerEntry list) outcome" where
  "decode_peers i 0 off data = Return []"
| "decode_peers i (Suc n) off data =
     go_guard (off + 16 + 32 + 1 + 8 + 1 > length data) (TruncatedPeer i)
     (go_bind (slice_of data off (off + 16)) (\<lambda>pid.
      go_bind (slice_of data (off + 16) (off + 48)) (\<lambda>pubKey.
      go_bind (index_at data (off + 48)) (\<lambda>state.
      go_bind (Uint64_at data (off + 49)) (\<lambda>version.
      go_bind (index_at data (off + 57)) (\<lambda>len.
      let addrLen = unat len in
      go_guard (off + 58 + addrLen > length data) (TruncatedAddr i)
      (go_bind (slice_of data (off + 58) (off + 58 + addrLen)) (\<lambda>addr.
       go_bind (decode_peers (Suc i) n (off + 58 + addrLen) data) (\<lambda>peers.
         Return (\<lparr>pe_ID = pid, pe_PubKey = pubKey, pe_State = state, pe_Version = version,
                  pe_Addr = string_of_bytes addr\<rparr> # peers))))))))))"

definition DecodeGossipPush :: "bytes \<Rightarrow> (wire_error, GossipPushMessage) outcome" where
  "DecodeGossipPush data =
     go_guard (length data < 3) (TooShort (length data))
     (go_bind (index_at data 0) (\<lambda>typ.
      go_guard (typ \<noteq> MsgGossipPush) (UnexpectedType typ)
      (go_bind (Uint16_at data 1) (\<lambda>count.
       go_bind (decode_peers 0 (unat count) 3 data) (\<lambda>peers. Return \<lparr>gp_Peers = peers\<rparr>)))))"

subsection \<open>Layout\<close>

definition wf_PeerEntry :: "PeerEntry \<Rightarrow> bool" where
  "wf_PeerEntry p \<longleftrightarrow>
     length (pe_ID p) = 16 \<and> length (pe_PubKey p) = 32 \<and> length (pe_Addr p) < 256"

definition wf_GossipPush :: "GossipPushMessage \<Rightarrow> bool" where
  "wf_GossipPush msg \<longleftrightarrow> length (gp_Peers msg) < 65536 \<and> list_all wf_PeerEntry (gp_Peers msg)"

definition entry_layout :: "PeerEntry \<Rightarrow> bytes" where
  "entry_layout p =
     pe_ID p @ pe_PubKey p @ [pe_State p] @ PutUint64 (pe_Version p) @
     [of_nat (length (pe_Addr p))] @ bytes_of_string (pe_Addr p)"

definition gossip_layout :: "GossipPushMessage \<Rightarrow> bytes" where
  "gossip_layout msg =
     MsgGossipPush # PutUint16 (of_nat (length (gp_Peers msg))) @
     concat (map entry_layout (gp_Peers msg))"

lemma put_entry_written:
  "wf_PeerEntry p \<Longrightarrow> entry_size p \<le> k \<Longrightarrow>
     put_entry p (written pre k) = written (pre @ entry_layout p) (k - entry_size p)"
  by (simp add: put_entry_def entry_layout_def entry_size_def wf_PeerEntry_def go_write diff_diff_left)

lemma EncodeGossipPush_layout:
  assumes "wf_GossipPush msg"
  shows "EncodeGossipPush msg = gossip_layout msg"
proof -
  have "fold put_entry (gp_Peers msg) (written pre (sum_list (map entry_size (gp_Peers msg)))) =
    written (pre @ concat (map entry_layout (gp_Peers msg))) 0" for pre
    using assms fold_written [of "gp_Peers msg" entry_size put_entry entry_layout
        "sum_list (map entry_size (gp_Peers msg))" pre]
    by (simp add: wf_GossipPush_def list_all_iff put_entry_written)
  then show ?thesis
    by (simp add: EncodeGossipPush_def gossip_layout_def go_write)
qed

subsection \<open>Round trip\<close>

lemma decode_peers_append:
  "decode_peers i n (length ys + m) (ys @ xs) = decode_peers i n m xs"
proof (induction n arbitrary: i m)
  case 0
  then show ?case by simp
next
  case (Suc n)
  have "decode_peers j n (length ys + (m + k)) (ys @ xs) = decode_peers j n (m + k) xs" for j k
    by (rule Suc.IH)
  then show ?case
    by (simp add: add.assoc go_guard_def slice_of_skip index_at_skip Uint64_at_skip Let_def)
qed

lemma decode_peers_concat:
  "list_all wf_PeerEntry peers \<Longrightarrow>
     decode_peers i (length peers) 0 (concat (map entry_layout peers) @ rest) = Return peers"
proof (induction peers arbitrary: i)
  case Nil
  then show ?case by simp
next
  case (Cons p peers)
  let ?more = "concat (map entry_layout peers) @ rest"
  from Cons.prems have wf: "wf_PeerEntry p" by simp
  then have "length (entry_layout p) = 58 + length (pe_Addr p)"
    by (simp add: entry_layout_def wf_PeerEntry_def)
  with decode_peers_append [of "Suc i" "length peers" "entry_layout p" 0 ?more]
  have "decode_peers (Suc i) (length peers) (58 + length (pe_Addr p)) (entry_layout p @ ?more)
    = Return peers"
    using Cons by simp
  with wf show ?case
    by (simp add: go_read go_guard_def Let_def entry_layout_def [of p] wf_PeerEntry_def)
qed

lemma Decode_gossip_layout:
  "wf_GossipPush msg \<Longrightarrow> DecodeGossipPush (gossip_layout msg @ rest) = Return msg"
  using decode_peers_append [of 0 "length (gp_Peers msg)" "MsgGossipPush # PutUint16 (of_nat (length (gp_Peers msg)))"
      0 "concat (map entry_layout (gp_Peers msg)) @ rest"]
  by (simp add: DecodeGossipPush_def gossip_layout_def wf_GossipPush_def go_read decode_peers_concat)

interpretation gossip_codec:
  codec EncodeGossipPush DecodeGossipPush wf_GossipPush "\<lambda>m. m" MsgGossipPush
proof unfold_locales
  show "DecodeGossipPush (EncodeGossipPush m @ rest) = Return m" if "wf_GossipPush m" for m rest
    using that by (simp add: EncodeGossipPush_layout Decode_gossip_layout)
  show "\<exists>body. EncodeGossipPush m = MsgGossipPush # body" if "wf_GossipPush m" for m
    using that by (simp add: EncodeGossipPush_layout gossip_layout_def)
  show "\<exists>body. data = MsgGossipPush # body" if "DecodeGossipPush data = Return m" for data m
    using that
    by (cases data) (auto simp: DecodeGossipPush_def go_guard_def go_read go_outcome split: if_splits)
qed simp_all

subsection \<open>Inputs from the network\<close>

lemma decode_peers_no_panic: "decode_peers i n off data \<noteq> Panic"
  by (induction n arbitrary: i off)
     (auto simp: go_guard_def go_outcome slice_of_Return index_at_Return Uint64_at_Return Let_def
       split: if_splits)

lemma decode_peers_wf:
  "decode_peers i n off data = Return peers \<Longrightarrow> length peers = n \<and> list_all wf_PeerEntry peers"
proof (induction n arbitrary: i off peers)
  case 0
  then show ?case by simp
next
  case (Suc n)
  from Suc.prems obtain pid pubKey state version len addr more where
      "slice_of data off (off + 16) = (Return pid :: (wire_error, bytes) outcome)"
      "slice_of data (off + 16) (off + 48) = (Return pubKey :: (wire_error, bytes) outcome)"
      "slice_of data (off + 58) (off + 58 + unat (len :: byte)) = (Return addr :: (wire_error, bytes) outcome)"
      and more: "decode_peers (Suc i) n (off + 58 + unat len) data = Return more"
      and peers: "peers = \<lparr>pe_ID = pid, pe_PubKey = pubKey, pe_State = state, pe_Version = version,
        pe_Addr = string_of_bytes addr\<rparr> # more"
    by (auto simp: go_guard_def go_outcome Let_def split: if_splits)
  then have "length pid = 16" "length pubKey = 32" "length addr = unat len"
    by (auto dest!: slice_of_length)
  with Suc.IH [OF more] peers show ?case by (simp add: wf_PeerEntry_def)
qed

lemma DecodeGossipPush_wf: "DecodeGossipPush data = Return msg \<Longrightarrow> wf_GossipPush msg"
proof -
  have u16: "unat (v :: uint16) < 65536" for v
    by (rule order_less_le_trans [OF unsigned_less]) simp
  show "DecodeGossipPush data = Return msg \<Longrightarrow> wf_GossipPush msg"
    by (auto simp: DecodeGossipPush_def wf_GossipPush_def go_guard_def go_outcome u16
        dest!: decode_peers_wf split: if_splits)
qed

lemma DecodeGossipPush_no_panic: "DecodeGossipPush data \<noteq> Panic"
  by (cases data) (auto simp: DecodeGossipPush_def go_guard_def go_outcome index_at_skip Uint16_at_Return
      decode_peers_no_panic split: if_splits)

subsection \<open>Properties\<close>

text \<open>C26: Gossip pushes survive the wire: up to 65535 peers, with addresses of up to 255 bytes,
  are decoded to the very entries that were encoded, whatever follows them; what the decoder
  accepts is such a message; and no input makes it panic.\<close>

theorem GossipPush_roundtrip:
  "(\<forall>msg trailing. wf_GossipPush msg \<longrightarrow>
      DecodeGossipPush (EncodeGossipPush msg @ trailing) = Return msg) \<and>
   (\<forall>data msg. DecodeGossipPush data = Return msg \<longrightarrow>
      wf_GossipPush msg \<and> DecodeGossipPush (EncodeGossipPush msg) = Return msg) \<and>
   (\<forall>data. DecodeGossipPush data \<noteq> Panic)"
proof (intro conjI allI impI)
  show "DecodeGossipPush (EncodeGossipPush msg @ trailing) = Return msg" if "wf_GossipPush msg"
    for msg trailing
    using that by (rule gossip_codec.dec_enc)
  show "wf_GossipPush msg" if "DecodeGossipPush data = Return msg" for data msg
    using that by (rule DecodeGossipPush_wf)
  then show "DecodeGossipPush (EncodeGossipPush msg) = Return msg"
    if "DecodeGossipPush data = Return msg" for data msg
    using that gossip_codec.decodes_encoded by blast
  show "DecodeGossipPush data \<noteq> Panic" for data by (rule DecodeGossipPush_no_panic)
qed

theorem GossipPush_roundtrip_witness:
  "DecodeGossipPush (EncodeGossipPush \<lparr>gp_Peers = [\<lparr>pe_ID = replicate 16 1, pe_PubKey = replicate 32 2,
     pe_State = PeerAlive, pe_Version = 7, pe_Addr = ''10.0.0.1:9443''\<rparr>]\<rparr> @ replicate 64 0)
   = Return \<lparr>gp_Peers = [\<lparr>pe_ID = replicate 16 1, pe_PubKey = replicate 32 2,
     pe_State = PeerAlive, pe_Version = 7, pe_Addr = ''10.0.0.1:9443''\<rparr>]\<rparr>"
  by (rule GossipPush_roundtrip [THEN conjunct1, rule_format])
     (simp add: wf_GossipPush_def wf_PeerEntry_def)

end
