(* ===== verification/Gossip_Peer.thy ===== *)
theory Gossip_Peer
  imports Wire_Gossip "HOL-Library.Multiset"
begin

text \<open>
  The peer manager of gossip/peer.go: the known peers by the text form of their identifier, the
  version rule by which reports about a peer are merged, the failure detector's marks, and the
  random choice of peers with the xorshift generator and the Fisher-Yates shuffle of the source.
  The states are the constants of wire/gossip.go, which gossip/peer.go repeats with the same
  values. The clock and the iteration orders of the map are arguments, and so is the state of
  the generator, which the operations that draw from it return.

  Shown: the invariant of the map, the merge rule on every branch, that versions never go back,
  that the random choice returns different, alive peers in the number asked for, and that the
  generator never gets stuck at zero.
\<close>

subsection \<open>State\<close>

record Peer =
  pr_ID :: NodeID
  pr_PubKey :: bytes
  pr_Addr :: string
  pr_State :: PeerState
  pr_Version :: uint64
  pr_LastSeen :: go_time
  pr_DirectNets :: "string list"

record PeerManager =
  pm_peers :: "string \<rightharpoonup> Peer"
  pm_selfID :: NodeID

definition NewPeerManager :: "NodeID \<Rightarrow> PeerManager" where
  "NewPeerManager selfID = \<lparr>pm_peers = Map.empty, pm_selfID = selfID\<rparr>"

definition Peer_copy :: "Peer \<Rightarrow> Peer" where
  "Peer_copy p =
     \<lparr>pr_ID = pr_ID p,
      pr_PubKey = (if length (pr_PubKey p) > 0 then copy_array (length (pr_PubKey p)) (pr_PubKey p) else []),
      pr_Addr = pr_Addr p, pr_State = pr_State p, pr_Version = pr_Version p, pr_LastSeen = pr_LastSeen p,
      pr_DirectNets = (if length (pr_DirectNets p) > 0 then map (\<lambda>net. net) (pr_DirectNets p) else [])\<rparr>"

subsection \<open>Updates\<close>

definition AddOrUpdate :: "go_time \<Rightarrow> Peer \<Rightarrow> PeerManager \<Rightarrow> bool \<times> PeerManager" where
  "AddOrUpdate now p pm =
     (if NodeID_Equal (pr_ID p) (pm_selfID pm) then (False, pm)
      else (let key = NodeID_String (pr_ID p)
        in case pm_peers pm key of
             None \<Rightarrow>
               (let cp = (Peer_copy p)\<lparr>pr_LastSeen := now, pr_Version := 1\<rparr>
                in (True, pm\<lparr>pm_peers := (pm_peers pm)(key \<mapsto> cp)\<rparr>))
           | Some existing \<Rightarrow>
               (if pr_Version p > pr_Version existing \<or>
                   (pr_Version p = pr_Version existing \<and> pr_State p = PeerAlive) then
                  (let cp = (Peer_copy existing)\<lparr>pr_State := pr_State p, pr_Version := pr_Version p,
                              pr_Addr := pr_Addr p, pr_LastSeen := now, pr_DirectNets := pr_DirectNets p\<rparr>;
                       cp = (if length (pr_PubKey p) > 0 then cp\<lparr>pr_PubKey := pr_PubKey p\<rparr> else cp)
                   in (True, pm\<lparr>pm_peers := (pm_peers pm)(key \<mapsto> cp)\<rparr>))
                else (False, pm))))"

definition PeerManager_Remove :: "NodeID \<Rightarrow> PeerManager \<Rightarrow> PeerManager" where
  "PeerManager_Remove nid pm = pm\<lparr>pm_peers := (pm_peers pm)(NodeID_String nid := None)\<rparr>"

definition PeerManager_Get :: "NodeID \<Rightarrow> PeerManager \<Rightarrow> Peer option" where
  "PeerManager_Get nid pm = pm_peers pm (NodeID_String nid)"

definition MarkSuspect :: "NodeID \<Rightarrow> PeerManager \<Rightarrow> PeerManager" where
  "MarkSuspect nid pm =
     (case pm_peers pm (NodeID_String nid) of
        None \<Rightarrow> pm
      | Some p \<Rightarrow>
          (if pr_State p = PeerAlive then
             (let cp = (Peer_copy p)\<lparr>pr_State := PeerSuspect, pr_Version := pr_Version p + 1\<rparr>
              in pm\<lparr>pm_peers := (pm_peers pm)(NodeID_String nid \<mapsto> cp)\<rparr>)
           else pm))"

definition MarkDead :: "NodeID \<Rightarrow> PeerManager \<Rightarrow> PeerManager" where
  "MarkDead nid pm =
     (case pm_peers pm (NodeID_String nid) of
        None \<Rightarrow> pm
      | Some p \<Rightarrow>
          (let cp = (Peer_copy p)\<lparr>pr_State := PeerDead, pr_Version := pr_Version p + 1\<rparr>
           in pm\<lparr>pm_peers := (pm_peers pm)(NodeID_String nid \<mapsto> cp)\<rparr>))"

definition MarkAlive :: "go_time \<Rightarrow> NodeID \<Rightarrow> PeerManager \<Rightarrow> PeerManager" where
  "MarkAlive now nid pm =
     (case pm_peers pm (NodeID_String nid) of
        None \<Rightarrow> pm
      | Some p \<Rightarrow>
          (let cp = (Peer_copy p)\<lparr>pr_State := PeerAlive, pr_LastSeen := now\<rparr>
           in pm\<lparr>pm_peers := (pm_peers pm)(NodeID_String nid \<mapsto> cp)\<rparr>))"

subsection \<open>Queries\<close>

definition GetAll :: "string list \<Rightarrow> PeerManager \<Rightarrow> Peer list" where
  "GetAll order pm = List.map_filter (pm_peers pm) order"

definition GetAlive :: "string list \<Rightarrow> PeerManager \<Rightarrow> Peer list" where
  "GetAlive order pm = filter (\<lambda>p. pr_State p = PeerAlive) (GetAll order pm)"

definition Count :: "string list \<Rightarrow> PeerState \<Rightarrow> PeerManager \<Rightarrow> nat" where
  "Count order state pm =
     fold (\<lambda>p count. if pr_State p = state then count + 1 else count) (GetAll order pm) 0"

subsection \<open>Random choice\<close>

definition fastRand :: "uint32 \<Rightarrow> uint32" where
  "fastRand s =
     (let s = s XOR push_bit 13 s;
          s = s XOR drop_bit 17 s;
          s = s XOR push_bit 5 s
      in s)"

fun shuffle :: "nat \<Rightarrow> 'a list \<Rightarrow> uint32 \<Rightarrow> 'a list \<times> uint32" where
  "shuffle 0 result rng = (result, rng)"
| "shuffle (Suc i) result rng =
     (let rng = fastRand rng;
          j = unat (rng mod of_nat (Suc i + 1));
          result = result[Suc i := result ! j, j := result ! Suc i]
      in shuffle i result rng)"

text \<open>A negative number of peers makes the final slice expression panic.\<close>

definition GetRandom ::
  "string list \<Rightarrow> int \<Rightarrow> NodeID \<Rightarrow> PeerManager \<Rightarrow> uint32 \<Rightarrow> (unit, Peer list \<times> uint32) outcome" where
  "GetRandom order n exclude pm rng =
     (let alive = filter (\<lambda>p. pr_State p = PeerAlive \<and> \<not> NodeID_Equal (pr_ID p) exclude) (GetAll order pm)
      in if int (length alive) \<le> n then Return (alive, rng)
         else (let (result, rng') = shuffle (length alive - 1) alive rng
               in if n < 0 then Panic else Return (take (nat n) result, rng')))"

subsection \<open>The invariant of the map\<close>

text \<open>A peer is stored under the text form of its identifier, and this node is not its own peer.\<close>

definition wf_peers :: "PeerManager \<Rightarrow> bool" where
  "wf_peers pm \<longleftrightarrow> (\<forall>key p. pm_peers pm key = Some p \<longrightarrow>
     key = NodeID_String (pr_ID p) \<and> pr_ID p \<noteq> pm_selfID pm)"

lemma Peer_copy_eq [simp]: "Peer_copy p = p"
  by (cases p) (simp add: Peer_copy_def)

lemma wf_peers_New [simp]: "wf_peers (NewPeerManager self)"
  by (simp add: wf_peers_def NewPeerManager_def)

lemma wf_peers_upd:
  "wf_peers pm \<Longrightarrow> pr_ID p \<noteq> pm_selfID pm \<Longrightarrow>
     wf_peers (pm\<lparr>pm_peers := (pm_peers pm)(NodeID_String (pr_ID p) \<mapsto> p)\<rparr>)"
  by (auto simp: wf_peers_def)

lemma wf_peers_Get:
  "wf_peers pm \<Longrightarrow> PeerManager_Get nid pm = Some p \<Longrightarrow> pr_ID p = nid \<and> nid \<noteq> pm_selfID pm"
  unfolding wf_peers_def PeerManager_Get_def by (metis NodeID_String_inject)

text \<open>Every update rewrites at most the entry of one identifier and leaves its identifier in place.\<close>

lemma wf_peers_rewrite:
  assumes "wf_peers pm" and "PeerManager_Get nid pm = Some p" and "pr_ID p' = pr_ID p"
  shows "wf_peers (pm\<lparr>pm_peers := (pm_peers pm)(NodeID_String nid \<mapsto> p')\<rparr>)"
  using wf_peers_upd [OF assms(1), of p'] wf_peers_Get [OF assms(1,2)] assms(3) by simp

lemma AddOrUpdate_wf: "wf_peers pm \<Longrightarrow> wf_peers (snd (AddOrUpdate now p pm))"
  using wf_peers_upd [of pm "p\<lparr>pr_LastSeen := now, pr_Version := 1\<rparr>"]
  by (auto simp: AddOrUpdate_def Let_def NodeID_Equal_def PeerManager_Get_def
      intro: wf_peers_rewrite split: option.split)

lemma Mark_wf:
  "wf_peers pm \<Longrightarrow> wf_peers (MarkSuspect nid pm)"
  "wf_peers pm \<Longrightarrow> wf_peers (MarkDead nid pm)"
  "wf_peers pm \<Longrightarrow> wf_peers (MarkAlive now nid pm)"
  by (auto simp: MarkSuspect_def MarkDead_def MarkAlive_def Let_def PeerManager_Get_def
      intro: wf_peers_rewrite split: option.split)

lemma Remove_wf: "wf_peers pm \<Longrightarrow> wf_peers (PeerManager_Remove nid pm)"
  by (auto simp: wf_peers_def PeerManager_Remove_def)

lemma selfID_peer_ops [simp]:
  "pm_selfID (snd (AddOrUpdate now p pm)) = pm_selfID pm"
  "pm_selfID (MarkSuspect nid pm) = pm_selfID pm"
  "pm_selfID (MarkDead nid pm) = pm_selfID pm"
  "pm_selfID (MarkAlive now nid pm) = pm_selfID pm"
  "pm_selfID (PeerManager_Remove nid pm) = pm_selfID pm"
  by (simp_all add: AddOrUpdate_def MarkSuspect_def MarkDead_def MarkAlive_def PeerManager_Remove_def Let_def
      split: option.split)

subsection \<open>Merging reports\<close>

text \<open>The entry after a report: the later version wins, an equal one only when it says alive.\<close>

definition merge_peer :: "go_time \<Rightarrow> Peer \<Rightarrow> Peer option \<Rightarrow> Peer" where
  "merge_peer now p old =
     (case old of
        None \<Rightarrow> p\<lparr>pr_LastSeen := now, pr_Version := 1\<rparr>
      | Some e \<Rightarrow>
          if pr_Version e < pr_Version p \<or> pr_Version e = pr_Version p \<and> pr_State p = PeerAlive
          then p\<lparr>pr_ID := pr_ID e, pr_LastSeen := now,
                 pr_PubKey := if pr_PubKey p = [] then pr_PubKey e else pr_PubKey p\<rparr>
          else e)"

lemma Get_AddOrUpdate:
  "PeerManager_Get nid (snd (AddOrUpdate now p pm)) =
     (if nid = pr_ID p \<and> nid \<noteq> pm_selfID pm then Some (merge_peer now p (PeerManager_Get nid pm))
      else PeerManager_Get nid pm)"
  by (auto simp: AddOrUpdate_def PeerManager_Get_def merge_peer_def NodeID_Equal_def Let_def
      NodeID_String_inject split: option.split)

lemma Get_Mark:
  "PeerManager_Get nid (MarkSuspect nid' pm) =
     (if nid = nid' then map_option (\<lambda>p. if pr_State p = PeerAlive
        then p\<lparr>pr_State := PeerSuspect, pr_Version := pr_Version p + 1\<rparr> else p) (PeerManager_Get nid pm)
      else PeerManager_Get nid pm)"
  "PeerManager_Get nid (MarkDead nid' pm) =
     (if nid = nid' then map_option (\<lambda>p. p\<lparr>pr_State := PeerDead, pr_Version := pr_Version p + 1\<rparr>) (PeerManager_Get nid pm)
      else PeerManager_Get nid pm)"
  "PeerManager_Get nid (MarkAlive now nid' pm) =
     (if nid = nid' then map_option (\<lambda>p. p\<lparr>pr_State := PeerAlive, pr_LastSeen := now\<rparr>) (PeerManager_Get nid pm)
      else PeerManager_Get nid pm)"
  by (auto simp: MarkSuspect_def MarkDead_def MarkAlive_def PeerManager_Get_def Let_def
      NodeID_String_inject split: option.split)

subsection \<open>The interface of the peer manager\<close>

text \<open>
  What the gossip engine relies on: a report makes its subject known, unless that is the node
  itself, and makes nobody unknown. A list of reports then makes exactly their subjects known.
\<close>

locale peer_directory =
  fixes inv :: "'d \<Rightarrow> bool" and self :: "'d \<Rightarrow> 'i" and get :: "'i \<Rightarrow> 'd \<Rightarrow> 'p option"
    and subject :: "'p \<Rightarrow> 'i" and add :: "go_time \<Rightarrow> 'p \<Rightarrow> 'd \<Rightarrow> bool \<times> 'd"
  assumes inv_add: "inv d \<Longrightarrow> inv (snd (add now p d))"
    and self_add: "self (snd (add now p d)) = self d"
    and get_self: "inv d \<Longrightarrow> get (self d) d = None"
    and known_add: "get i (snd (add now p d)) \<noteq> None \<longleftrightarrow> get i d \<noteq> None \<or> i = subject p \<and> i \<noteq> self d"
begin

lemma inv_reports: "inv d \<Longrightarrow> inv (fold (\<lambda>(now, p) d. snd (add now p d)) reports d)"
  by (induction reports arbitrary: d) (auto simp: inv_add)

lemma self_reports: "self (fold (\<lambda>(now, p) d. snd (add now p d)) reports d) = self d"
  by (induction reports arbitrary: d) (auto simp: self_add)

lemma known_reports:
  "get i (fold (\<lambda>(now, p) d. snd (add now p d)) reports d) \<noteq> None \<longleftrightarrow>
     get i d \<noteq> None \<or> i \<in> subject ` snd ` set reports \<and> i \<noteq> self d"
proof (induction reports arbitrary: d)
  case (Cons report reports)
  obtain now p where report: "report = (now, p)" by (cases report)
  show ?case
    by (simp only: report fold_simps prod.case Cons.IH known_add self_add list.set image_insert snd_conv) blast
qed simp

end

interpretation directory: peer_directory wf_peers pm_selfID PeerManager_Get pr_ID AddOrUpdate
proof
  show "PeerManager_Get (pm_selfID pm) pm = None" if "wf_peers pm" for pm
    using wf_peers_Get [OF that] by (cases "PeerManager_Get (pm_selfID pm) pm") blast+
qed (auto simp: AddOrUpdate_wf Get_AddOrUpdate)

subsection \<open>The generator\<close>

text \<open>
  Each of the three shifts loses nothing: a word that equals its own shift is zero. So the
  generator maps only zero to zero, and the initial state 1 never leads there.
\<close>

lemma funpow_shift:
  "push_bit k x = x \<Longrightarrow> push_bit (n * k) x = x" "drop_bit k x = x \<Longrightarrow> drop_bit (n * k) x = x"
  for x :: "'a::len word"
  by (induction n) (simp_all add: push_bit_push_bit [symmetric] drop_bit_drop_bit [symmetric]
      del: push_bit_push_bit drop_bit_drop_bit)

lemma shift_fixpoint:
  fixes x :: "'a::len word"
  assumes "push_bit (Suc k) x = x \<or> drop_bit (Suc k) x = x"
  shows "x = 0"
proof -
  let ?n = "LENGTH('a) * Suc k"
  have "push_bit ?n x = 0" "drop_bit ?n x = 0"
    by (auto intro!: bit_word_eqI simp: bit_simps dest: bit_imp_le_length)
  then show ?thesis using assms funpow_shift [of "Suc k" x "LENGTH('a)"] by metis
qed

lemma xor_shift_zero:
  fixes x :: uint32
  shows "x XOR push_bit 13 x = 0 \<longleftrightarrow> x = 0" "x XOR drop_bit 17 x = 0 \<longleftrightarrow> x = 0" "x XOR push_bit 5 x = 0 \<longleftrightarrow> x = 0"
proof -
  have eq: "a XOR b = 0 \<longleftrightarrow> b = a" for a b :: uint32
    by (metis xor.assoc xor.left_neutral xor.right_neutral xor_self_eq)
  show "x XOR push_bit 13 x = 0 \<longleftrightarrow> x = 0" "x XOR drop_bit 17 x = 0 \<longleftrightarrow> x = 0" "x XOR push_bit 5 x = 0 \<longleftrightarrow> x = 0"
    unfolding eq
    using shift_fixpoint [of 12 x] shift_fixpoint [of 16 x] shift_fixpoint [of 4 x]
    by (auto simp: numeral_eq_Suc)
qed

lemma fastRand_zero_iff: "fastRand s = 0 \<longleftrightarrow> s = 0"
  by (simp only: fastRand_def Let_def xor_shift_zero)

subsection \<open>The shuffle\<close>

lemma shuffle_index: "Suc i + 1 < 4294967296 \<Longrightarrow> unat (r mod of_nat (Suc i + 1) :: uint32) \<le> Suc i"
proof -
  assume "Suc i + 1 < 4294967296"
  then have "unat (of_nat (Suc i + 1) :: uint32) = Suc i + 1" by (rule unat_of_nat_uint32)
  then have "unat (r mod of_nat (Suc i + 1)) = unat r mod (Suc i + 1)" by (simp add: unat_mod)
  then show "unat (r mod of_nat (Suc i + 1)) \<le> Suc i"
    using mod_less_divisor [of "Suc i + 1" "unat r"] by linarith
qed

lemma shuffle_mset:
  "i < length xs \<Longrightarrow> length xs < 4294967296 \<Longrightarrow> mset (fst (shuffle i xs rng)) = mset xs"
proof (induction i xs rng rule: shuffle.induct)
  case (2 i xs rng)
  let ?r = "fastRand rng"
  let ?j = "unat (?r mod of_nat (Suc i + 1))"
  have "?j < length xs" using shuffle_index [of i ?r] 2(2,3) by linarith
  then have "mset (xs[Suc i := xs ! ?j, ?j := xs ! Suc i]) = mset xs"
    using 2(2) by (intro mset_swap) auto
  moreover have "mset (fst (shuffle i (xs[Suc i := xs ! ?j, ?j := xs ! Suc i]) ?r)) =
      mset (xs[Suc i := xs ! ?j, ?j := xs ! Suc i])"
    by (rule 2(1)) (use 2(2,3) in auto)
  ultimately show ?case by (simp add: Let_def)
qed simp

subsection \<open>Listing peers\<close>

lemma set_GetAll: "set (GetAll order pm) = {p. \<exists>key\<in>set order. pm_peers pm key = Some p}"
  by (auto simp: GetAll_def List.map_filter_def image_iff) force

lemma distinct_GetAll:
  assumes "wf_peers pm" and "distinct order"
  shows "distinct (map pr_ID (GetAll order pm))"
  using assms(2)
proof (induction order)
  case (Cons key order)
  show ?case
  proof (cases "pm_peers pm key")
    case (Some p)
    have "pr_ID p \<noteq> pr_ID q" if "q \<in> set (GetAll order pm)" for q
      using that Some assms(1) Cons.prems by (auto simp: set_GetAll wf_peers_def) metis
    with Some Cons show ?thesis by (auto simp: GetAll_def List.map_filter_def image_iff)
  qed (use Cons in \<open>simp add: GetAll_def List.map_filter_def\<close>)
qed (simp add: GetAll_def List.map_filter_def)

lemma Count_eq: "Count order state pm = length (filter (\<lambda>p. pr_State p = state) (GetAll order pm))"
proof -
  have "fold (\<lambda>p n. if pr_State p = state then n + 1 else n) ps n = n + length (filter (\<lambda>p. pr_State p = state) ps)"
    for ps :: "Peer list" and n :: nat
    by (induction ps arbitrary: n) simp_all
  then show ?thesis by (simp add: Count_def)
qed

subsection \<open>Properties\<close>

text \<open>
  C22: The version rule. After a report about a peer other than this node, the entry of that peer
  is the merge of the old entry and the report: a report of a later version, or of the same
  version that says alive, replaces state, version, address and networks and keeps a known key
  when it brings none; an unknown peer starts at version 1; any other report changes nothing. No
  other entry changes, the version never goes back, and the operation tells whether it stored
  the report.
\<close>

theorem AddOrUpdate_merges:
  assumes "wf_peers pm" and "AddOrUpdate now p pm = (stored, pm')"
  shows "wf_peers pm' \<and>
    (\<forall>nid. PeerManager_Get nid pm' =
       (if nid = pr_ID p \<and> nid \<noteq> pm_selfID pm then Some (merge_peer now p (PeerManager_Get nid pm))
        else PeerManager_Get nid pm)) \<and>
    (\<forall>nid old. PeerManager_Get nid pm = Some old \<longrightarrow>
       (\<exists>new. PeerManager_Get nid pm' = Some new \<and> pr_Version old \<le> pr_Version new)) \<and>
    (stored \<longleftrightarrow> pr_ID p \<noteq> pm_selfID pm \<and> (\<forall>old. PeerManager_Get (pr_ID p) pm = Some old \<longrightarrow>
       pr_Version old < pr_Version p \<or> pr_Version old = pr_Version p \<and> pr_State p = PeerAlive))"
proof (intro conjI)
  show "wf_peers pm'" using AddOrUpdate_wf [OF assms(1), of now p] assms(2) by simp
  show get: "\<forall>nid. PeerManager_Get nid pm' =
       (if nid = pr_ID p \<and> nid \<noteq> pm_selfID pm then Some (merge_peer now p (PeerManager_Get nid pm))
        else PeerManager_Get nid pm)"
    using Get_AddOrUpdate [of _ now p pm] assms(2) by simp
  show "\<forall>nid old. PeerManager_Get nid pm = Some old \<longrightarrow>
       (\<exists>new. PeerManager_Get nid pm' = Some new \<and> pr_Version old \<le> pr_Version new)"
    unfolding get [rule_format] by (auto simp: merge_peer_def)
  show "stored \<longleftrightarrow> pr_ID p \<noteq> pm_selfID pm \<and> (\<forall>old. PeerManager_Get (pr_ID p) pm = Some old \<longrightarrow>
       pr_Version old < pr_Version p \<or> pr_Version old = pr_Version p \<and> pr_State p = PeerAlive)"
    using assms(2)
    by (auto simp: AddOrUpdate_def NodeID_Equal_def PeerManager_Get_def Let_def split: option.splits if_splits)
qed

definition example_peer :: "byte \<Rightarrow> PeerState \<Rightarrow> uint64 \<Rightarrow> Peer" where
  "example_peer b state version =
     \<lparr>pr_ID = replicate 16 b, pr_PubKey = replicate 32 b, pr_Addr = ''192.0.2.1:7000'', pr_State = state,
      pr_Version = version, pr_LastSeen = 0, pr_DirectNets = []\<rparr>"

definition example_peers :: PeerManager where
  "example_peers = snd (AddOrUpdate 2 (example_peer 4 PeerAlive 1) (snd (AddOrUpdate 2 (example_peer 3 PeerAlive 1)
     (snd (AddOrUpdate 1 (example_peer 2 PeerAlive 1) (NewPeerManager (replicate 16 1)))))))"

lemma wf_example_peers: "wf_peers example_peers"
  by (simp add: example_peers_def AddOrUpdate_wf)

theorem AddOrUpdate_merges_witness:
  "wf_peers (snd (AddOrUpdate 5 (example_peer 2 PeerDead 0) example_peers)) \<and>
   \<not> fst (AddOrUpdate 5 (example_peer 2 PeerDead 0) example_peers)"
proof
  show "wf_peers (snd (AddOrUpdate 5 (example_peer 2 PeerDead 0) example_peers))"
    using AddOrUpdate_merges [OF wf_example_peers surjective_pairing] by blast
  show "\<not> fst (AddOrUpdate 5 (example_peer 2 PeerDead 0) example_peers)" by code_simp
qed

text \<open>
  The random choice of gossip targets. For any state of the generator and any iteration order,
  GetRandom returns without panic a list of different peers, all alive and none of them the
  excluded one; it has all such peers when there are at most n, and exactly n otherwise.
\<close>

theorem GetRandom_samples:
  assumes "wf_peers pm" and "range_order (pm_peers pm) order" and "length order < 4294967296"
    and "eligible = {p. (\<exists>key. pm_peers pm key = Some p) \<and> pr_State p = PeerAlive \<and> pr_ID p \<noteq> exclude}"
  shows "\<exists>ps rng'. GetRandom order (int n) exclude pm rng = Return (ps, rng') \<and>
    distinct (map pr_ID ps) \<and> set ps \<subseteq> eligible \<and> length ps = min n (card eligible)"
proof -
  let ?alive = "filter (\<lambda>p. pr_State p = PeerAlive \<and> pr_ID p \<noteq> exclude) (GetAll order pm)"
  have set: "set ?alive = eligible"
    using assms(2,4) by (auto simp: set_GetAll range_order_def)
  have dist: "distinct (map pr_ID ?alive)"
    using distinct_GetAll [OF assms(1)] assms(2) by (auto simp: range_order_def distinct_map_filter)
  then have card: "card eligible = length ?alive"
    using distinct_card [of ?alive] set by (simp add: distinct_map)
  have len: "length ?alive < 4294967296"
    using assms(3) by (auto simp: GetAll_def List.map_filter_def intro: le_less_trans [OF length_filter_le])
  show ?thesis
  proof (cases "length ?alive \<le> n")
    case True
    with dist set card show ?thesis
      by (intro exI [of _ ?alive] exI [of _ rng]) (simp add: GetRandom_def NodeID_Equal_def)
  next
    case False
    let ?shuffled = "fst (shuffle (length ?alive - 1) ?alive rng)"
    have mset: "mset ?shuffled = mset ?alive"
      using False len by (intro shuffle_mset) auto
    then have "mset (map pr_ID ?shuffled) = mset (map pr_ID ?alive)" by (simp only: mset_map)
    from mset_eq_imp_distinct_iff [OF this] dist have "distinct (map pr_ID ?shuffled)" by blast
    then have "distinct (map pr_ID (take n ?shuffled))"
      by (simp add: take_map [symmetric])
    moreover have "set (take n ?shuffled) \<subseteq> eligible"
      using mset_eq_setD [OF mset] set set_take_subset [of n ?shuffled] by auto
    moreover have "length (take n ?shuffled) = min n (card eligible)"
      using mset_eq_length [OF mset] card by (simp add: min.commute)
    ultimately show ?thesis
      using False by (intro exI [of _ "take n ?shuffled"])
        (simp add: GetRandom_def NodeID_Equal_def case_prod_beta Let_def)
  qed
qed

definition example_peer_keys :: "string list" where
  "example_peer_keys = map (\<lambda>b. NodeID_String (replicate 16 b)) [3, 2, 4]"

lemma example_peers_order: "range_order (pm_peers example_peers) example_peer_keys"
proof -
  have "NodeID_Equal (replicate 16 b) (replicate 16 1) \<longleftrightarrow> b = 1" for b :: byte
    by (simp add: NodeID_Equal_def)
  then have "dom (pm_peers example_peers) = set example_peer_keys"
    by (auto simp: example_peers_def AddOrUpdate_def example_peer_def NewPeerManager_def Let_def
        example_peer_keys_def NodeID_String_inject split: if_splits)
  then show ?thesis by (simp add: range_order_def example_peer_keys_def NodeID_String_inject)
qed

theorem GetRandom_samples_witness:
  "\<exists>ps rng'. GetRandom example_peer_keys (int 2) zero_NodeID example_peers 1 = Return (ps, rng') \<and>
     distinct (map pr_ID ps) \<and>
     length ps = min 2 (card {p. (\<exists>key. pm_peers example_peers key = Some p) \<and> pr_State p = PeerAlive \<and> pr_ID p \<noteq> zero_NodeID})"
  using GetRandom_samples [OF wf_example_peers example_peers_order _ refl, of 2 zero_NodeID 1]
  by (auto simp: example_peer_keys_def)

text \<open>
  The generator behind the random choices never sticks: the state of fastRand is zero only
  when it was zero before, so from the initial state 1 every drawn value is non-zero.
\<close>

theorem fastRand_never_zero: "(fastRand s = 0 \<longleftrightarrow> s = 0) \<and> (fastRand ^^ n) 1 \<noteq> 0"
  by (induction n) (simp_all add: fastRand_zero_iff)

end
