(* ===== verification/Gossip_Engine.thy ===== *)
theory Gossip_Engine
  imports Gossip_Peer
begin

text \<open>
  The gossip engine of gossip/gossip.go. A connection is a number; what a control stream is
  given to write, and the peers reported to the discovery callback, are the engine's actions, in
  order. Whether a write fails is an argument (\<open>fails\<close>), as are the clock, the iteration orders
  and the state of the random generator. The loops \<open>pushLoop\<close> and \<open>probeLoop\<close> run
  \<open>pushToRandom\<close> and \<open>probeRandomPeer\<close> at every tick until they are stopped; the timer that
  \<open>probeRandomPeer\<close> starts is the separate step \<open>probe_timeout\<close>.

  Shown: no message makes the engine panic or break the invariant of its peers; a push spreads
  everything the sender knows; only direct connections are written to, with signed messages; and
  a peer that was marked dead stays dead when it connects again.
\<close>

subsection \<open>State\<close>

record GossipConfig =
  gc_PushInterval :: duration
  gc_ProbeInterval :: duration
  gc_PeerTimeout :: duration
  gc_Fanout :: int

type_synonym conn_id = nat

record Engine =
  e_selfID :: NodeID
  e_selfAddr :: string
  e_pubKey :: bytes
  e_peers :: PeerManager
  e_config :: GossipConfig
  e_conns :: "string \<rightharpoonup> conn_id"
  e_onPeerDiscovered :: bool
  e_onPeerDead :: bool
  e_signFunc :: "(bytes \<Rightarrow> bytes) option"

datatype engine_action = ControlWrite conn_id bytes | PeerDiscovered Peer

text \<open>Times are in nanoseconds.\<close>

definition GossipDefaultConfig :: GossipConfig where
  "GossipDefaultConfig =
     \<lparr>gc_PushInterval = 5 * 1000000000, gc_ProbeInterval = 3 * 1000000000,
      gc_PeerTimeout = 15 * 1000000000, gc_Fanout = 3\<rparr>"

definition NewEngine :: "NodeID \<Rightarrow> string \<Rightarrow> bytes \<Rightarrow> GossipConfig \<Rightarrow> Engine" where
  "NewEngine selfID selfAddr pubKey cfg =
     \<lparr>e_selfID = selfID, e_selfAddr = selfAddr, e_pubKey = pubKey, e_peers = NewPeerManager selfID,
      e_config = cfg, e_conns = Map.empty, e_onPeerDiscovered = False, e_onPeerDead = False,
      e_signFunc = None\<rparr>"

definition OnPeerDiscovered :: "Engine \<Rightarrow> Engine" where
  "OnPeerDiscovered e = e\<lparr>e_onPeerDiscovered := True\<rparr>"

definition OnPeerDead :: "Engine \<Rightarrow> Engine" where
  "OnPeerDead e = e\<lparr>e_onPeerDead := True\<rparr>"

definition SetSignFunc :: "(bytes \<Rightarrow> bytes) \<Rightarrow> Engine \<Rightarrow> Engine" where
  "SetSignFunc fn e = e\<lparr>e_signFunc := Some fn\<rparr>"

subsection \<open>Messages\<close>

definition signMsg :: "Engine \<Rightarrow> bytes \<Rightarrow> bytes" where
  "signMsg e msg = (case e_signFunc e of None \<Rightarrow> msg | Some f \<Rightarrow> f msg)"

fun isZeroPubKey :: "bytes \<Rightarrow> bool" where
  "isZeroPubKey [] = True"
| "isZeroPubKey (b # bs) = (if b \<noteq> 0 then False else isZeroPubKey bs)"

definition self_entry :: "Engine \<Rightarrow> PeerEntry" where
  "self_entry e =
     \<lparr>pe_ID = copy_array 16 (e_selfID e), pe_PubKey = e_pubKey e, pe_State = PeerAlive, pe_Version = 1,
      pe_Addr = e_selfAddr e\<rparr>"

definition peer_entry :: "Peer \<Rightarrow> PeerEntry" where
  "peer_entry p =
     \<lparr>pe_ID = copy_array 16 (pr_ID p),
      pe_PubKey = (if length (pr_PubKey p) = 32 then pr_PubKey p else replicate 32 0),
      pe_State = pr_State p, pe_Version = pr_Version p, pe_Addr = pr_Addr p\<rparr>"

definition buildGossipPush :: "string list \<Rightarrow> Engine \<Rightarrow> bytes" where
  "buildGossipPush order e =
     EncodeGossipPush \<lparr>gp_Peers = self_entry e # map peer_entry (GetAll order (e_peers e))\<rparr>"

subsection \<open>Sending\<close>

definition Broadcast_all :: "string list \<Rightarrow> bytes \<Rightarrow> Engine \<Rightarrow> engine_action list" where
  "Broadcast_all order msg e =
     (let msg = signMsg e msg
      in List.map_filter (\<lambda>key. map_option (\<lambda>conn. ControlWrite conn msg) (e_conns e key)) order)"

text \<open>A peer without a connection is skipped without an error.\<close>

definition SendTo :: "NodeID \<Rightarrow> bytes \<Rightarrow> Engine \<Rightarrow> engine_action list" where
  "SendTo nid msg e =
     (case e_conns e (NodeID_String nid) of
        None \<Rightarrow> []
      | Some conn \<Rightarrow> [ControlWrite conn (signMsg e msg)])"

subsection \<open>Connections\<close>

definition AddDirectConnection ::
  "go_time \<Rightarrow> string list \<Rightarrow> (conn_id \<Rightarrow> string) \<Rightarrow> NodeID \<Rightarrow> conn_id \<Rightarrow> Engine \<Rightarrow> Engine \<times> engine_action list" where
  "AddDirectConnection now order remoteAddr nid conn e =
     (let e = e\<lparr>e_conns := (e_conns e)(NodeID_String nid \<mapsto> conn)\<rparr>;
          e = e\<lparr>e_peers := snd (AddOrUpdate now
                \<lparr>pr_ID = nid, pr_PubKey = [], pr_Addr = remoteAddr conn, pr_State = PeerAlive,
                 pr_Version = 0, pr_LastSeen = 0, pr_DirectNets = []\<rparr> (e_peers e))\<rparr>
      in (e, [ControlWrite conn (signMsg e (buildGossipPush order e))]))"

definition RemoveDirectConnection :: "NodeID \<Rightarrow> Engine \<Rightarrow> Engine" where
  "RemoveDirectConnection nid e = e\<lparr>e_conns := (e_conns e)(NodeID_String nid := None)\<rparr>"

subsection \<open>Receiving\<close>

definition pushed_peer :: "PeerEntry \<Rightarrow> Peer" where
  "pushed_peer entry =
     \<lparr>pr_ID = copy_array 16 (pe_ID entry),
      pr_PubKey = (if isZeroPubKey (pe_PubKey entry) then [] else copy_array 32 (pe_PubKey entry)),
      pr_Addr = pe_Addr entry, pr_State = pe_State entry, pr_Version = pe_Version entry,
      pr_LastSeen = 0, pr_DirectNets = []\<rparr>"

text \<open>The clock is read at most once for every entry.\<close>

fun handlePush :: "(nat \<Rightarrow> go_time) \<Rightarrow> nat \<Rightarrow> PeerEntry list \<Rightarrow> Engine \<Rightarrow> Engine \<times> engine_action list" where
  "handlePush clk i [] e = (e, [])"
| "handlePush clk i (entry # entries) e =
     (let nid = copy_array 16 (pe_ID entry)
      in if NodeID_Equal nid (e_selfID e) then handlePush clk (i + 1) entries e
         else (let newPeer = pushed_peer entry;
                   (isNew, peers') = AddOrUpdate (clk i) newPeer (e_peers e);
                   (e', acts) = handlePush clk (i + 1) entries (e\<lparr>e_peers := peers'\<rparr>)
               in (e', (if isNew \<and> e_onPeerDiscovered e then [PeerDiscovered newPeer] else []) @ acts)))"

text \<open>The result says whether the message was one of the engine's.\<close>

definition HandleMessage ::
  "(nat \<Rightarrow> go_time) \<Rightarrow> string list \<Rightarrow> NodeID \<Rightarrow> bytes \<Rightarrow> Engine \<Rightarrow>
   (unit, bool \<times> Engine \<times> engine_action list) outcome" where
  "HandleMessage clk order from data e =
     (if length data = 0 then Return (False, e, [])
      else if data ! 0 = MsgGossipPush then
        (case DecodeGossipPush data of
           Panic \<Rightarrow> Panic
         | Error err \<Rightarrow> Return (True, e, [])
         | Return msg \<Rightarrow> (let (e', acts) = handlePush clk 0 (gp_Peers msg) e in Return (True, e', acts)))
      else if data ! 0 = MsgGossipPull then
        Return (True, e, SendTo from (buildGossipPush order e) e)
      else if data ! 0 = MsgPing then
        Return (True, e, SendTo from EncodePong e)
      else if data ! 0 = MsgPong then
        Return (True, e\<lparr>e_peers := MarkAlive (clk 0) from (e_peers e)\<rparr>, [])
      else Return (False, e, []))"

subsection \<open>Periodic work\<close>

text \<open>Each message is built anew, in an iteration order of its own.\<close>

fun push_targets :: "(nat \<Rightarrow> string list) \<Rightarrow> nat \<Rightarrow> Peer list \<Rightarrow> Engine \<Rightarrow> engine_action list" where
  "push_targets orders i [] e = []"
| "push_targets orders i (target # targets) e =
     (if e_conns e (NodeID_String (pr_ID target)) \<noteq> None
      then SendTo (pr_ID target) (buildGossipPush (orders i) e) e else []) @
     push_targets orders (i + 1) targets e"

definition pushToRandom ::
  "string list \<Rightarrow> (nat \<Rightarrow> string list) \<Rightarrow> uint32 \<Rightarrow> Engine \<Rightarrow> (unit, uint32 \<times> engine_action list) outcome" where
  "pushToRandom order orders rng e =
     go_bind (GetRandom order (gc_Fanout (e_config e)) zero_NodeID (e_peers e) rng) (\<lambda>(targets, rng').
       Return (rng', push_targets orders 0 targets e))"

text \<open>The last component of the result is the peer for which a timer was started.\<close>

definition probeRandomPeer ::
  "string list \<Rightarrow> (conn_id \<Rightarrow> bool) \<Rightarrow> uint32 \<Rightarrow> Engine \<Rightarrow> uint32 \<times> Engine \<times> engine_action list \<times> NodeID option" where
  "probeRandomPeer order fails rng e =
     (let alive = GetAlive order (e_peers e)
      in if length alive = 0 then (rng, e, [], None)
         else (let rng = fastRand rng;
                   idx = unat (rng mod of_nat (length alive));
                   target = alive ! idx
               in case e_conns e (NodeID_String (pr_ID target)) of
                    None \<Rightarrow> (rng, e, [], None)
                  | Some conn \<Rightarrow>
                      (let acts = [ControlWrite conn (signMsg e EncodePing)]
                       in if fails conn then (rng, e\<lparr>e_peers := MarkSuspect (pr_ID target) (e_peers e)\<rparr>, acts, None)
                          else (rng, e, acts, Some (pr_ID target)))))"

definition probe_timeout :: "go_time \<Rightarrow> NodeID \<Rightarrow> Engine \<Rightarrow> Engine" where
  "probe_timeout now target e =
     (case PeerManager_Get target (e_peers e) of
        None \<Rightarrow> e
      | Some p \<Rightarrow>
          (if pr_State p = PeerAlive \<and> now - pr_LastSeen p > gc_PeerTimeout (e_config e)
           then e\<lparr>e_peers := MarkSuspect target (e_peers e)\<rparr> else e))"

subsection \<open>Invariant\<close>

definition wf_Engine :: "Engine \<Rightarrow> bool" where
  "wf_Engine e \<longleftrightarrow> wf_peers (e_peers e) \<and> pm_selfID (e_peers e) = e_selfID e \<and>
     length (e_selfID e) = 16 \<and> length (e_pubKey e) = 32 \<and> length (e_selfAddr e) < 256 \<and>
     (\<forall>nid p. PeerManager_Get nid (e_peers e) = Some p \<longrightarrow> length nid = 16 \<and> length (pr_Addr p) < 256)"

lemma wf_Engine_add:
  "wf_Engine e \<Longrightarrow> length (pr_ID p) = 16 \<Longrightarrow> length (pr_Addr p) < 256 \<Longrightarrow>
     wf_Engine (e\<lparr>e_peers := snd (AddOrUpdate now p (e_peers e))\<rparr>)"
  by (auto simp: wf_Engine_def AddOrUpdate_wf Get_AddOrUpdate merge_peer_def split: if_splits option.splits)

lemma wf_Engine_conns: "wf_Engine e \<Longrightarrow> wf_Engine (e\<lparr>e_conns := c\<rparr>)"
  by (simp add: wf_Engine_def)

lemma wf_Engine_Mark:
  "wf_Engine e \<Longrightarrow> wf_Engine (e\<lparr>e_peers := MarkAlive now nid (e_peers e)\<rparr>)"
  "wf_Engine e \<Longrightarrow> wf_Engine (e\<lparr>e_peers := MarkSuspect nid (e_peers e)\<rparr>)"
  "wf_Engine e \<Longrightarrow> wf_Engine (e\<lparr>e_peers := MarkDead nid (e_peers e)\<rparr>)"
  by (auto simp: wf_Engine_def Mark_wf Get_Mark split: if_splits)

lemma wf_NewEngine:
  "length self = 16 \<Longrightarrow> length pub = 32 \<Longrightarrow> length addr < 256 \<Longrightarrow> wf_Engine (NewEngine self addr pub cfg)"
  by (simp add: wf_Engine_def NewEngine_def PeerManager_Get_def) (simp add: NewPeerManager_def)

lemma wf_AddDirectConnection:
  "wf_Engine e \<Longrightarrow> length nid = 16 \<Longrightarrow> length (remoteAddr conn) < 256 \<Longrightarrow>
     wf_Engine (fst (AddDirectConnection now order remoteAddr nid conn e))"
  using wf_Engine_add [OF wf_Engine_conns] by (simp add: AddDirectConnection_def Let_def)

subsection \<open>Pushes\<close>

definition reports :: "(nat \<Rightarrow> go_time) \<Rightarrow> nat \<Rightarrow> PeerEntry list \<Rightarrow> (go_time \<times> Peer) list" where
  "reports clk i entries = map (\<lambda>(j, entry). (clk j, pushed_peer entry)) (enumerate i entries)"

lemma reports_simps [simp]:
  "reports clk i [] = []"
  "reports clk i (entry # entries) = (clk i, pushed_peer entry) # reports clk (Suc i) entries"
  by (simp_all add: reports_def)

text \<open>Handling a push is merging its entries, one report after the other.\<close>

lemma handlePush_peers:
  "pm_selfID (e_peers e) = e_selfID e \<Longrightarrow>
     fst (handlePush clk i entries e) = e\<lparr>e_peers :=
       fold (\<lambda>(now, p) d. snd (AddOrUpdate now p d)) (reports clk i entries) (e_peers e)\<rparr>"
proof (induction entries arbitrary: i e)
  case (Cons entry entries)
  show ?case
  proof (cases "copy_array 16 (pe_ID entry) = e_selfID e")
    case True
    then have "snd (AddOrUpdate (clk i) (pushed_peer entry) (e_peers e)) = e_peers e"
      using Cons.prems by (simp add: AddOrUpdate_def pushed_peer_def NodeID_Equal_def)
    with True Cons show ?thesis by (simp add: NodeID_Equal_def Let_def)
  next
    case False
    with Cons show ?thesis by (simp add: NodeID_Equal_def Let_def case_prod_beta)
  qed
qed simp

lemma wf_handlePush:
  "wf_Engine e \<Longrightarrow> list_all wf_PeerEntry entries \<Longrightarrow> wf_Engine (fst (handlePush clk i entries e))"
proof (induction entries arbitrary: i e)
  case (Cons entry entries)
  have "wf_Engine (e\<lparr>e_peers := snd (AddOrUpdate (clk i) (pushed_peer entry) (e_peers e))\<rparr>)"
    using Cons.prems by (intro wf_Engine_add) (simp_all add: pushed_peer_def wf_PeerEntry_def)
  with Cons show ?case by (simp add: Let_def case_prod_beta)
qed simp

lemma handlePush_acts:
  "ControlWrite c m \<notin> set (snd (handlePush clk i entries e))"
  by (induction entries arbitrary: i e) (auto simp: Let_def case_prod_beta)

lemma handlePush_conns: "wf_Engine e \<Longrightarrow> e_conns (fst (handlePush clk i entries e)) = e_conns e"
  by (simp add: handlePush_peers wf_Engine_def)

text \<open>Reports of an older version leave an entry as it is.\<close>

lemma merge_stale: "v < pr_Version p \<Longrightarrow> pr_Version q \<le> v \<Longrightarrow> merge_peer t q (Some p) = p"
  by (auto simp: merge_peer_def)

lemma pushed_peer_simps [simp]:
  "pr_ID (pushed_peer en) = copy_array 16 (pe_ID en)" "pr_Version (pushed_peer en) = pe_Version en"
  by (simp_all add: pushed_peer_def)

lemma stale_reports:
  assumes "PeerManager_Get nid d = Some p" and "v < pr_Version p"
    and "\<forall>en\<in>set es. copy_array 16 (pe_ID en) = nid \<longrightarrow> pe_Version en \<le> v"
  shows "PeerManager_Get nid (fold (\<lambda>(now, p) d. snd (AddOrUpdate now p d)) (reports clk i es) d) = Some p"
  using assms(1,3)
proof (induction es arbitrary: i d)
  case (Cons en es)
  have "PeerManager_Get nid (snd (AddOrUpdate (clk i) (pushed_peer en) d)) = Some p"
    using Cons.prems by (auto simp: Get_AddOrUpdate merge_stale [OF assms(2)])
  with Cons show ?case by simp
qed simp

text \<open>The identifiers in a push are those of the sender and of the peers it knows.\<close>

lemma push_ids:
  assumes "wf_Engine e" and "range_order (pm_peers (e_peers e)) order"
  shows "(\<lambda>p. copy_array 16 (pr_ID p)) ` set (GetAll order (e_peers e)) =
    {nid. PeerManager_Get nid (e_peers e) \<noteq> None}"
proof -
  have wf: "wf_peers (e_peers e)" using assms(1) by (simp add: wf_Engine_def)
  have len: "copy_array 16 nid = nid" if "PeerManager_Get nid (e_peers e) = Some p" for nid p
    using assms(1) that by (simp add: wf_Engine_def)
  have "p \<in> set (GetAll order (e_peers e)) \<longleftrightarrow> PeerManager_Get (pr_ID p) (e_peers e) = Some p" for p
    using assms(2) wf by (auto simp: set_GetAll range_order_def wf_peers_def PeerManager_Get_def)
  then have all: "set (GetAll order (e_peers e)) = {p. PeerManager_Get (pr_ID p) (e_peers e) = Some p}" by auto
  have id: "pr_ID p = nid" if "PeerManager_Get nid (e_peers e) = Some p" for nid p
    using wf_peers_Get [OF wf that] by blast
  show ?thesis
  proof (intro equalityI subsetI)
    fix nid
    assume "nid \<in> (\<lambda>p. copy_array 16 (pr_ID p)) ` set (GetAll order (e_peers e))"
    then obtain p where p: "PeerManager_Get (pr_ID p) (e_peers e) = Some p" "nid = copy_array 16 (pr_ID p)"
      unfolding all by blast
    with len [OF p(1)] show "nid \<in> {nid. PeerManager_Get nid (e_peers e) \<noteq> None}" by simp
  next
    fix nid
    assume "nid \<in> {nid. PeerManager_Get nid (e_peers e) \<noteq> None}"
    then obtain p where p: "PeerManager_Get nid (e_peers e) = Some p" by auto
    with id [OF p] len [OF p] show "nid \<in> (\<lambda>p. copy_array 16 (pr_ID p)) ` set (GetAll order (e_peers e))"
      unfolding all by (intro image_eqI [of _ _ p]) simp_all
  qed
qed

lemma wf_push:
  assumes "wf_Engine e" and "length order < 65535"
  shows "wf_GossipPush \<lparr>gp_Peers = self_entry e # map peer_entry (GetAll order (e_peers e))\<rparr>"
proof -
  have "wf_PeerEntry (peer_entry p)" if "p \<in> set (GetAll order (e_peers e))" for p
  proof -
    from that obtain key where "pm_peers (e_peers e) key = Some p" by (auto simp: set_GetAll)
    then have "PeerManager_Get (pr_ID p) (e_peers e) = Some p"
      using assms(1) by (auto simp: PeerManager_Get_def wf_Engine_def wf_peers_def)
    then show ?thesis using assms(1) by (auto simp: wf_PeerEntry_def peer_entry_def wf_Engine_def)
  qed
  moreover have "length (GetAll order (e_peers e)) \<le> length order"
    by (simp add: GetAll_def List.map_filter_def)
  ultimately show ?thesis
    using assms by (auto simp: wf_GossipPush_def list_all_iff self_entry_def wf_PeerEntry_def wf_Engine_def)
qed

subsection \<open>Properties\<close>

lemma HandleMessage_total: "wf_Engine e \<Longrightarrow> \<exists>h e' acts. HandleMessage clk order from data e = Return (h, e', acts)"
  by (cases "DecodeGossipPush data") (auto simp: HandleMessage_def DecodeGossipPush_no_panic case_prod_beta)

lemma handlePush_discovers:
  "PeerDiscovered p \<in> set (snd (handlePush clk i entries e)) \<Longrightarrow> length (pr_ID p) = 16"
  by (induction entries arbitrary: i e) (auto simp: Let_def case_prod_beta split: if_splits)

lemma handlePush_discovers':
  "handlePush clk i entries e = (e', acts) \<Longrightarrow> PeerDiscovered p \<in> set acts \<Longrightarrow> length (pr_ID p) = 16"
  using handlePush_discovers [of p clk i entries e] by simp

lemma HandleMessage_discovers:
  "HandleMessage clk order from data e = Return (h, e', acts) \<Longrightarrow> PeerDiscovered p \<in> set acts \<Longrightarrow> length (pr_ID p) = 16"
  by (auto simp: HandleMessage_def SendTo_def dest!: handlePush_discovers' split: if_splits outcome.splits option.splits prod.splits)

lemma HandleMessage_effect:
  assumes "wf_Engine e"
  shows "\<exists>handled e' acts. HandleMessage clk order from data e = Return (handled, e', acts) \<and>
    wf_Engine e' \<and> e_conns e' = e_conns e \<and>
    (\<forall>c m. ControlWrite c m \<in> set acts \<longrightarrow>
       e_conns e (NodeID_String from) = Some c \<and> (\<exists>msg. m = signMsg e msg))"
proof -
  have send: "e_conns e (NodeID_String from) = Some c \<and> (\<exists>msg. m = signMsg e msg)"
    if "ControlWrite c m \<in> set (SendTo from msg e)" for c m msg
    using that by (auto simp: SendTo_def split: option.splits)
  show ?thesis
  proof (cases "length data \<noteq> 0 \<and> data ! 0 = MsgGossipPush")
    case True
    show ?thesis
    proof (cases "DecodeGossipPush data")
      case (Return msg)
      then have "list_all wf_PeerEntry (gp_Peers msg)" using DecodeGossipPush_wf by (simp add: wf_GossipPush_def)
      with Return True assms show ?thesis
        by (intro exI [of _ True] exI [of _ "fst (handlePush clk 0 (gp_Peers msg) e)"]
              exI [of _ "snd (handlePush clk 0 (gp_Peers msg) e)"])
           (simp add: HandleMessage_def case_prod_beta handlePush_acts wf_handlePush handlePush_conns)
    qed (use True assms in \<open>auto simp: HandleMessage_def DecodeGossipPush_no_panic\<close>)
  next
    case False
    then show ?thesis
      using assms by (auto simp: HandleMessage_def wf_Engine_Mark dest: send)
  qed
qed

text \<open>
  No control message can bring the engine down: whatever the bytes, HandleMessage returns, the
  peers stay well formed, connections are left alone, and whatever it writes goes, signed, to the
  direct connection of the sender.
\<close>

theorem HandleMessage_safe:
  assumes "wf_Engine e"
  shows "\<exists>handled e' acts. HandleMessage clk order from data e = Return (handled, e', acts) \<and>
    wf_Engine e' \<and> e_conns e' = e_conns e \<and>
    (\<forall>c m. ControlWrite c m \<in> set acts \<longrightarrow>
       e_conns e (NodeID_String from) = Some c \<and> (\<exists>msg. m = signMsg e msg))"
  by (rule HandleMessage_effect [OF assms])

definition example_engine :: "byte \<Rightarrow> Engine" where
  "example_engine b = NewEngine (replicate 16 b) ''192.0.2.1:7000'' (replicate 32 b) GossipDefaultConfig"

lemma wf_example_engine: "wf_Engine (example_engine b)"
  by (simp add: example_engine_def wf_NewEngine)

theorem HandleMessage_safe_witness:
  "\<exists>handled e' acts. HandleMessage (\<lambda>_. 0) [] (replicate 16 2) [3, 0, 1, 7] (example_engine 1) = Return (handled, e', acts) \<and>
    wf_Engine e'"
  using HandleMessage_safe [OF wf_example_engine, of "\<lambda>_. 0" "[]" "replicate 16 2" "[3, 0, 1, 7]" 1] by blast

text \<open>What handling a push of another engine does to the peers that are known.\<close>

lemma push_effect:
  assumes "wf_Engine a" and "wf_Engine b" and "range_order (pm_peers (e_peers a)) order" and "length order < 65535"
  shows "\<exists>b' acts. HandleMessage clk order' from (buildGossipPush order a @ trailing) b = Return (True, b', acts) \<and>
    (\<forall>nid. PeerManager_Get nid (e_peers b') \<noteq> None \<longleftrightarrow>
       PeerManager_Get nid (e_peers b) \<noteq> None \<or>
       nid \<noteq> e_selfID b \<and> (nid = e_selfID a \<or> PeerManager_Get nid (e_peers a) \<noteq> None))"
proof -
  let ?entries = "self_entry a # map peer_entry (GetAll order (e_peers a))"
  let ?b = "fst (handlePush clk 0 ?entries b)"
  have wf: "wf_GossipPush \<lparr>gp_Peers = ?entries\<rparr>" by (rule wf_push [OF assms(1,4)])
  have dec: "DecodeGossipPush (buildGossipPush order a @ trailing) = Return \<lparr>gp_Peers = ?entries\<rparr>"
    unfolding buildGossipPush_def by (rule gossip_codec.dec_enc [OF wf])
  from gossip_codec.enc_tag [OF wf] obtain body where "buildGossipPush order a = MsgGossipPush # body"
    unfolding buildGossipPush_def by blast
  then have msg: "HandleMessage clk order' from (buildGossipPush order a @ trailing) b =
      Return (True, ?b, snd (handlePush clk 0 ?entries b))"
    using dec by (simp add: HandleMessage_def case_prod_beta)
  have subj: "pr_ID ` snd ` set (reports clk 0 ?entries) = (\<lambda>en. copy_array 16 (pe_ID en)) ` set ?entries"
  proof -
    have "map (pr_ID \<circ> snd) (reports clk i es) = map (\<lambda>en. copy_array 16 (pe_ID en)) es" for i es
      by (induction es arbitrary: i) (simp_all add: pushed_peer_def)
    then show ?thesis by (metis image_comp set_map)
  qed
  have ids: "(\<lambda>en. copy_array 16 (pe_ID en)) ` set ?entries =
      insert (e_selfID a) {nid. PeerManager_Get nid (e_peers a) \<noteq> None}"
    using push_ids [OF assms(1,3)] assms(1) by (simp add: self_entry_def peer_entry_def image_image wf_Engine_def)
  have "pm_selfID (e_peers b) = e_selfID b" using assms(2) by (simp add: wf_Engine_def)
  then have "PeerManager_Get nid (e_peers ?b) \<noteq> None \<longleftrightarrow> PeerManager_Get nid (e_peers b) \<noteq> None \<or>
       nid \<in> insert (e_selfID a) {nid. PeerManager_Get nid (e_peers a) \<noteq> None} \<and> nid \<noteq> e_selfID b" for nid
    using directory.known_reports [of nid "reports clk 0 ?entries" "e_peers b"]
    unfolding subj ids by (simp add: handlePush_peers del: handlePush.simps reports_simps)
  with msg show ?thesis by (intro exI [of _ ?b] exI [of _ "snd (handlePush clk 0 ?entries b)"]) blast
qed

text \<open>
  C15: Gossip spreads knowledge. When a node receives the push another node builds, possibly with
  trailing bytes such as a signature, it afterwards knows exactly the peers it knew before, the
  sender and every peer the sender knows, itself apart.
\<close>

theorem push_spreads_peers:
  assumes "wf_Engine a" and "wf_Engine b" and "range_order (pm_peers (e_peers a)) order" and "length order < 65535"
  shows "\<exists>b' acts. HandleMessage clk order' from (buildGossipPush order a @ trailing) b = Return (True, b', acts) \<and>
    (\<forall>nid. PeerManager_Get nid (e_peers b') \<noteq> None \<longleftrightarrow>
       PeerManager_Get nid (e_peers b) \<noteq> None \<or>
       nid \<noteq> e_selfID b \<and> (nid = e_selfID a \<or> PeerManager_Get nid (e_peers a) \<noteq> None))"
  by (rule push_effect [OF assms])

definition example_knower :: Engine where
  "example_knower = (example_engine 1)\<lparr>e_peers := example_peers\<rparr>"

lemma wf_example_knower: "wf_Engine example_knower"
proof -
  have add: "wf_Engine (e\<lparr>e_peers := snd (AddOrUpdate t (example_peer b st v) d)\<rparr>)"
    if "wf_Engine (e\<lparr>e_peers := d\<rparr>)" for e t b st v d
    using wf_Engine_add [OF that, of "example_peer b st v" t] by (simp add: example_peer_def)
  have "wf_Engine ((example_engine 1)\<lparr>e_peers := NewPeerManager (replicate 16 1)\<rparr>)"
    using wf_example_engine [of 1] by (simp add: example_engine_def NewEngine_def)
  then show ?thesis by (simp add: example_knower_def example_peers_def add)
qed

theorem push_spreads_peers_witness:
  "\<exists>b' acts. HandleMessage (\<lambda>_. 9) [] (replicate 16 1) (buildGossipPush example_peer_keys example_knower @ replicate 64 0)
      (example_engine 2) = Return (True, b', acts) \<and>
    (\<forall>nid. PeerManager_Get nid (e_peers b') \<noteq> None \<longleftrightarrow>
       PeerManager_Get nid (e_peers (example_engine 2)) \<noteq> None \<or>
       nid \<noteq> e_selfID (example_engine 2) \<and> (nid = e_selfID example_knower \<or> PeerManager_Get nid (e_peers example_knower) \<noteq> None))"
proof (rule push_spreads_peers [OF wf_example_knower wf_example_engine])
  show "range_order (pm_peers (e_peers example_knower)) example_peer_keys"
    using example_peers_order by (simp add: example_knower_def)
  show "length example_peer_keys < 65535" by (simp add: example_peer_keys_def)
qed

text \<open>
  A peer that was marked dead stays dead when it connects again. A node announces itself, and a
  new connection is registered, with version 1 at most, whereas marking a known peer dead gives
  it version 2 or more; so neither the new connection nor the push the peer then sends about
  itself changes the entry, although the connection is registered. Only a pong can revive it,
  and probes go to alive peers only.
\<close>

theorem reconnected_peer_stays_dead:
  assumes "wf_Engine e" and "wf_Engine b" and "range_order (pm_peers (e_peers b)) order'" and "length order' < 65535"
    and "PeerManager_Get (e_selfID b) (e_peers e) = Some p" and "pr_State p = PeerDead" and "1 < pr_Version p"
    and "AddDirectConnection now order addr (e_selfID b) conn e = (e', acts)"
    and "HandleMessage clk order (e_selfID b) (buildGossipPush order' b) e' = Return (handled, e'', acts')"
  shows "PeerManager_Get (e_selfID b) (e_peers e'') = Some p \<and> e_conns e'' (NodeID_String (e_selfID b)) = Some conn"
proof -
  let ?self = "e_selfID b"
  let ?entries = "self_entry b # map peer_entry (GetAll order' (e_peers b))"
  note stale = merge_stale [OF assms(7)]
  have self: "?self \<noteq> pm_selfID (e_peers e)"
    using assms(1) wf_peers_Get [OF _ assms(5)] by (simp add: wf_Engine_def)
  have e': "e_conns e' (NodeID_String ?self) = Some conn" "PeerManager_Get ?self (e_peers e') = Some p"
    "pm_selfID (e_peers e') = e_selfID e'"
    using assms(1,5,8) by (auto simp: AddDirectConnection_def Let_def Get_AddOrUpdate stale wf_Engine_def)
  have wf: "wf_GossipPush \<lparr>gp_Peers = ?entries\<rparr>" by (rule wf_push [OF assms(2,4)])
  then have "DecodeGossipPush (buildGossipPush order' b) = Return \<lparr>gp_Peers = ?entries\<rparr>"
    unfolding buildGossipPush_def by (rule gossip_codec.decodes_encoded)
  moreover from gossip_codec.enc_tag [OF wf] obtain body where "buildGossipPush order' b = MsgGossipPush # body"
    unfolding buildGossipPush_def by blast
  ultimately have e'': "e'' = fst (handlePush clk 0 ?entries e')"
    using assms(9) by (simp add: HandleMessage_def case_prod_beta del: handlePush.simps)
  have other: "\<forall>en\<in>set ?entries. copy_array 16 (pe_ID en) = ?self \<longrightarrow> pe_Version en \<le> 1"
  proof -
    have "copy_array 16 (pr_ID q) \<noteq> ?self" if "q \<in> set (GetAll order' (e_peers b))" for q
      using imageI [OF that, of "\<lambda>p. copy_array 16 (pr_ID p)"] push_ids [OF assms(2,3)]
        directory.get_self [of "e_peers b"] assms(2) by (auto simp: wf_Engine_def)
    then show ?thesis by (auto simp: self_entry_def peer_entry_def)
  qed
  from stale_reports [OF e'(2) assms(7) other, of clk 0] e' show ?thesis
    unfolding e'' by (simp add: handlePush_peers del: handlePush.simps reports_simps)
qed

definition example_mourner :: Engine where
  "example_mourner = example_knower\<lparr>e_peers := MarkDead (replicate 16 2) (e_peers example_knower)\<rparr>"

theorem reconnected_peer_stays_dead_witness:
  "\<exists>p. PeerManager_Get (replicate 16 2) (e_peers (fst (snd (case HandleMessage (\<lambda>_. 9) [] (replicate 16 2)
      (buildGossipPush [] (example_engine 2))
      (fst (AddDirectConnection 8 [] (\<lambda>_. ''192.0.2.2:7000'') (replicate 16 2) 0 example_mourner))
    of Return r \<Rightarrow> r | _ \<Rightarrow> (False, example_mourner, []))))) = Some p \<and> pr_State p = PeerDead"
proof -
  let ?p = "(example_peer 2 PeerDead 2)\<lparr>pr_LastSeen := 1\<rparr>"
  let ?e' = "fst (AddDirectConnection 8 [] (\<lambda>_. ''192.0.2.2:7000'') (replicate 16 2) 0 example_mourner)"
  have self: "e_selfID (example_engine 2) = replicate 16 2"
    by (simp add: example_engine_def NewEngine_def)
  have wf: "wf_Engine example_mourner"
    unfolding example_mourner_def by (rule wf_Engine_Mark [OF wf_example_knower])
  have order: "range_order (pm_peers (e_peers (example_engine 2))) []"
    by (simp add: example_engine_def NewEngine_def NewPeerManager_def range_order_def)
  have p: "PeerManager_Get (e_selfID (example_engine 2)) (e_peers example_mourner) = Some ?p"
    by code_simp
  have "wf_Engine ?e'" by (rule wf_AddDirectConnection [OF wf]) simp_all
  from HandleMessage_total [OF this, of "\<lambda>_. 9" "[]" "replicate 16 2" "buildGossipPush [] (example_engine 2)"]
  obtain h e'' acts where msg: "HandleMessage (\<lambda>_. 9) [] (e_selfID (example_engine 2))
      (buildGossipPush [] (example_engine 2)) ?e' = Return (h, e'', acts)"
    by (auto simp: self)
  have add: "AddDirectConnection 8 [] (\<lambda>_. ''192.0.2.2:7000'') (e_selfID (example_engine 2)) 0 example_mourner =
      (?e', snd (AddDirectConnection 8 [] (\<lambda>_. ''192.0.2.2:7000'') (replicate 16 2) 0 example_mourner))"
    by (simp add: self)
  have "pr_State ?p = PeerDead" "1 < pr_Version ?p" by (simp_all add: example_peer_def)
  with reconnected_peer_stays_dead [OF wf wf_example_engine order _ p _ _ add msg]
  have "PeerManager_Get (replicate 16 2) (e_peers e'') = Some ?p" by (simp add: self)
  then show ?thesis using msg by (simp add: self) (simp add: example_peer_def)
qed

text \<open>
  A node's public key is taken from whoever gossips about it. A push from any sender with an
  entry of a later version for a known peer replaces the public key stored for that peer, and
  with it the key its messages are verified with; the identifier, which is a hash of the genuine
  key, is not compared with the new key.
\<close>

theorem pushed_key_replaces:
  assumes "wf_Engine e" and "PeerManager_Get (pe_ID entry) (e_peers e) = Some p" and "wf_PeerEntry entry"
    and "pr_Version p < pe_Version entry" and "\<not> isZeroPubKey (pe_PubKey entry)"
  shows "\<exists>e' acts q. HandleMessage clk order from (EncodeGossipPush \<lparr>gp_Peers = [entry]\<rparr>) e = Return (True, e', acts) \<and>
    PeerManager_Get (pe_ID entry) (e_peers e') = Some q \<and> pr_PubKey q = pe_PubKey entry"
proof -
  have wf: "wf_GossipPush \<lparr>gp_Peers = [entry]\<rparr>" using assms(3) by (simp add: wf_GossipPush_def)
  from gossip_codec.enc_tag [OF wf] obtain body where
    "EncodeGossipPush \<lparr>gp_Peers = [entry]\<rparr> = MsgGossipPush # body" by blast
  with gossip_codec.decodes_encoded [OF wf]
  have msg: "HandleMessage clk order from (EncodeGossipPush \<lparr>gp_Peers = [entry]\<rparr>) e =
      Return (True, fst (handlePush clk 0 [entry] e), snd (handlePush clk 0 [entry] e))"
    by (simp add: HandleMessage_def case_prod_beta del: handlePush.simps)
  have nid: "pe_ID entry \<noteq> pm_selfID (e_peers e)" "copy_array 16 (pe_ID entry) = pe_ID entry"
    using assms(1,3) wf_peers_Get [OF _ assms(2)] by (simp_all add: wf_Engine_def wf_PeerEntry_def)
  have key: "pr_PubKey (pushed_peer entry) = pe_PubKey entry" "pe_PubKey entry \<noteq> []"
    using assms(3,5) by (auto simp: pushed_peer_def wf_PeerEntry_def)
  have peers: "e_peers (fst (handlePush clk 0 [entry] e)) = snd (AddOrUpdate (clk 0) (pushed_peer entry) (e_peers e))"
    using assms(1) by (simp add: handlePush_peers wf_Engine_def del: handlePush.simps)
  have "\<exists>q. PeerManager_Get (pe_ID entry) (e_peers (fst (handlePush clk 0 [entry] e))) = Some q \<and>
      pr_PubKey q = pe_PubKey entry"
    using assms(2,4) nid key by (simp add: peers Get_AddOrUpdate merge_peer_def del: handlePush.simps)
  with msg show ?thesis by blast
qed

definition example_forged :: PeerEntry where
  "example_forged = \<lparr>pe_ID = replicate 16 2, pe_PubKey = replicate 32 66, pe_State = PeerAlive, pe_Version = 7, pe_Addr = ''x''\<rparr>"

theorem pushed_key_replaces_witness:
  "\<exists>e' acts q. HandleMessage (\<lambda>_. 9) [] (replicate 16 3) (EncodeGossipPush \<lparr>gp_Peers = [example_forged]\<rparr>) example_knower =
      Return (True, e', acts) \<and>
    PeerManager_Get (pe_ID example_forged) (e_peers e') = Some q \<and> pr_PubKey q = pe_PubKey example_forged"
proof (rule pushed_key_replaces [OF wf_example_knower])
  show "PeerManager_Get (pe_ID example_forged) (e_peers example_knower) = Some ((example_peer 2 PeerAlive 1)\<lparr>pr_LastSeen := 1\<rparr>)"
    by code_simp
qed (code_simp+)

end
