(* ===== verification/Forward_Session.thy ===== *)
theory Forward_Session
  imports Go_Net Identity
begin

text \<open>
  The UDP session table of forward/session.go. A nil address is \<open>None\<close>; the session identifier
  is a 32-bit word that wraps around. The source keeps pointers to sessions, of which only the
  time of last use ever changes; a session is a value here, and the callers re-read it after a
  change.

  Shown: the table's invariant; that fresh identifiers do not collide as long as no identifier
  was taken from a peer and the counter does not wrap; that otherwise \<open>Create\<close> overwrites a live
  session; and what expiry removes.
\<close>

subsection \<open>State\<close>

record UDPAddr =
  addr_IP :: IP
  addr_Port :: int

record UDPSession =
  s_ID :: uint32
  s_ClientAddr :: "UDPAddr option"
  s_TargetAddr :: "UDPAddr option"
  s_NextHop :: NodeID
  s_CreatedAt :: go_time
  s_LastUsed :: go_time

record SessionTable =
  st_sessions :: "uint32 \<rightharpoonup> UDPSession"
  st_nextID :: uint32
  st_ttl :: duration

definition NewSessionTable :: "duration \<Rightarrow> SessionTable" where
  "NewSessionTable ttl = \<lparr>st_sessions = Map.empty, st_nextID = 1, st_ttl = ttl\<rparr>"

subsection \<open>Operations\<close>

definition Session_Create ::
  "go_time \<Rightarrow> go_time \<Rightarrow> UDPAddr option \<Rightarrow> UDPAddr option \<Rightarrow> NodeID \<Rightarrow> SessionTable \<Rightarrow> UDPSession \<times> SessionTable" where
  "Session_Create now now' clientAddr targetAddr nextHop st =
     (let sid = st_nextID st;
          st = st\<lparr>st_nextID := st_nextID st + 1\<rparr>;
          s = \<lparr>s_ID = sid, s_ClientAddr = clientAddr, s_TargetAddr = targetAddr, s_NextHop = nextHop,
               s_CreatedAt = now, s_LastUsed = now'\<rparr>
      in (s, st\<lparr>st_sessions := (st_sessions st)(sid \<mapsto> s)\<rparr>))"

definition CreateWithID ::
  "go_time \<Rightarrow> go_time \<Rightarrow> uint32 \<Rightarrow> UDPAddr option \<Rightarrow> UDPAddr option \<Rightarrow> NodeID \<Rightarrow> SessionTable \<Rightarrow>
   UDPSession \<times> SessionTable" where
  "CreateWithID now now' sid clientAddr targetAddr nextHop st =
     (let s = \<lparr>s_ID = sid, s_ClientAddr = clientAddr, s_TargetAddr = targetAddr, s_NextHop = nextHop,
               s_CreatedAt = now, s_LastUsed = now'\<rparr>
      in (s, st\<lparr>st_sessions := (st_sessions st)(sid \<mapsto> s)\<rparr>))"

definition Session_Lookup :: "uint32 \<Rightarrow> SessionTable \<Rightarrow> UDPSession option" where
  "Session_Lookup sid st = st_sessions st sid"

definition Touch :: "go_time \<Rightarrow> uint32 \<Rightarrow> SessionTable \<Rightarrow> SessionTable" where
  "Touch now sid st =
     (case st_sessions st sid of
        None \<Rightarrow> st
      | Some s \<Rightarrow> st\<lparr>st_sessions := (st_sessions st)(sid \<mapsto> s\<lparr>s_LastUsed := now\<rparr>)\<rparr>)"

definition Session_Remove :: "uint32 \<Rightarrow> SessionTable \<Rightarrow> SessionTable" where
  "Session_Remove sid st = st\<lparr>st_sessions := (st_sessions st)(sid := None)\<rparr>"

definition expire_session :: "go_time \<Rightarrow> duration \<Rightarrow> uint32 \<Rightarrow> (uint32 \<rightharpoonup> UDPSession) \<Rightarrow> (uint32 \<rightharpoonup> UDPSession)" where
  "expire_session now ttl sid m =
     (case m sid of
        None \<Rightarrow> m
      | Some s \<Rightarrow> if now - s_LastUsed s > ttl then m(sid := None) else m)"

definition Session_GC :: "uint32 list \<Rightarrow> go_time \<Rightarrow> SessionTable \<Rightarrow> SessionTable" where
  "Session_GC order now st =
     st\<lparr>st_sessions := fold (expire_session now (st_ttl st)) order (st_sessions st)\<rparr>"

subsection \<open>Lemmas\<close>

definition wf_sessions :: "SessionTable \<Rightarrow> bool" where
  "wf_sessions st \<longleftrightarrow> (\<forall>sid s. st_sessions st sid = Some s \<longrightarrow> s_ID s = sid)"

text \<open>No identifier from the counter on is in use.\<close>

definition fresh_ids :: "SessionTable \<Rightarrow> bool" where
  "fresh_ids st \<longleftrightarrow> (\<forall>sid\<in>dom (st_sessions st). sid < st_nextID st)"

interpretation expiry: range_update "expire_session now ttl"
    "\<lambda>_ s. if now - s_LastUsed s > ttl then None else Some s" for now ttl
  by unfold_locales (auto simp: expire_session_def split: option.split)

lemma Lookup_Session_GC:
  "range_order (st_sessions st) order \<Longrightarrow> Session_Lookup sid (Session_GC order now st) =
     Option.bind (Session_Lookup sid st) (\<lambda>s. if now - s_LastUsed s > st_ttl st then None else Some s)"
  by (simp add: Session_GC_def Session_Lookup_def expiry.range_fold)

lemma Lookup_Touch:
  "Session_Lookup sid (Touch now sid' st) =
     (if sid = sid' then map_option (\<lambda>s. s\<lparr>s_LastUsed := now\<rparr>) (Session_Lookup sid st) else Session_Lookup sid st)"
  by (auto simp: Session_Lookup_def Touch_def split: option.split)

lemma wf_sessions_ops:
  "wf_sessions (NewSessionTable ttl)"
  "wf_sessions st \<Longrightarrow> wf_sessions (snd (Session_Create now now' c t n st))"
  "wf_sessions st \<Longrightarrow> wf_sessions (snd (CreateWithID now now' sid c t n st))"
  "wf_sessions st \<Longrightarrow> wf_sessions (Touch now sid st)"
  "wf_sessions st \<Longrightarrow> wf_sessions (Session_Remove sid st)"
  by (auto simp: wf_sessions_def NewSessionTable_def Session_Create_def CreateWithID_def Touch_def
      Session_Remove_def Let_def split: option.split)

lemma word_less_Suc: "x + 1 \<noteq> 0 \<Longrightarrow> y < x + 1 \<longleftrightarrow> y \<le> x" for x y :: "'a::len word"
  by (simp add: word_less_nat_alt word_le_nat_alt unatSuc [of x, unfolded add.commute [of 1 x]] less_Suc_eq_le)

lemma fresh_Create:
  "fresh_ids st \<Longrightarrow> st_nextID st + 1 \<noteq> 0 \<Longrightarrow> fresh_ids (snd (Session_Create now now' c t n st))"
  by (auto simp: fresh_ids_def Session_Create_def Let_def word_less_Suc order.strict_implies_order split: if_splits)

subsection \<open>Properties\<close>

text \<open>
  Sessions created by this node do not interfere: while every identifier in use is below the
  counter (as when no identifier was taken from a peer), Create picks an unused identifier, leaves
  every other session as it is, and keeps that state of affairs until the counter wraps.
\<close>

theorem Session_Create_fresh:
  assumes "wf_sessions st" and "fresh_ids st" and "st_nextID st + 1 \<noteq> 0"
    and "Session_Create now now' client target hop st = (s, st')"
  shows "Session_Lookup (s_ID s) st = None \<and> Session_Lookup (s_ID s) st' = Some s \<and>
    s_NextHop s = hop \<and> s_ClientAddr s = client \<and> s_TargetAddr s = target \<and>
    (\<forall>sid. sid \<noteq> s_ID s \<longrightarrow> Session_Lookup sid st' = Session_Lookup sid st) \<and>
    wf_sessions st' \<and> fresh_ids st'"
proof -
  have "wf_sessions st'" "fresh_ids st'"
    using wf_sessions_ops(2) [OF assms(1)] fresh_Create [OF assms(2,3)] assms(4) by (metis snd_conv)+
  moreover have "st_sessions st (st_nextID st) = None"
    using assms(2) by (force simp: fresh_ids_def)
  ultimately show ?thesis using assms(4) by (auto simp: Session_Create_def Session_Lookup_def Let_def)
qed

theorem Session_Create_fresh_witness:
  "Session_Lookup 1 (NewSessionTable 60) = None \<and>
   Session_Lookup 1 (snd (Session_Create 3 3 None None (replicate 16 2) (NewSessionTable 60))) \<noteq> None"
proof -
  have "fresh_ids (NewSessionTable 60)" "st_nextID (NewSessionTable 60) + 1 \<noteq> 0"
    by (simp_all add: fresh_ids_def NewSessionTable_def)
  from Session_Create_fresh [OF wf_sessions_ops(1) this surjective_pairing, of 3 3 None None "replicate 16 2"]
  show ?thesis by (simp add: Session_Create_def Let_def NewSessionTable_def)
qed

text \<open>
  An identifier chosen by a peer can be the next one this node hands out: a session stored by
  CreateWithID under the value of the counter is silently replaced by the next Create, and the
  peer's datagrams then go to the new session's client.
\<close>

theorem Session_Create_overwrites:
  assumes "CreateWithID now now' (st_nextID st) client target hop st = (s, st')"
    and "Session_Create t t' client' target' hop' st' = (s', st'')"
  shows "Session_Lookup (s_ID s) st' = Some s \<and> s_ID s' = s_ID s \<and> Session_Lookup (s_ID s) st'' = Some s'"
  using assms by (auto simp: CreateWithID_def Session_Create_def Session_Lookup_def Let_def)

theorem Session_Create_overwrites_witness:
  "s_ID (fst (Session_Create 4 4 None None (replicate 16 3)
     (snd (CreateWithID 3 3 1 None None (replicate 16 2) (NewSessionTable 60))))) = 1"
proof -
  have 1: "st_nextID (NewSessionTable 60) = 1" by (simp add: NewSessionTable_def)
  let ?c = "CreateWithID 3 3 1 None None (replicate 16 2) (NewSessionTable 60)"
  have "CreateWithID 3 3 (st_nextID (NewSessionTable 60)) None None (replicate 16 2) (NewSessionTable 60) = (fst ?c, snd ?c)"
    by (simp add: 1)
  from Session_Create_overwrites [OF this surjective_pairing]
  show ?thesis by (simp add: CreateWithID_def Let_def)
qed

text \<open>
  Session expiry removes exactly the sessions that were idle for longer than the time to live,
  in every iteration order, and leaves the others and the counter untouched.
\<close>

theorem Session_GC_expires:
  assumes "wf_sessions st" and "range_order (st_sessions st) order"
  shows "wf_sessions (Session_GC order now st) \<and> st_nextID (Session_GC order now st) = st_nextID st \<and>
    (\<forall>sid s. Session_Lookup sid (Session_GC order now st) = Some s \<longleftrightarrow>
       Session_Lookup sid st = Some s \<and> now - s_LastUsed s \<le> st_ttl st)"
proof (intro conjI allI)
  show get: "Session_Lookup sid (Session_GC order now st) = Some s \<longleftrightarrow>
       Session_Lookup sid st = Some s \<and> now - s_LastUsed s \<le> st_ttl st" for sid s
    by (cases "Session_Lookup sid st") (auto simp: Lookup_Session_GC [OF assms(2)] split: if_splits)
  show "wf_sessions (Session_GC order now st)"
    using assms(1) get by (auto simp: wf_sessions_def Session_Lookup_def)
  show "st_nextID (Session_GC order now st) = st_nextID st" by (simp add: Session_GC_def)
qed

theorem Session_GC_expires_witness:
  "Session_Lookup 1 (Session_GC [1] 100 (snd (Session_Create 3 3 None None (replicate 16 2) (NewSessionTable 60)))) = None"
proof -
  let ?st = "snd (Session_Create 3 3 None None (replicate 16 2) (NewSessionTable 60))"
  have "wf_sessions ?st" by (intro wf_sessions_ops)
  moreover have "range_order (st_sessions ?st) [1]"
    by (simp add: range_order_def Session_Create_def Let_def NewSessionTable_def)
  ultimately have "Session_Lookup 1 (Session_GC [1] 100 ?st) = Some s \<longleftrightarrow>
      Session_Lookup 1 ?st = Some s \<and> 100 - s_LastUsed s \<le> st_ttl ?st" for s
    using Session_GC_expires [of ?st "[1]" 100] by blast
  then show ?thesis
    by (cases "Session_Lookup 1 (Session_GC [1] 100 ?st)")
       (auto simp: Session_Lookup_def Session_Create_def Let_def NewSessionTable_def)
qed

end
