(* ===== verification/Wire_Forward.thy ===== *)
theory Wire_Forward
  imports Wire_Codec
begin

text \<open>
  The forwarding headers of wire/forward_tcp.go and wire/forward_udp.go. Shown: round trips (the
  interpretations \<open>tcp_codec\<close> and \<open>udp_create_codec\<close>, and lemmas for the other messages), the
  exact number of bytes the TCP header takes off the stream, and the inputs on which the session
  decoder panics.
\<close>

subsection \<open>Target addresses\<close>

text \<open>
  An address is written as its length byte and the 4-byte form of an IPv4 address, or else the
  16-byte form.
\<close>

definition target_len :: "IP \<Rightarrow> nat" where
  "target_len ip = (if To4 ip = [] then 16 else 4)"

definition put_target :: "IP \<Rightarrow> go_buf \<Rightarrow> go_buf" where
  "put_target ip b =
     (let b = put_byte (of_nat (target_len ip)) b
      in if target_len ip = 4 then put_field (target_len ip) (To4 ip) b
         else put_field (target_len ip) (To16 ip) b)"

definition wf_target :: "IP \<Rightarrow> bool" where
  "wf_target ip \<longleftrightarrow> length ip = 4 \<or> length ip = 16"

definition canon_target :: "IP \<Rightarrow> IP" where
  "canon_target ip = (if To4 ip = [] then ip else To4 ip)"

subsection \<open>TCP\<close>

record TCPForwardHeader =
  tf_Flags :: byte
  tf_StreamID :: uint32
  tf_TargetAddr :: IP
  tf_TargetPort :: uint16

definition TCPFlagNewStream :: byte where "TCPFlagNewStream = 0x01"
definition TCPFlagData :: byte where "TCPFlagData = 0x00"

definition EncodeTCPForwardHeader :: "TCPForwardHeader \<Rightarrow> bytes" where
  "EncodeTCPForwardHeader hdr =
     (let b = make_buf (1 + 1 + 4 + 1 + target_len (tf_TargetAddr hdr) + 2);
          b = put_byte MsgTCPForward b;
          b = put_byte (tf_Flags hdr) b;
          b = put_u32 (tf_StreamID hdr) b;
          b = put_target (tf_TargetAddr hdr) b;
          b = put_u16 (tf_TargetPort hdr) b
      in fst b)"

definition DecodeTCPForwardHeader :: "bytes \<Rightarrow> (wire_error, TCPForwardHeader \<times> nat) outcome" where
  "DecodeTCPForwardHeader data =
     go_guard (length data < 1 + 1 + 4 + 1 + 4 + 2) (TooShort (length data))
     (go_bind (index_at data 0) (\<lambda>typ.
      go_guard (typ \<noteq> MsgTCPForward) (UnexpectedType typ)
      (go_bind (index_at data 1) (\<lambda>flags.
       go_bind (Uint32_at data 2) (\<lambda>streamID.
       go_bind (index_at data 6) (\<lambda>len.
       let addrLen = unat len in
       go_guard (addrLen \<noteq> 4 \<and> addrLen \<noteq> 16) (InvalidAddrLen addrLen)
       (go_guard (7 + addrLen + 2 > length data) TruncatedTarget
        (go_bind (slice_of data 7 (7 + addrLen)) (\<lambda>addr.
         go_bind (Uint16_at data (7 + addrLen)) (\<lambda>port.
           Return (\<lparr>tf_Flags = flags, tf_StreamID = streamID, tf_TargetAddr = addr,
                    tf_TargetPort = port\<rparr>, 7 + addrLen + 2)))))))))))"

definition EncodeTCPClose :: "uint32 \<Rightarrow> bytes" where
  "EncodeTCPClose streamID = fst (put_u32 streamID (put_byte MsgTCPClose (make_buf (1 + 4))))"

definition DecodeTCPClose :: "bytes \<Rightarrow> (wire_error, uint32) outcome" where
  "DecodeTCPClose data = go_guard (length data < 5) (TooShort (length data)) (Uint32_at data 1)"

subsection \<open>UDP\<close>

record UDPForwardHeader =
  uf_SessionID :: uint32

definition EncodeUDPForward :: "uint32 \<Rightarrow> bytes \<Rightarrow> bytes" where
  "EncodeUDPForward sessionID payload =
     fst (put_field (length payload) payload
       (put_u32 sessionID (put_byte MsgUDPForward (make_buf (1 + 4 + length payload)))))"

definition DecodeUDPForward :: "bytes \<Rightarrow> (wire_error, UDPForwardHeader \<times> bytes) outcome" where
  "DecodeUDPForward data =
     go_guard (length data < 5) (TooShort (length data))
     (go_bind (index_at data 0) (\<lambda>typ.
      go_guard (typ \<noteq> MsgUDPForward) (UnexpectedType typ)
      (go_bind (slice_of data 1 5) (\<lambda>sid.
       go_bind (Uint32 sid) (\<lambda>sessionID.
       go_bind (slice_from data 5) (\<lambda>payload.
         Return (\<lparr>uf_SessionID = sessionID\<rparr>, payload)))))))"

record UDPSessionCreateMessage =
  us_RequestID :: uint32
  us_TargetAddr :: IP
  us_TargetPort :: uint16

definition EncodeUDPSessionCreate :: "UDPSessionCreateMessage \<Rightarrow> bytes" where
  "EncodeUDPSessionCreate msg =
     (let b = make_buf (1 + 4 + 1 + target_len (us_TargetAddr msg) + 2);
          b = put_byte MsgUDPSessionCreate b;
          b = put_u32 (us_RequestID msg) b;
          b = put_target (us_TargetAddr msg) b;
          b = put_u16 (us_TargetPort msg) b
      in fst b)"

text \<open>Unlike the TCP header, the length of the data is not checked against the address length.\<close>

definition DecodeUDPSessionCreate :: "bytes \<Rightarrow> (wire_error, UDPSessionCreateMessage) outcome" where
  "DecodeUDPSessionCreate data =
     go_guard (length data < 1 + 4 + 1 + 4 + 2) (TooShort (length data))
     (go_bind (index_at data 0) (\<lambda>typ.
      go_guard (typ \<noteq> MsgUDPSessionCreate) (UnexpectedType typ)
      (go_bind (Uint32_at data 1) (\<lambda>requestID.
       go_bind (index_at data 5) (\<lambda>len.
       let addrLen = unat len in
       go_guard (addrLen \<noteq> 4 \<and> addrLen \<noteq> 16) (InvalidAddrLen addrLen)
       (go_bind (slice_of data 6 (6 + addrLen)) (\<lambda>addr.
        go_bind (Uint16_at data (6 + addrLen)) (\<lambda>port.
          Return \<lparr>us_RequestID = requestID, us_TargetAddr = addr, us_TargetPort = port\<rparr>))))))))"

record UDPSessionCreateAck =
  ua_RequestID :: uint32
  ua_SessionID :: uint32

definition EncodeUDPSessionCreateAck :: "UDPSessionCreateAck \<Rightarrow> bytes" where
  "EncodeUDPSessionCreateAck msg =
     fst (put_u32 (ua_SessionID msg) (put_u32 (ua_RequestID msg)
       (put_byte MsgUDPSessionCreate (make_buf (1 + 4 + 4)))))"

definition EncodeUDPSessionClose :: "uint32 \<Rightarrow> bytes" where
  "EncodeUDPSessionClose sessionID =
     fst (put_u32 sessionID (put_byte MsgUDPSessionClose (make_buf (1 + 4))))"

definition DecodeUDPSessionClose :: "bytes \<Rightarrow> (wire_error, uint32) outcome" where
  "DecodeUDPSessionClose data = go_guard (length data < 5) (TooShort (length data)) (Uint32_at data 1)"

subsection \<open>Layouts\<close>

definition target_layout :: "IP \<Rightarrow> bytes" where
  "target_layout ip = of_nat (length (canon_target ip)) # canon_target ip"

lemma length_canon_target: "wf_target ip \<Longrightarrow> length (canon_target ip) = target_len ip"
  using length_To4 [of ip] by (auto simp: canon_target_def target_len_def wf_target_def)

lemma target_len_cases: "target_len ip = 4 \<or> target_len ip = 16"
  by (simp add: target_len_def)

lemma canon_target_simps:
  assumes "wf_target ip"
  shows "wf_target (canon_target ip)" and "canon_target (canon_target ip) = canon_target ip"
    and "target_len (canon_target ip) = target_len ip"
  using assms length_To4 [of ip] by (auto simp: canon_target_def wf_target_def target_len_def)

lemma put_target_written [go_write]:
  assumes "wf_target ip" and "1 + target_len ip \<le> k"
  shows "put_target ip (written pre k) = written (pre @ target_layout ip) (k - (1 + target_len ip))"
proof (cases "To4 ip = []")
  case True
  with assms have "To16 ip = ip" by (auto simp: wf_target_def To16_def)
  with True assms show ?thesis
    by (auto simp: put_target_def target_layout_def target_len_def canon_target_def wf_target_def
        go_write Let_def diff_diff_left)
next
  case False
  then have "length (To4 ip) = 4" by (rule length_To4)
  with False assms show ?thesis
    by (simp add: put_target_def target_layout_def target_len_def canon_target_def go_write Let_def
        diff_diff_left)
qed

lemma EncodeTCPForwardHeader_layout:
  "wf_target (tf_TargetAddr hdr) \<Longrightarrow> EncodeTCPForwardHeader hdr =
     [MsgTCPForward, tf_Flags hdr] @ PutUint32 (tf_StreamID hdr) @ target_layout (tf_TargetAddr hdr) @
     PutUint16 (tf_TargetPort hdr)"
  by (simp add: EncodeTCPForwardHeader_def go_write Let_def)

lemma EncodeUDPSessionCreate_layout:
  "wf_target (us_TargetAddr msg) \<Longrightarrow> EncodeUDPSessionCreate msg =
     [MsgUDPSessionCreate] @ PutUint32 (us_RequestID msg) @ target_layout (us_TargetAddr msg) @
     PutUint16 (us_TargetPort msg)"
  by (simp add: EncodeUDPSessionCreate_def go_write Let_def)

lemma EncodeUDPForward_layout: "EncodeUDPForward sid payload = MsgUDPForward # PutUint32 sid @ payload"
  by (simp add: EncodeUDPForward_def go_write)

lemma Encode_close_layouts:
  "EncodeTCPClose sid = MsgTCPClose # PutUint32 sid"
  "EncodeUDPSessionClose sid = MsgUDPSessionClose # PutUint32 sid"
  "EncodeUDPSessionCreateAck ack =
     MsgUDPSessionCreate # PutUint32 (ua_RequestID ack) @ PutUint32 (ua_SessionID ack)"
  by (simp_all add: EncodeTCPClose_def EncodeUDPSessionClose_def EncodeUDPSessionCreateAck_def go_write)

subsection \<open>Round trips\<close>

lemma Decode_tcp_layout:
  assumes "wf_target (tf_TargetAddr hdr)"
  shows "DecodeTCPForwardHeader (EncodeTCPForwardHeader hdr @ rest) =
    Return (hdr\<lparr>tf_TargetAddr := canon_target (tf_TargetAddr hdr)\<rparr>,
            length (EncodeTCPForwardHeader hdr))"
proof -
  have "length (canon_target (tf_TargetAddr hdr)) = 4 \<or> length (canon_target (tf_TargetAddr hdr)) = 16"
    using target_len_cases [of "tf_TargetAddr hdr"] by (simp add: assms length_canon_target)
  with assms show ?thesis
    by (auto simp: EncodeTCPForwardHeader_layout DecodeTCPForwardHeader_def target_layout_def go_read)
qed

lemma Decode_udp_create_layout:
  assumes "wf_target (us_TargetAddr msg)"
  shows "DecodeUDPSessionCreate (EncodeUDPSessionCreate msg @ rest) =
    Return (msg\<lparr>us_TargetAddr := canon_target (us_TargetAddr msg)\<rparr>)"
proof -
  have "length (canon_target (us_TargetAddr msg)) = 4 \<or> length (canon_target (us_TargetAddr msg)) = 16"
    using target_len_cases [of "us_TargetAddr msg"] by (simp add: assms length_canon_target)
  with assms show ?thesis
    by (auto simp: EncodeUDPSessionCreate_layout DecodeUDPSessionCreate_def target_layout_def go_read)
qed

lemma DecodeTCPForwardHeader_no_panic: "DecodeTCPForwardHeader data \<noteq> Panic"
  by (cases data) (auto simp: DecodeTCPForwardHeader_def go_guard_def go_outcome index_at_skip index_at_def
      Uint32_at_Return Uint16_at_Return slice_of_Return Let_def split: if_splits)

interpretation tcp_codec:
  codec EncodeTCPForwardHeader "\<lambda>data. go_bind (DecodeTCPForwardHeader data) (\<lambda>(hdr, _). Return hdr)"
    "\<lambda>hdr. wf_target (tf_TargetAddr hdr)"
    "\<lambda>hdr. hdr\<lparr>tf_TargetAddr := canon_target (tf_TargetAddr hdr)\<rparr>" MsgTCPForward
proof unfold_locales
  fix m :: TCPForwardHeader and rest
  assume wf: "wf_target (tf_TargetAddr m)"
  show "go_bind (DecodeTCPForwardHeader (EncodeTCPForwardHeader m @ rest)) (\<lambda>(hdr, _). Return hdr) =
    Return (m\<lparr>tf_TargetAddr := canon_target (tf_TargetAddr m)\<rparr>)"
    using wf by (simp add: Decode_tcp_layout)
  show "\<exists>body. EncodeTCPForwardHeader m = MsgTCPForward # body"
    using wf by (simp add: EncodeTCPForwardHeader_layout)
  show "wf_target (tf_TargetAddr (m\<lparr>tf_TargetAddr := canon_target (tf_TargetAddr m)\<rparr>))"
    using wf by (simp add: canon_target_simps)
  show "EncodeTCPForwardHeader (m\<lparr>tf_TargetAddr := canon_target (tf_TargetAddr m)\<rparr>) =
    EncodeTCPForwardHeader m"
    using wf by (simp add: EncodeTCPForwardHeader_layout canon_target_simps target_layout_def)
next
  show "\<exists>body. data = MsgTCPForward # body"
    if "go_bind (DecodeTCPForwardHeader data) (\<lambda>(hdr, _). Return hdr) = Return m" for data and m :: TCPForwardHeader
    using that
    by (cases data) (auto simp: DecodeTCPForwardHeader_def go_guard_def go_read go_outcome split: if_splits)
qed

interpretation udp_create_codec:
  codec EncodeUDPSessionCreate DecodeUDPSessionCreate "\<lambda>msg. wf_target (us_TargetAddr msg)"
    "\<lambda>msg. msg\<lparr>us_TargetAddr := canon_target (us_TargetAddr msg)\<rparr>" MsgUDPSessionCreate
proof unfold_locales
  fix m :: UDPSessionCreateMessage and rest
  assume wf: "wf_target (us_TargetAddr m)"
  show "DecodeUDPSessionCreate (EncodeUDPSessionCreate m @ rest) =
    Return (m\<lparr>us_TargetAddr := canon_target (us_TargetAddr m)\<rparr>)"
    using wf by (rule Decode_udp_create_layout)
  show "\<exists>body. EncodeUDPSessionCreate m = MsgUDPSessionCreate # body"
    using wf by (simp add: EncodeUDPSessionCreate_layout)
  show "wf_target (us_TargetAddr (m\<lparr>us_TargetAddr := canon_target (us_TargetAddr m)\<rparr>))"
    using wf by (simp add: canon_target_simps)
  show "EncodeUDPSessionCreate (m\<lparr>us_TargetAddr := canon_target (us_TargetAddr m)\<rparr>) =
    EncodeUDPSessionCreate m"
    using wf by (simp add: EncodeUDPSessionCreate_layout canon_target_simps target_layout_def)
next
  show "\<exists>body. data = MsgUDPSessionCreate # body" if "DecodeUDPSessionCreate data = Return m"
    for data and m :: UDPSessionCreateMessage
    using that
    by (cases data) (auto simp: DecodeUDPSessionCreate_def go_guard_def go_read go_outcome split: if_splits)
qed

lemma DecodeUDPForward_Encode [simp]:
  "DecodeUDPForward (EncodeUDPForward sid payload) = Return (\<lparr>uf_SessionID = sid\<rparr>, payload)"
  by (simp add: DecodeUDPForward_def EncodeUDPForward_layout go_read)

text \<open>A datagram is a forwarded one when it is long enough and of the right type; nothing panics.\<close>

lemma DecodeUDPForward_cases:
  "DecodeUDPForward data =
     (if length data < 5 then Error (TooShort (length data))
      else if data ! 0 \<noteq> MsgUDPForward then Error (UnexpectedType (data ! 0))
      else Return (\<lparr>uf_SessionID = uint32_val data 1\<rparr>, drop 5 data))"
proof (cases "length data < 5")
  case True
  then show ?thesis by (simp add: DecodeUDPForward_def)
next
  case False
  then obtain a b c d e rest where "data = a # b # c # d # e # rest"
    by (auto simp: eval_nat_numeral not_less Suc_le_length_iff)
  then show ?thesis
    by (simp add: DecodeUDPForward_def go_read go_guard_def slice_of_Return uint32_val_def numeral_eq_Suc)
qed

lemma Decode_close_Encode:
  "DecodeTCPClose (EncodeTCPClose sid @ rest) = Return sid"
  "DecodeUDPSessionClose (EncodeUDPSessionClose sid @ rest) = Return sid"
  by (simp_all add: DecodeTCPClose_def DecodeUDPSessionClose_def Encode_close_layouts go_read)

subsection \<open>Properties\<close>

text \<open>The TCP forward header round trip. For an IPv4 or IPv6 target the decoder returns flags,
  stream, port and the same address (IPv4 in its four-byte form), and reports as consumed exactly
  the bytes of the header, so that what follows is the start of the relayed data; and no input
  makes it panic.\<close>

theorem TCPForwardHeader_roundtrip:
  assumes "wf_target (tf_TargetAddr hdr)"
  shows "\<exists>addr consumed. DecodeTCPForwardHeader (EncodeTCPForwardHeader hdr @ payload) =
      Return (hdr\<lparr>tf_TargetAddr := addr\<rparr>, consumed) \<and>
    drop consumed (EncodeTCPForwardHeader hdr @ payload) = payload \<and>
    To4 addr = To4 (tf_TargetAddr hdr) \<and> (To4 addr = [] \<longrightarrow> addr = tf_TargetAddr hdr) \<and>
    (\<forall>data. DecodeTCPForwardHeader data \<noteq> Panic)"
proof -
  have "To4 (canon_target ip) = To4 ip" for ip
    using length_To4 [of ip] by (simp add: canon_target_def)
  then show ?thesis
    using Decode_tcp_layout [OF assms, of payload] DecodeTCPForwardHeader_no_panic
    by (intro exI [of _ "canon_target (tf_TargetAddr hdr)"] exI [of _ "length (EncodeTCPForwardHeader hdr)"])
       (simp add: canon_target_def)
qed

theorem TCPForwardHeader_roundtrip_witness:
  "\<exists>addr consumed. DecodeTCPForwardHeader (EncodeTCPForwardHeader
     \<lparr>tf_Flags = TCPFlagNewStream, tf_StreamID = 42, tf_TargetAddr = IPv4 10 0 0 1, tf_TargetPort = 8080\<rparr> @ [9, 9])
     = Return (\<lparr>tf_Flags = TCPFlagNewStream, tf_StreamID = 42, tf_TargetAddr = addr, tf_TargetPort = 8080\<rparr>, consumed)"
  using TCPForwardHeader_roundtrip [of
      "\<lparr>tf_Flags = TCPFlagNewStream, tf_StreamID = 42, tf_TargetAddr = IPv4 10 0 0 1, tf_TargetPort = 8080\<rparr>"
      "[9, 9]"]
  by (simp add: wf_target_def) blast

text \<open>The decoder of UDP session requests panics on exactly the requests whose length byte
  announces a 16-byte address but that are shorter than the 24 bytes such a request takes; every
  other input is decoded or refused.\<close>

theorem DecodeUDPSessionCreate_Panic_iff:
  "DecodeUDPSessionCreate data = Panic \<longleftrightarrow>
     12 \<le> length data \<and> length data < 24 \<and> data ! 0 = MsgUDPSessionCreate \<and> data ! 5 = 16"
proof (cases "12 \<le> length data \<and> data ! 0 = MsgUDPSessionCreate")
  case True
  then have "data \<noteq> []" by auto
  moreover have "unat (data ! 5) = 16 \<longleftrightarrow> data ! 5 = 16"
    by (simp add: word_unat_eq_iff)
  ultimately show ?thesis
    using True
    by (cases "length data < 22"; cases "length data < 24")
       (auto simp: DecodeUDPSessionCreate_def go_guard_def index_at_def Uint32_at_Return Uint16_at_Return
         Uint16_at_Panic slice_of_def Let_def)
next
  case False
  then show ?thesis by (auto simp: DecodeUDPSessionCreate_def go_guard_def index_at_def)
qed

end
