(* ===== verification/Forward_Relay.thy ===== *)
theory Forward_Relay
  imports Forward_Session Wire_Forward
begin

text \<open>
  The UDP relay of forward/udp_relay.go. The callbacks that send to a peer and deliver to a local
  client may be unset; the calls made to them are the relay's actions. The clock is an argument,
  read up to three times for one datagram.

  Shown: what the relay does with any datagram; that a datagram passed on to the next hop is the
  datagram received, byte for byte; and that a datagram of an unknown session is delivered to a
  session without a client and never sent on.
\<close>

subsection \<open>State\<close>

record UDPRelay =
  ur_sessions :: SessionTable
  ur_sendUDP :: bool
  ur_deliverLocal :: bool

datatype relay_action = SendUDP NodeID bytes | DeliverLocal UDPSession bytes

definition NewUDPRelay :: "SessionTable \<Rightarrow> UDPRelay" where
  "NewUDPRelay sessions = \<lparr>ur_sessions = sessions, ur_sendUDP = False, ur_deliverLocal = False\<rparr>"

definition SetSendFunc :: "UDPRelay \<Rightarrow> UDPRelay" where
  "SetSendFunc r = r\<lparr>ur_sendUDP := True\<rparr>"

definition SetDeliverFunc :: "UDPRelay \<Rightarrow> UDPRelay" where
  "SetDeliverFunc r = r\<lparr>ur_deliverLocal := True\<rparr>"

subsection \<open>Operations\<close>

definition ForwardToPeer :: "NodeID \<Rightarrow> UDPSession \<Rightarrow> bytes \<Rightarrow> UDPRelay \<Rightarrow> relay_action list" where
  "ForwardToPeer nextHop session payload r =
     (if \<not> ur_sendUDP r then []
      else [SendUDP nextHop (EncodeUDPForward (s_ID session) payload)])"

definition HandleIncoming ::
  "(nat \<Rightarrow> go_time) \<Rightarrow> NodeID \<Rightarrow> bytes \<Rightarrow> UDPRelay \<Rightarrow> (unit, UDPRelay \<times> relay_action list) outcome" where
  "HandleIncoming clk fromPeer data r =
     (case DecodeUDPForward data of
        Panic \<Rightarrow> Panic
      | Error e \<Rightarrow> Return (r, [])
      | Return (hdr, payload) \<Rightarrow>
          (let (session, st) = (case Session_Lookup (uf_SessionID hdr) (ur_sessions r) of
                   Some session \<Rightarrow> (session, ur_sessions r)
                 | None \<Rightarrow> CreateWithID (clk 0) (clk 1) (uf_SessionID hdr) None None fromPeer (ur_sessions r));
               r = r\<lparr>ur_sessions := Touch (clk 2) (s_ID session) st\<rparr>;
               session = session\<lparr>s_LastUsed := clk 2\<rparr>
           in if NodeID_Equal fromPeer (s_NextHop session) then
                Return (r, if ur_deliverLocal r then [DeliverLocal session payload] else [])
              else Return (r, ForwardToPeer (s_NextHop session) session payload r)))"

definition CreateSession ::
  "go_time \<Rightarrow> go_time \<Rightarrow> UDPAddr option \<Rightarrow> UDPAddr option \<Rightarrow> NodeID \<Rightarrow> UDPRelay \<Rightarrow> UDPSession \<times> UDPRelay" where
  "CreateSession now now' clientAddr targetAddr nextHop r =
     (let (s, st) = Session_Create now now' clientAddr targetAddr nextHop (ur_sessions r)
      in (s, r\<lparr>ur_sessions := st\<rparr>))"

definition GetSession :: "uint32 \<Rightarrow> UDPRelay \<Rightarrow> UDPSession option" where
  "GetSession sid r = Session_Lookup sid (ur_sessions r)"

subsection \<open>Lemmas\<close>

lemma EncodeUDPForward_Decode:
  assumes "DecodeUDPForward data = Return (hdr, payload)"
  shows "EncodeUDPForward (uf_SessionID hdr) payload = data"
proof -
  from assms have "5 \<le> length data" by (auto simp: DecodeUDPForward_cases split: if_splits)
  then obtain t a b c d rest where data: "data = t # a # b # c # d # rest"
    by (auto simp: eval_nat_numeral Suc_le_length_iff)
  with assms show ?thesis
    by (auto simp: DecodeUDPForward_cases EncodeUDPForward_layout uint32_val_def PutUint32_of_bytes split: if_splits)
qed

lemma DecodeUDPForward_no_panic: "DecodeUDPForward data \<noteq> Panic"
  by (simp add: DecodeUDPForward_cases)

subsection \<open>Properties\<close>

text \<open>
  C23: What the relay does with a datagram. It never panics; a malformed one is ignored. For a known
  session the time of last use is updated, and the payload is delivered locally when it came from
  the session's next hop; from any other peer the very bytes received are sent to the next hop.
  An unknown session is created with the sender as next hop and without addresses, so its
  datagram is handed to local delivery with no client address and is not sent on. No other
  session changes.
\<close>

theorem HandleIncoming_relays:
  assumes "wf_sessions (ur_sessions r)" and "ur_sendUDP r" and "ur_deliverLocal r"
  shows "\<exists>r' acts. HandleIncoming clk from data r = Return (r', acts) \<and> wf_sessions (ur_sessions r') \<and>
    (\<forall>hdr payload. DecodeUDPForward data = Return (hdr, payload) \<longrightarrow>
       (let sid = uf_SessionID hdr in
        (\<forall>sid'. sid' \<noteq> sid \<longrightarrow> GetSession sid' r' = GetSession sid' r) \<and>
        (case GetSession sid r of
           Some s \<Rightarrow> GetSession sid r' = Some (s\<lparr>s_LastUsed := clk 2\<rparr>) \<and>
             acts = (if from = s_NextHop s then [DeliverLocal (s\<lparr>s_LastUsed := clk 2\<rparr>) payload]
                     else [SendUDP (s_NextHop s) data])
         | None \<Rightarrow> (\<exists>s. GetSession sid r' = Some s \<and> s_NextHop s = from \<and> s_ClientAddr s = None \<and>
             s_TargetAddr s = None \<and> acts = [DeliverLocal s payload])))) \<and>
    (\<forall>e. DecodeUDPForward data = Error e \<longrightarrow> r' = r \<and> acts = [])"
proof (cases "DecodeUDPForward data")
  case (Return x)
  then obtain hdr payload where dec: "DecodeUDPForward data = Return (hdr, payload)" by (cases x) auto
  show ?thesis
  proof (cases "GetSession (uf_SessionID hdr) r")
    case None
    then show ?thesis
      using dec assms
      by (auto simp: HandleIncoming_def GetSession_def CreateWithID_def NodeID_Equal_def Let_def Lookup_Touch
          wf_sessions_def Touch_def Session_Lookup_def)
  next
    case (Some s)
    then have "s_ID s = uf_SessionID hdr"
      using assms(1) by (simp add: wf_sessions_def GetSession_def Session_Lookup_def)
    then show ?thesis
      using dec assms Some
      by (auto simp: HandleIncoming_def GetSession_def NodeID_Equal_def Let_def Lookup_Touch ForwardToPeer_def
          EncodeUDPForward_Decode wf_sessions_ops)
  qed
qed (use assms in \<open>auto simp: HandleIncoming_def DecodeUDPForward_no_panic\<close>)

definition example_udp_relay :: UDPRelay where
  "example_udp_relay = SetDeliverFunc (SetSendFunc (NewUDPRelay (snd (CreateWithID 1 1 7 None None (replicate 16 3) (NewSessionTable 60)))))"

theorem HandleIncoming_relays_witness:
  "\<exists>r'. HandleIncoming (\<lambda>_. 5) (replicate 16 2) (EncodeUDPForward 7 [1, 2, 3]) example_udp_relay =
     Return (r', [SendUDP (replicate 16 3) (EncodeUDPForward 7 [1, 2, 3])])"
proof -
  have wf: "wf_sessions (ur_sessions example_udp_relay)"
    by (simp add: example_udp_relay_def SetDeliverFunc_def SetSendFunc_def NewUDPRelay_def wf_sessions_ops)
  have "ur_sendUDP example_udp_relay" "ur_deliverLocal example_udp_relay" by code_simp+
  from HandleIncoming_relays [OF wf this, of "\<lambda>_. 5" "replicate 16 2" "EncodeUDPForward 7 [1, 2, 3]"]
  show ?thesis
    by (auto simp: DecodeUDPForward_Encode Let_def)
       (auto simp: example_udp_relay_def SetDeliverFunc_def SetSendFunc_def NewUDPRelay_def GetSession_def
        Session_Lookup_def CreateWithID_def Let_def)
qed

end
