(* ===== verification/Transport_Frame.thy ===== *)
theory Transport_Frame
  imports Go_Prelude
begin

text \<open>
  The framing of transport/frame.go: type, stream and length in nine bytes, then the payload. A
  nil payload is the empty one. The writer of the source is an \<open>io.Writer\<close>: a function from its
  state and a slice to the number of bytes it took, an error or none, and its next state. A
  reader is the bytes it will still deliver before it ends, and \<open>io.ReadFull\<close> is a definition
  on those.

  Shown: \<open>writeFull\<close> writes everything or reports an error, for every writer that keeps the
  contract of \<open>io.Writer\<close> (the locale \<open>io_writer\<close>, interpreted on the raw connection, which may
  take any part of a slice and fail at any moment); frames survive the wire, one or many; and no
  input makes the reader panic or accept more than a megabyte.
\<close>

subsection \<open>Frames\<close>

definition FrameData :: byte where "FrameData = 0x00"
definition FrameClose :: byte where "FrameClose = 0x01"
definition ControlStreamID :: uint32 where "ControlStreamID = 0"
definition frameHeaderSize :: nat where "frameHeaderSize = 1 + 4 + 4"
definition maxFrameSize :: nat where "maxFrameSize = 1048576"

record Frame =
  f_Type :: byte
  f_StreamID :: uint32
  f_Payload :: bytes

datatype io_error = EOF | ErrUnexpectedEOF | ErrShortWrite | WriteFailed | FrameTooLarge nat

subsection \<open>Writing\<close>

type_synonym 'w writer = "'w \<Rightarrow> bytes \<Rightarrow> nat \<times> io_error option \<times> 'w"

text \<open>A count beyond the slice makes the slice expression of the loop panic.\<close>

function writeFull :: "'w writer \<Rightarrow> 'w \<Rightarrow> bytes \<Rightarrow> (io_error, unit) outcome \<times> 'w" where
  "writeFull write w b =
     (if length b = 0 then (Return (), w)
      else (let (n, err, w') = write w b
            in case err of
                 Some e \<Rightarrow> (Error e, w')
               | None \<Rightarrow>
                   (if n = 0 then (Error ErrShortWrite, w')
                    else if n > length b then (Panic, w')
                    else writeFull write w' (drop n b))))"
  by pat_completeness auto
termination by (relation "measure (\<lambda>(_, _, b). length b)") auto

declare writeFull.simps [simp del]

definition frame_header :: "Frame \<Rightarrow> bytes" where
  "frame_header f =
     fst (put_u32 (of_nat (length (f_Payload f))) (put_u32 (f_StreamID f) (put_byte (f_Type f) (make_buf frameHeaderSize))))"

definition WriteFrame :: "'w writer \<Rightarrow> 'w \<Rightarrow> Frame \<Rightarrow> (io_error, unit) outcome \<times> 'w" where
  "WriteFrame write w f =
     (if length (f_Payload f) > maxFrameSize then (Error (FrameTooLarge (length (f_Payload f))), w)
      else (case writeFull write w (frame_header f) of
              (Return _, w') \<Rightarrow> writeFull write w' (f_Payload f)
            | (Error e, w') \<Rightarrow> (Error e, w')
            | (Panic, w') \<Rightarrow> (Panic, w')))"

subsection \<open>Reading\<close>

definition ReadFull :: "bytes \<Rightarrow> nat \<Rightarrow> (io_error, bytes \<times> bytes) outcome" where
  "ReadFull r n =
     (if n \<le> length r then Return (take n r, drop n r)
      else if r = [] then Error EOF
      else Error ErrUnexpectedEOF)"

definition ReadFrame :: "bytes \<Rightarrow> (io_error, Frame \<times> bytes) outcome" where
  "ReadFrame r =
     go_bind (ReadFull r frameHeaderSize) (\<lambda>(header, r).
     go_bind (index_at header 0) (\<lambda>typ.
     go_bind (slice_of header 1 5) (\<lambda>sid.
     go_bind (Uint32 sid) (\<lambda>streamID.
     go_bind (slice_of header 5 9) (\<lambda>len.
     go_bind (Uint32 len) (\<lambda>lenWord.
     let len = unat lenWord in
     go_guard (len > maxFrameSize) (FrameTooLarge len)
     (if len > 0 then
        go_bind (ReadFull r len) (\<lambda>(payload, r).
          Return (\<lparr>f_Type = typ, f_StreamID = streamID, f_Payload = payload\<rparr>, r))
      else Return (\<lparr>f_Type = typ, f_StreamID = streamID, f_Payload = []\<rparr>, r))))))))"

subsection \<open>Writers\<close>

text \<open>
  The contract of \<open>io.Writer\<close> the loop relies on: a write takes a prefix of its slice, whose
  length it reports. \<open>sink\<close> is everything the writer has taken.
\<close>

locale io_writer =
  fixes put :: "'w writer" and sink :: "'w \<Rightarrow> bytes"
  assumes takes: "put w b = (n, err, w') \<Longrightarrow> n \<le> length b \<and> sink w' = sink w @ take n b"
begin

lemma writeFull_sink:
  "writeFull put w b = (res, w') \<Longrightarrow>
     res \<noteq> Panic \<and> (\<exists>k. sink w' = sink w @ take k b \<and> (res = Return () \<longrightarrow> length b \<le> k))"
proof (induction "length b" arbitrary: w b rule: less_induct)
  case less
  obtain n err w1 where wr: "put w b = (n, err, w1)" by (cases "put w b")
  note t = takes [OF wr]
  show ?case
  proof (cases "length b \<noteq> 0 \<and> err = None \<and> n \<noteq> 0")
    case True
    with t wr less.prems have rec: "writeFull put w1 (drop n b) = (res, w')"
      by (simp add: writeFull.simps [of put w b])
    have "length (drop n b) < length b" using True t by simp
    from less.hyps [OF this rec] obtain k where k: "res \<noteq> Panic" "sink w' = sink w1 @ take k (drop n b)"
      "res = Return () \<longrightarrow> length (drop n b) \<le> k" by blast
    then show ?thesis using t by (intro conjI exI [of _ "n + k"]) (auto simp: take_add)
  next
    case False
    with wr t less.prems show ?thesis
      by (subst (asm) writeFull.simps) (auto split: if_splits option.splits)
  qed
qed

lemma WriteFrame_sink:
  assumes "WriteFrame put w f = (res, w')"
  shows "res \<noteq> Panic \<and> (\<exists>k. sink w' = sink w @ take k (frame_header f @ f_Payload f) \<and>
    (res = Return () \<longrightarrow> length (frame_header f @ f_Payload f) \<le> k))"
proof (cases "length (f_Payload f) > maxFrameSize")
  case True
  with assms show ?thesis by (auto simp: WriteFrame_def intro: exI [of _ 0])
next
  case False
  obtain r1 w1 where hdr: "writeFull put w (frame_header f) = (r1, w1)"
    by (cases "writeFull put w (frame_header f)")
  from writeFull_sink [OF hdr] obtain k1 where k1: "r1 \<noteq> Panic" "sink w1 = sink w @ take k1 (frame_header f)"
    "r1 = Return () \<longrightarrow> length (frame_header f) \<le> k1" by blast
  show ?thesis
  proof (cases r1)
    case (Return u)
    with False assms hdr have "writeFull put w1 (f_Payload f) = (res, w')" by (simp add: WriteFrame_def)
    from writeFull_sink [OF this] obtain k2 where "res \<noteq> Panic" "sink w' = sink w1 @ take k2 (f_Payload f)"
      "res = Return () \<longrightarrow> length (f_Payload f) \<le> k2" by blast
    with Return k1 show ?thesis by (intro conjI exI [of _ "length (frame_header f) + k2"]) auto
  next
    case (Error e)
    with False assms hdr k1 show ?thesis
      by (intro conjI exI [of _ "min k1 (length (frame_header f))"]) (auto simp: WriteFrame_def min_def)
  qed (use k1 in simp)
qed

end

text \<open>
  The raw connection: what it has taken, and what it will do with the next writes. A plan that
  ran out takes whole slices.
\<close>

datatype write_plan = Takes nat | Fails nat

record raw_conn =
  raw_sent :: bytes
  raw_plan :: "write_plan list"

definition raw_write :: "raw_conn writer" where
  "raw_write w b =
     (case raw_plan w of
        [] \<Rightarrow> (length b, None, w\<lparr>raw_sent := raw_sent w @ b\<rparr>)
      | Takes k # plan \<Rightarrow> (min k (length b), None, w\<lparr>raw_sent := raw_sent w @ take k b, raw_plan := plan\<rparr>)
      | Fails k # plan \<Rightarrow> (min k (length b), Some WriteFailed, w\<lparr>raw_sent := raw_sent w @ take k b, raw_plan := plan\<rparr>))"

interpretation raw: io_writer raw_write raw_sent
  by unfold_locales (auto simp: raw_write_def min_def split: list.splits write_plan.splits)

subsection \<open>Frames on the wire\<close>

definition encode_frame :: "Frame \<Rightarrow> bytes" where
  "encode_frame f = [f_Type f] @ PutUint32 (f_StreamID f) @ PutUint32 (of_nat (length (f_Payload f))) @ f_Payload f"

lemma frame_header_eq: "frame_header f @ f_Payload f = encode_frame f"
  by (simp add: frame_header_def encode_frame_def frameHeaderSize_def go_write)

lemma length_frame_header [simp]: "length (frame_header f) = 9"
  by (simp add: frame_header_def frameHeaderSize_def go_write)

definition wf_Frame :: "Frame \<Rightarrow> bool" where
  "wf_Frame f \<longleftrightarrow> length (f_Payload f) \<le> maxFrameSize"

lemma ReadFrame_encode:
  assumes "wf_Frame f"
  shows "ReadFrame (encode_frame f @ rest) = Return (f, rest)"
proof -
  let ?hdr = "[f_Type f] @ PutUint32 (f_StreamID f) @ PutUint32 (of_nat (length (f_Payload f)))"
  have "ReadFull (encode_frame f @ rest) frameHeaderSize = Return (?hdr, f_Payload f @ rest)"
    by (simp add: ReadFull_def encode_frame_def frameHeaderSize_def)
  moreover have "unat (of_nat (length (f_Payload f)) :: uint32) = length (f_Payload f)"
    using assms by (simp add: wf_Frame_def maxFrameSize_def)
  moreover have "ReadFull (f_Payload f @ rest) (length (f_Payload f)) = Return (f_Payload f, rest)"
    by (simp add: ReadFull_def)
  ultimately show ?thesis
    using assms
    by (simp add: ReadFrame_def wf_Frame_def go_read go_guard_def Let_def slice_of_def)
qed

lemma ReadFrame_Return:
  "ReadFrame r = Return (f, rest) \<Longrightarrow> wf_Frame f \<and> length rest + 9 + length (f_Payload f) = length r"
  by (auto simp: ReadFrame_def ReadFull_def go_outcome go_guard_def wf_Frame_def Let_def frameHeaderSize_def
      split: if_splits prod.splits)

lemma ReadFrame_no_panic: "ReadFrame r \<noteq> Panic"
proof (cases "9 \<le> length r")
  case True
  then obtain a b c d e f g h i rest where "r = a # b # c # d # e # f # g # h # i # rest"
    by (auto simp: eval_nat_numeral Suc_le_length_iff)
  then show ?thesis
    by (simp add: ReadFrame_def ReadFull_def frameHeaderSize_def go_guard_def slice_of_def index_at_def Let_def)
qed (simp add: ReadFrame_def ReadFull_def frameHeaderSize_def)

text \<open>The frames a connection delivers before its reader ends.\<close>

function read_frames :: "bytes \<Rightarrow> Frame list" where
  "read_frames r = (case ReadFrame r of Return (f, rest) \<Rightarrow> f # read_frames rest | _ \<Rightarrow> [])"
  by pat_completeness auto
termination by (relation "measure length") (auto dest: ReadFrame_Return)

declare read_frames.simps [simp del]

lemma read_frames_append:
  "list_all wf_Frame fs \<Longrightarrow> read_frames (concat (map encode_frame fs) @ rest) = fs @ read_frames rest"
proof (induction fs)
  case (Cons f fs)
  then show ?case
    by (subst read_frames.simps) (simp add: ReadFrame_encode)
qed simp

fun write_frames :: "'w writer \<Rightarrow> 'w \<Rightarrow> Frame list \<Rightarrow> (io_error, unit) outcome \<times> 'w" where
  "write_frames write w [] = (Return (), w)"
| "write_frames write w (f # fs) =
     (case WriteFrame write w f of
        (Return _, w') \<Rightarrow> write_frames write w' fs
      | (Error e, w') \<Rightarrow> (Error e, w')
      | (Panic, w') \<Rightarrow> (Panic, w'))"

lemma WriteFrame_Return:
  assumes "WriteFrame raw_write w f = (Return (), w')"
  shows "wf_Frame f \<and> raw_sent w' = raw_sent w @ encode_frame f"
proof
  show "wf_Frame f" using assms by (simp add: WriteFrame_def wf_Frame_def not_less [symmetric] split: if_splits)
  show "raw_sent w' = raw_sent w @ encode_frame f"
    using raw.WriteFrame_sink [OF assms] unfolding frame_header_eq by auto
qed

lemma write_frames_Return:
  "write_frames raw_write w fs = (Return (), w') \<Longrightarrow>
     list_all wf_Frame fs \<and> raw_sent w' = raw_sent w @ concat (map encode_frame fs)"
proof (induction fs arbitrary: w)
  case (Cons f fs)
  obtain w1 where "WriteFrame raw_write w f = (Return (), w1)" "write_frames raw_write w1 fs = (Return (), w')"
    using Cons.prems by (auto split: prod.splits outcome.splits)
  with Cons.IH WriteFrame_Return show ?case by fastforce
qed simp

subsection \<open>Properties\<close>

text \<open>
  C20: Frames survive the connection. However the connection splits the writes, when a series of
  frames was written without error, the other end reads exactly those frames, in order, and then
  whatever was sent after them; each frame carries at most a megabyte.
\<close>

theorem frames_delivered:
  assumes "write_frames raw_write w fs = (Return (), w')" and "raw_sent w = []"
  shows "read_frames (raw_sent w' @ rest) = fs @ read_frames rest \<and> list_all wf_Frame fs"
  using write_frames_Return [OF assms(1)] assms(2) by (simp add: read_frames_append)

definition example_frame :: Frame where
  "example_frame = \<lparr>f_Type = FrameData, f_StreamID = 1, f_Payload = [7, 8, 9]\<rparr>"

definition example_raw :: raw_conn where
  "example_raw = \<lparr>raw_sent = [], raw_plan = [Takes 2, Takes 1, Takes 8, Takes 1]\<rparr>"

theorem frames_delivered_witness:
  "read_frames (raw_sent (snd (write_frames raw_write example_raw [example_frame]))) = [example_frame]"
proof -
  let ?w = "snd (writeFull raw_write example_raw (frame_header example_frame))"
  have "fst (writeFull raw_write example_raw (frame_header example_frame)) = Return ()"
    "fst (writeFull raw_write ?w (f_Payload example_frame)) = Return ()"
    by code_simp+
  then have "fst (WriteFrame raw_write example_raw example_frame) = Return ()"
    by (auto simp: WriteFrame_def maxFrameSize_def example_frame_def split: prod.splits)
  then have "write_frames raw_write example_raw [example_frame] =
      (Return (), snd (write_frames raw_write example_raw [example_frame]))"
    by (auto split: prod.splits)
  moreover have "raw_sent example_raw = []" by (simp add: example_raw_def)
  moreover have "read_frames [] = []" by (simp add: read_frames.simps ReadFrame_def ReadFull_def frameHeaderSize_def)
  ultimately show ?thesis using frames_delivered [of example_raw "[example_frame]" _ "[]"] by simp
qed

text \<open>
  The frame reader is safe on any input: it never panics, what it accepts is a frame of at most
  a megabyte, and it consumes exactly the nine bytes of the header and the payload.
\<close>

theorem ReadFrame_safe:
  "ReadFrame r \<noteq> Panic \<and>
   (\<forall>f rest. ReadFrame r = Return (f, rest) \<longrightarrow>
      length (f_Payload f) \<le> maxFrameSize \<and> rest = drop (9 + length (f_Payload f)) r)"
proof (intro conjI allI impI)
  fix f rest
  assume ret: "ReadFrame r = Return (f, rest)"
  then show "length (f_Payload f) \<le> maxFrameSize" using ReadFrame_Return by (simp add: wf_Frame_def)
  have "\<exists>n. rest = drop n r"
    using ret by (auto simp: ReadFrame_def ReadFull_def go_outcome go_guard_def Let_def split: if_splits prod.splits)
  then obtain n where "rest = drop n r" ..
  moreover from this ReadFrame_Return [OF ret]
  have "n = 9 + length (f_Payload f) \<or> length r \<le> n \<and> length r \<le> 9 + length (f_Payload f)"
    by auto
  ultimately show "rest = drop (9 + length (f_Payload f)) r" by auto
qed (rule ReadFrame_no_panic)

theorem ReadFrame_safe_witness:
  "ReadFrame (encode_frame example_frame @ [12]) = Return (example_frame, [12]) \<and>
   length (f_Payload example_frame) \<le> maxFrameSize"
proof
  show ret: "ReadFrame (encode_frame example_frame @ [12]) = Return (example_frame, [12])"
    by (rule ReadFrame_encode) (simp add: wf_Frame_def example_frame_def maxFrameSize_def)
  show "length (f_Payload example_frame) \<le> maxFrameSize"
    using ReadFrame_safe [of "encode_frame example_frame @ [12]"] ret by blast
qed

end
