(* ===== verification/Transport_Conn.thy ===== *)
theory Transport_Conn
  imports Transport_Frame
begin

text \<open>
  The multiplexed connection of transport/conn.go. Streams are objects that stay reachable after
  they leave the connection's map, so the connection keeps the list of all stream objects and the
  map holds positions in it. Channels are lists with a capacity; sending to a full channel and
  receiving from an empty one blocks, which is \<open>None\<close> for the operations of a caller and the
  absence of a step for the read loop. The read loop is a step relation over its program points;
  in every step another frame may arrive or the connection may fail, and the operations of other
  goroutines interleave with it (\<open>conn_step\<close>).

  Shown: an invariant of all reachable states; that a stream can be opened whenever fewer than a
  thousand are open, with an unused odd identifier; that a stream delivers its bytes in order;
  that one full stream stops the whole connection; that closing the connection leaves blocked
  readers blocked; and that a peer can remove the control stream.
\<close>

subsection \<open>State\<close>

record Stream =
  sm_id :: uint32
  sm_readCh :: "bytes list"
  sm_cap :: nat
  sm_buf :: bytes
  sm_closed :: bool

record Conn =
  c_objs :: "Stream list"
  c_streams :: "uint32 \<rightharpoonup> nat"
  c_nextID :: uint32
  c_acceptCh :: "nat list"
  c_closed :: bool
  c_done :: bool
  c_raw :: raw_conn

datatype conn_error = ErrClosed | StreamClosed | NoStreamIDs | FrameError io_error

definition new_stream :: "uint32 \<Rightarrow> nat \<Rightarrow> Stream" where
  "new_stream sid cap = \<lparr>sm_id = sid, sm_readCh = [], sm_cap = cap, sm_buf = [], sm_closed = False\<rparr>"

definition add_stream :: "uint32 \<Rightarrow> nat \<Rightarrow> Conn \<Rightarrow> nat \<times> Conn" where
  "add_stream sid cap c =
     (let s = length (c_objs c)
      in (s, c\<lparr>c_objs := c_objs c @ [new_stream sid cap], c_streams := (c_streams c)(sid \<mapsto> s)\<rparr>))"

definition newConn :: "raw_conn \<Rightarrow> Conn" where
  "newConn raw =
     snd (add_stream ControlStreamID 64
       \<lparr>c_objs = [], c_streams = Map.empty, c_nextID = 1, c_acceptCh = [], c_closed = False,
        c_done = False, c_raw = raw\<rparr>)"

definition upd_stream :: "nat \<Rightarrow> (Stream \<Rightarrow> Stream) \<Rightarrow> Conn \<Rightarrow> Conn" where
  "upd_stream s g c = c\<lparr>c_objs := (c_objs c)[s := g (c_objs c ! s)]\<rparr>"

text \<open>A send in a select with a default case drops the value when the channel is full.\<close>

definition try_send :: "bytes \<Rightarrow> Stream \<Rightarrow> Stream" where
  "try_send v st = (if length (sm_readCh st) < sm_cap st then st\<lparr>sm_readCh := sm_readCh st @ [v]\<rparr> else st)"

subsection \<open>Opening and accepting streams\<close>

definition advance_id :: "uint32 \<Rightarrow> uint32" where
  "advance_id n = (let n = n + 2 in if n < 2 then 1 else n)"

fun open_attempts :: "nat \<Rightarrow> Conn \<Rightarrow> (conn_error, nat) outcome \<times> Conn" where
  "open_attempts 0 c = (Error NoStreamIDs, c)"
| "open_attempts (Suc attempts) c =
     (let sid = c_nextID c;
          c = c\<lparr>c_nextID := advance_id (c_nextID c)\<rparr>
      in if c_streams c sid = None then (let (s, c) = add_stream sid 16 c in (Return s, c))
         else open_attempts attempts c)"

definition OpenStream :: "Conn \<Rightarrow> (conn_error, nat) outcome \<times> Conn" where
  "OpenStream c = (if c_closed c then (Error ErrClosed, c) else open_attempts 1000 c)"

text \<open>When both cases of the select are ready, the caller's \<open>pick\<close> decides.\<close>

definition AcceptStream :: "bool \<Rightarrow> Conn \<Rightarrow> ((conn_error, nat) outcome \<times> Conn) option" where
  "AcceptStream pick c =
     (case c_acceptCh c of
        [] \<Rightarrow> if c_done c then Some (Error ErrClosed, c) else None
      | s # rest \<Rightarrow>
          if c_done c \<and> pick then Some (Error ErrClosed, c)
          else Some (Return s, c\<lparr>c_acceptCh := rest\<rparr>))"

definition ControlStream :: "Conn \<Rightarrow> nat option" where
  "ControlStream c = c_streams c ControlStreamID"

subsection \<open>Closing\<close>

definition Conn_Close :: "Conn \<Rightarrow> Conn" where
  "Conn_Close c = (if c_closed c then c else c\<lparr>c_closed := True, c_done := True\<rparr>)"

definition IsClosed :: "Conn \<Rightarrow> bool" where
  "IsClosed c = c_closed c"

definition wake_stream :: "Stream \<Rightarrow> Stream" where
  "wake_stream st = (if \<not> sm_closed st then try_send [] (st\<lparr>sm_closed := True\<rparr>) else st)"

definition closeAll :: "uint32 list \<Rightarrow> Conn \<Rightarrow> Conn" where
  "closeAll order c =
     (if c_closed c then c
      else fold (\<lambda>sid c. case c_streams c sid of None \<Rightarrow> c | Some s \<Rightarrow> upd_stream s wake_stream c)
             order (c\<lparr>c_closed := True, c_done := True\<rparr>))"

subsection \<open>Streams\<close>

text \<open>Reading at most \<open>n\<close> bytes; an empty slice on the channel is the nil that ends a stream.\<close>

definition Stream_Read :: "nat \<Rightarrow> Stream \<Rightarrow> ((conn_error, bytes) outcome \<times> Stream) option" where
  "Stream_Read n st =
     (if length (sm_buf st) > 0 then Some (Return (take n (sm_buf st)), st\<lparr>sm_buf := drop n (sm_buf st)\<rparr>)
      else (case sm_readCh st of
              [] \<Rightarrow> None
            | data # rest \<Rightarrow>
                (let st = st\<lparr>sm_readCh := rest\<rparr>
                 in if data = [] then Some (Error (if sm_closed st then StreamClosed else ErrClosed), st)
                    else Some (Return (take n data), if n < length data then st\<lparr>sm_buf := drop n data\<rparr> else st))))"

definition writeFrame :: "Frame \<Rightarrow> Conn \<Rightarrow> (conn_error, unit) outcome \<times> Conn" where
  "writeFrame f c =
     (case WriteFrame raw_write (c_raw c) f of
        (Return u, raw) \<Rightarrow> (Return u, c\<lparr>c_raw := raw\<rparr>)
      | (Error e, raw) \<Rightarrow> (Error (FrameError e), c\<lparr>c_raw := raw\<rparr>)
      | (Panic, raw) \<Rightarrow> (Panic, c\<lparr>c_raw := raw\<rparr>))"

definition Stream_Write :: "nat \<Rightarrow> bytes \<Rightarrow> Conn \<Rightarrow> (conn_error, nat) outcome \<times> Conn" where
  "Stream_Write s b c =
     (if sm_closed (c_objs c ! s) then (Error ErrClosed, c)
      else (case writeFrame \<lparr>f_Type = FrameData, f_StreamID = sm_id (c_objs c ! s), f_Payload = b\<rparr> c of
              (Return _, c') \<Rightarrow> (Return (length b), c')
            | (Error e, c') \<Rightarrow> (Error e, c')
            | (Panic, c') \<Rightarrow> (Panic, c')))"

definition Stream_Close :: "nat \<Rightarrow> Conn \<Rightarrow> (conn_error, unit) outcome \<times> Conn" where
  "Stream_Close s c =
     (if sm_closed (c_objs c ! s) then (Return (), c)
      else writeFrame \<lparr>f_Type = FrameClose, f_StreamID = sm_id (c_objs c ! s), f_Payload = []\<rparr>
             (upd_stream s (\<lambda>st. st\<lparr>sm_closed := True\<rparr>) c))"

subsection \<open>The read loop\<close>

datatype loop = LoopRead | LoopAccept nat Frame | LoopFrame nat Frame | LoopStopped

definition handle_close :: "nat \<Rightarrow> Frame \<Rightarrow> Conn \<Rightarrow> Conn" where
  "handle_close s f c =
     (let c = upd_stream s (\<lambda>st. try_send [] (st\<lparr>sm_closed := True\<rparr>)) c
      in c\<lparr>c_streams := (c_streams c)(f_StreamID f := None)\<rparr>)"

definition deliver :: "nat \<Rightarrow> bytes \<Rightarrow> Conn \<Rightarrow> Conn" where
  "deliver s payload c = upd_stream s (\<lambda>st. st\<lparr>sm_readCh := sm_readCh st @ [payload]\<rparr>) c"

inductive read_step :: "Conn \<Rightarrow> loop \<Rightarrow> Conn \<Rightarrow> loop \<Rightarrow> bool" where
  read_failed: "read_step c LoopRead (closeAll order c) LoopStopped"
    if "range_order (c_streams c) order"
| read_known: "read_step c LoopRead c (LoopFrame s f)"
    if "c_streams c (f_StreamID f) = Some s"
| read_new: "read_step c LoopRead c' (LoopAccept s f)"
    if "c_streams c (f_StreamID f) = None" "add_stream (f_StreamID f) 16 c = (s, c')"
| accept_queued: "read_step c (LoopAccept s f) (c\<lparr>c_acceptCh := c_acceptCh c @ [s]\<rparr>) (LoopFrame s f)"
    if "length (c_acceptCh c) < 64"
| accept_done: "read_step c (LoopAccept s f) c LoopStopped"
    if "c_done c"
| frame_close: "read_step c (LoopFrame s f) (handle_close s f c) LoopRead"
    if "f_Type f = FrameClose"
| frame_data: "read_step c (LoopFrame s f) (deliver s (f_Payload f) c) LoopRead"
    if "f_Type f \<noteq> FrameClose" "length (sm_readCh (c_objs c ! s)) < sm_cap (c_objs c ! s)"
| frame_done: "read_step c (LoopFrame s f) c LoopStopped"
    if "f_Type f \<noteq> FrameClose" "c_done c"

text \<open>
  All that can happen on a connection: the read loop, and the operations of other goroutines on it.
\<close>

inductive conn_step :: "Conn \<times> loop \<Rightarrow> Conn \<times> loop \<Rightarrow> bool" where
  loop: "conn_step (c, l) (c', l')" if "read_step c l c' l'"
| opens: "conn_step (c, l) (snd (OpenStream c), l)"
| accepts: "conn_step (c, l) (c', l)" if "AcceptStream pick c = Some (res, c')"
| closes: "conn_step (c, l) (Conn_Close c, l)"
| reads: "conn_step (c, l) (upd_stream s (\<lambda>_. st) c, l)"
    if "s < length (c_objs c)" "Stream_Read n (c_objs c ! s) = Some (res, st)"
| writes: "conn_step (c, l) (snd (Stream_Write s b c), l)" if "s < length (c_objs c)"
| stream_closes: "conn_step (c, l) (snd (Stream_Close s c), l)" if "s < length (c_objs c)"

inductive_cases read_step_frameE: "read_step c (LoopFrame s f) c' l'"
inductive_cases read_step_stoppedE: "read_step c LoopStopped c' l'"
inductive_cases conn_stepE: "conn_step (c, l) (c', l')"

subsection \<open>Invariant\<close>

definition wf_Stream :: "Stream \<Rightarrow> bool" where
  "wf_Stream st \<longleftrightarrow> (sm_cap st = 16 \<or> sm_cap st = 64) \<and> length (sm_readCh st) \<le> sm_cap st"

text \<open>\<open>open_ref c s sid\<close>: \<open>s\<close> is a stream object of the connection, with identifier \<open>sid\<close>.\<close>

definition open_ref :: "Conn \<Rightarrow> nat \<Rightarrow> uint32 \<Rightarrow> bool" where
  "open_ref c s sid \<longleftrightarrow> s < length (c_objs c) \<and> sm_id (c_objs c ! s) = sid"

definition wf_Conn :: "Conn \<Rightarrow> bool" where
  "wf_Conn c \<longleftrightarrow> list_all wf_Stream (c_objs c) \<and>
     (\<forall>sid s. c_streams c sid = Some s \<longrightarrow> open_ref c s sid) \<and>
     length (c_acceptCh c) \<le> 64 \<and> list_all (\<lambda>s. s < length (c_objs c)) (c_acceptCh c) \<and>
     odd (c_nextID c) \<and> (c_closed c \<longleftrightarrow> c_done c)"

fun wf_loop :: "Conn \<Rightarrow> loop \<Rightarrow> bool" where
  "wf_loop c (LoopAccept s f) = open_ref c s (f_StreamID f)"
| "wf_loop c (LoopFrame s f) = open_ref c s (f_StreamID f)"
| "wf_loop c _ = True"

lemma word_lt_2: "(x :: uint32) < 2 \<longleftrightarrow> x = 0 \<or> x = 1"
proof -
  have "x < 2 \<longleftrightarrow> unat x < 2" by (simp add: word_less_nat_alt)
  also have "\<dots> \<longleftrightarrow> unat x = 0 \<or> unat x = 1" by auto
  finally show ?thesis by (metis unat_0 unat_1 word_unat_eq_iff)
qed

lemma advance_id_odd: "odd n \<Longrightarrow> advance_id n = n + 2"
proof -
  assume "odd n"
  then have "odd (n + 2)" by simp
  then have "n + 2 \<noteq> 0" by fastforce
  then show ?thesis by (auto simp: advance_id_def Let_def word_lt_2)
qed

lemma wf_Conn_upd:
  assumes "wf_Conn c" and "s < length (c_objs c)"
    and "wf_Stream (g (c_objs c ! s))" and "sm_id (g (c_objs c ! s)) = sm_id (c_objs c ! s)"
  shows "wf_Conn (upd_stream s g c)"
proof -
  have "list_all wf_Stream ((c_objs c)[s := g (c_objs c ! s)])"
    using assms(1,3) set_update_subset_insert [of "c_objs c" s "g (c_objs c ! s)"]
    by (auto simp: wf_Conn_def list_all_iff)
  with assms show ?thesis by (auto simp: wf_Conn_def upd_stream_def open_ref_def nth_list_update)
qed

lemma open_ref_upd:
  "sm_id (g (c_objs c ! s)) = sm_id (c_objs c ! s) \<Longrightarrow> open_ref (upd_stream s g c) s' sid = open_ref c s' sid"
  by (cases "s' = s") (auto simp: open_ref_def upd_stream_def nth_list_update)

lemma wf_Stream_nth: "wf_Conn c \<Longrightarrow> s < length (c_objs c) \<Longrightarrow> wf_Stream (c_objs c ! s)"
  by (auto simp: wf_Conn_def list_all_length)

lemma try_send_simps [simp]:
  "wf_Stream st \<Longrightarrow> wf_Stream (try_send v st)" "sm_id (try_send v st) = sm_id st"
  "wf_Stream (st\<lparr>sm_closed := b\<rparr>) = wf_Stream st" "wf_Stream (st\<lparr>sm_buf := d\<rparr>) = wf_Stream st"
  by (auto simp: try_send_def wf_Stream_def)

lemma wake_stream_simps [simp]: "wf_Stream st \<Longrightarrow> wf_Stream (wake_stream st)" "sm_id (wake_stream st) = sm_id st"
  by (simp_all add: wake_stream_def)

lemma wf_add_stream:
  assumes "wf_Conn c" and "add_stream sid cap c = (s, c')" and "cap = 16 \<or> cap = 64"
  shows "wf_Conn c'" "open_ref c' s sid" "open_ref c s' sid' \<Longrightarrow> open_ref c' s' sid'"
  using assms by (auto simp: add_stream_def Let_def wf_Conn_def open_ref_def new_stream_def wf_Stream_def
      nth_append less_Suc_eq list_all_iff split: if_splits)

lemma wf_newConn: "wf_Conn (newConn raw)"
proof (cases "add_stream ControlStreamID 64 \<lparr>c_objs = [], c_streams = Map.empty, c_nextID = 1,
    c_acceptCh = [], c_closed = False, c_done = False, c_raw = raw\<rparr>")
  case (Pair s c)
  have "wf_Conn \<lparr>c_objs = [], c_streams = Map.empty, c_nextID = 1, c_acceptCh = [], c_closed = False,
      c_done = False, c_raw = raw\<rparr>" by (simp add: wf_Conn_def)
  from wf_add_stream(1) [OF this Pair] show ?thesis by (simp add: newConn_def Pair)
qed

lemma wf_open_attempts:
  "wf_Conn c \<Longrightarrow> wf_Conn (snd (open_attempts k c)) \<and>
     (\<forall>s sid. open_ref c s sid \<longrightarrow> open_ref (snd (open_attempts k c)) s sid)"
proof (induction k arbitrary: c)
  case (Suc k)
  let ?c = "c\<lparr>c_nextID := advance_id (c_nextID c)\<rparr>"
  have wf: "wf_Conn ?c" using Suc.prems by (auto simp: wf_Conn_def advance_id_odd open_ref_def)
  have ref: "open_ref ?c s sid = open_ref c s sid" for s sid by (simp add: open_ref_def)
  obtain s c' where add: "add_stream (c_nextID c) 16 ?c = (s, c')" by (cases "add_stream (c_nextID c) 16 ?c")
  from Suc.IH [OF wf] wf_add_stream [OF wf add] add show ?case by (auto simp: Let_def ref)
qed simp

lemma wf_OpenStream:
  "wf_Conn c \<Longrightarrow> wf_Conn (snd (OpenStream c))"
  "wf_Conn c \<Longrightarrow> open_ref c s sid \<Longrightarrow> open_ref (snd (OpenStream c)) s sid"
  using wf_open_attempts [of c 1000] by (simp_all add: OpenStream_def)

lemma wf_writeFrame:
  "wf_Conn (snd (writeFrame f c)) = wf_Conn c" "open_ref (snd (writeFrame f c)) s sid = open_ref c s sid"
  by (auto simp: writeFrame_def wf_Conn_def open_ref_def split: prod.split outcome.split)

lemma upd_stream_fields [simp]:
  "c_streams (upd_stream s g c) = c_streams c" "c_acceptCh (upd_stream s g c) = c_acceptCh c"
  "c_nextID (upd_stream s g c) = c_nextID c" "c_closed (upd_stream s g c) = c_closed c"
  "c_done (upd_stream s g c) = c_done c" "length (c_objs (upd_stream s g c)) = length (c_objs c)"
  by (simp_all add: upd_stream_def)

lemma upd_stream_nth:
  "s < length (c_objs c) \<Longrightarrow> c_objs (upd_stream s' g c) ! s = (if s = s' then g (c_objs c ! s) else c_objs c ! s)"
  by (auto simp: upd_stream_def nth_list_update)

lemma wf_closeAll:
  assumes "wf_Conn c"
  shows "wf_Conn (closeAll order c) \<and> (\<forall>s sid. open_ref (closeAll order c) s sid = open_ref c s sid)"
proof -
  let ?step = "\<lambda>sid c. case c_streams c sid of None \<Rightarrow> c | Some s \<Rightarrow> upd_stream s wake_stream c"
  have step: "wf_Conn (?step sid c) \<and> (\<forall>s i. open_ref (?step sid c) s i = open_ref c s i)" if "wf_Conn c" for sid c
  proof (cases "c_streams c sid")
    case (Some s)
    with that have "s < length (c_objs c)" by (auto simp: wf_Conn_def open_ref_def)
    with that Some show ?thesis by (simp add: wf_Conn_upd wf_Stream_nth open_ref_upd)
  qed (use that in simp)
  have "wf_Conn (fold ?step order c) \<and> (\<forall>s i. open_ref (fold ?step order c) s i = open_ref c s i)"
    if "wf_Conn c" for c
    using that
  proof (induction order arbitrary: c)
    case (Cons sid order)
    from Cons.IH [of "?step sid c"] step [OF Cons.prems, of sid] show ?case by simp
  qed simp
  from this [of "c\<lparr>c_closed := True, c_done := True\<rparr>"] assms show ?thesis
    by (auto simp: closeAll_def wf_Conn_def open_ref_def)
qed

lemma wf_handle_close:
  assumes "wf_Conn c" and "s < length (c_objs c)"
  shows "wf_Conn (handle_close s f c)"
proof -
  have "wf_Conn (upd_stream s (\<lambda>st. try_send [] (st\<lparr>sm_closed := True\<rparr>)) c)"
    using assms by (intro wf_Conn_upd) (simp_all add: wf_Stream_nth)
  then show ?thesis by (auto simp: handle_close_def Let_def wf_Conn_def open_ref_def)
qed

lemma wf_deliver:
  assumes "wf_Conn c" and "s < length (c_objs c)" and "length (sm_readCh (c_objs c ! s)) < sm_cap (c_objs c ! s)"
  shows "wf_Conn (deliver s payload c)"
  unfolding deliver_def
  using assms wf_Stream_nth [OF assms(1,2)] by (intro wf_Conn_upd) (auto simp: wf_Stream_def)

lemma wf_read_step:
  assumes "read_step c l c' l'" and "wf_Conn c" and "wf_loop c l"
  shows "wf_Conn c' \<and> wf_loop c' l'"
  using assms
proof (induction rule: read_step.induct)
  case (read_failed c order)
  then show ?case using wf_closeAll by simp
next
  case (read_known c f s)
  then show ?case by (simp add: wf_Conn_def)
next
  case (read_new c f s c')
  then show ?case using wf_add_stream [of c] by simp
next
  case (accept_queued c s f)
  then show ?case by (auto simp: wf_Conn_def open_ref_def)
next
  case (frame_close f c s)
  then show ?case by (simp add: wf_handle_close open_ref_def)
next
  case (frame_data f c s)
  then show ?case by (simp add: wf_deliver open_ref_def)
qed simp_all

lemma Stream_Read_wf:
  assumes "Stream_Read n st = Some (res, st')" and "wf_Stream st"
  shows "wf_Stream st'" "sm_id st' = sm_id st"
  using assms by (auto simp: Stream_Read_def wf_Stream_def Let_def split: if_splits list.splits)

text \<open>No operation makes a stream object disappear or changes its identifier.\<close>

lemma wf_loop_mono: "wf_loop c l \<Longrightarrow> (\<And>s sid. open_ref c s sid \<Longrightarrow> open_ref c' s sid) \<Longrightarrow> wf_loop c' l"
  by (cases l) auto

lemma wf_conn_step:
  assumes "conn_step cl cl'" and "wf_Conn (fst cl)" and "wf_loop (fst cl) (snd cl)"
  shows "wf_Conn (fst cl') \<and> wf_loop (fst cl') (snd cl')"
  using assms
proof (induction rule: conn_step.induct)
  case (loop c l c' l')
  then show ?case using wf_read_step by simp
next
  case (opens c l)
  then show ?case using wf_OpenStream by (auto intro: wf_loop_mono)
next
  case (accepts pick c res c' l)
  then show ?case
    by (auto simp: AcceptStream_def wf_Conn_def open_ref_def elim!: wf_loop_mono split: list.splits if_splits)
next
  case (closes c l)
  then show ?case
    by (auto simp: Conn_Close_def wf_Conn_def open_ref_def elim!: wf_loop_mono)
next
  case (reads s c n res st l)
  note st = Stream_Read_wf [OF reads(2) wf_Stream_nth]
  from reads st show ?case by (auto simp: wf_Conn_upd open_ref_upd elim!: wf_loop_mono)
next
  case (writes s c l b)
  have "snd (Stream_Write s b c) = c \<or> (\<exists>f. snd (Stream_Write s b c) = snd (writeFrame f c))"
    by (auto simp: Stream_Write_def split: prod.split outcome.split) (metis snd_conv)+
  with writes show ?case by (auto simp: wf_writeFrame elim!: wf_loop_mono)
next
  case (stream_closes s c l)
  then show ?case
    by (auto simp: Stream_Close_def wf_writeFrame wf_Conn_upd wf_Stream_nth open_ref_upd elim!: wf_loop_mono)
qed

interpretation conn: invariant conn_step "\<lambda>cl. \<exists>raw. cl = (newConn raw, LoopRead)"
    "\<lambda>cl. wf_Conn (fst cl) \<and> wf_loop (fst cl) (snd cl)"
  by unfold_locales (use wf_conn_step wf_newConn in auto)

subsection \<open>Opening streams\<close>

text \<open>The identifiers tried are the counter and the odd numbers after it, modulo the word size.\<close>

definition candidate :: "uint32 \<Rightarrow> nat \<Rightarrow> uint32" where
  "candidate n i = n + of_nat (2 * i)"

lemma candidate_simps [simp]: "candidate n 0 = n" "candidate (n + 2) i = candidate n (Suc i)"
  "odd (candidate n i) = odd n"
  by (simp_all add: candidate_def algebra_simps)

definition opened :: "uint32 \<Rightarrow> Conn \<Rightarrow> Conn" where
  "opened sid c = c\<lparr>c_nextID := sid + 2, c_objs := c_objs c @ [new_stream sid 16],
     c_streams := (c_streams c)(sid \<mapsto> length (c_objs c))\<rparr>"

lemma open_attempts_finds:
  assumes "odd (c_nextID c)" and "i < k" and "c_streams c (candidate (c_nextID c) i) = None"
  shows "\<exists>j<k. c_streams c (candidate (c_nextID c) j) = None \<and>
    open_attempts k c = (Return (length (c_objs c)), opened (candidate (c_nextID c) j) c)"
  using assms
proof (induction k arbitrary: c i)
  case (Suc k)
  let ?c = "c\<lparr>c_nextID := c_nextID c + 2\<rparr>"
  show ?case
  proof (cases "c_streams c (c_nextID c) = None")
    case True
    with Suc.prems(1) show ?thesis
      by (intro exI [of _ 0]) (simp add: Let_def advance_id_odd add_stream_def opened_def)
  next
    case False
    with Suc.prems obtain i' where i': "i = Suc i'" by (cases i) auto
    have "\<exists>j<k. c_streams ?c (candidate (c_nextID ?c) j) = None \<and>
      open_attempts k ?c = (Return (length (c_objs ?c)), opened (candidate (c_nextID ?c) j) ?c)"
      by (rule Suc.IH [of ?c i']) (use Suc.prems i' in simp_all)
    then obtain j where "j < k" "c_streams c (candidate (c_nextID c) (Suc j)) = None"
      "open_attempts k ?c = (Return (length (c_objs c)), opened (candidate (c_nextID c) (Suc j)) ?c)"
      by auto
    with False Suc.prems(1) show ?thesis
      by (intro exI [of _ "Suc j"]) (auto simp: Let_def advance_id_odd opened_def)
  qed
qed simp

lemma inj_candidate: "inj_on (candidate n) {..<1000}"
proof (rule inj_onI)
  fix i j :: nat
  assume ij: "i \<in> {..<1000}" "j \<in> {..<1000}" "candidate n i = candidate n j"
  then have "unat (of_nat (2 * i) :: uint32) = unat (of_nat (2 * j) :: uint32)" by (simp add: candidate_def)
  moreover have "unat (of_nat (2 * i) :: uint32) = 2 * i" "unat (of_nat (2 * j) :: uint32) = 2 * j"
    using ij by (simp_all del: of_nat_mult)
  ultimately show "i = j" by simp
qed

lemma free_candidate:
  assumes "card (dom m) < 1000" and "finite (dom m)"
  shows "\<exists>i<1000. m (candidate n i) = None"
proof (rule ccontr)
  assume "\<not> (\<exists>i<1000. m (candidate n i) = None)"
  then have "candidate n ` {..<1000} \<subseteq> dom m" by auto
  then have "card (candidate n ` {..<1000}) \<le> card (dom m)"
    using assms(2) by (rule card_mono [rotated])
  with assms(1) show False by (simp add: card_image [OF inj_candidate])
qed

subsection \<open>Properties\<close>


definition example_raw_conn :: raw_conn where
  "example_raw_conn = \<lparr>raw_sent = [], raw_plan = []\<rparr>"


text \<open>
  C30: A stream can always be opened while the connection is open and fewer than a thousand streams
  are: OpenStream then returns a new stream object with an odd identifier that was not in use,
  registers it, and leaves every other stream alone.
\<close>

theorem OpenStream_succeeds:
  assumes "wf_Conn c" and "\<not> c_closed c" and "card (dom (c_streams c)) < 1000"
  shows "\<exists>s c' sid. OpenStream c = (Return s, c') \<and> odd sid \<and> c_streams c sid = None \<and>
    c_streams c' = (c_streams c)(sid \<mapsto> s) \<and> s = length (c_objs c) \<and>
    c_objs c' = c_objs c @ [new_stream sid 16] \<and> wf_Conn c'"
proof -
  have "finite (dom (c_streams c))" by simp
  from free_candidate [OF assms(3) this] obtain i where
    i: "i < 1000" "c_streams c (candidate (c_nextID c) i) = None" by blast
  have odd: "odd (c_nextID c)" using assms(1) by (simp add: wf_Conn_def)
  from open_attempts_finds [OF odd i] obtain j where
    j: "c_streams c (candidate (c_nextID c) j) = None"
    "OpenStream c = (Return (length (c_objs c)), opened (candidate (c_nextID c) j) c)"
    using assms(2) by (auto simp: OpenStream_def)
  have "wf_Conn (opened (candidate (c_nextID c) j) c)" using wf_OpenStream(1) [OF assms(1)] j by simp
  with j odd show ?thesis
    by (intro exI [of _ "length (c_objs c)"] exI [of _ "opened (candidate (c_nextID c) j) c"]
          exI [of _ "candidate (c_nextID c) j"]) (simp add: opened_def)
qed

theorem OpenStream_succeeds_witness:
  "\<exists>s c'. OpenStream (newConn example_raw_conn) = (Return s, c') \<and> wf_Conn c'"
proof -
  have "\<not> c_closed (newConn example_raw_conn)" "card (dom (c_streams (newConn example_raw_conn))) < 1000"
    by (simp_all add: newConn_def add_stream_def Let_def)
  from OpenStream_succeeds [OF wf_newConn this] show ?thesis by blast
qed

text \<open>The bytes a stream still has to deliver before the first nil on its channel.\<close>

definition pending :: "Stream \<Rightarrow> bytes" where
  "pending st = sm_buf st @ concat (takeWhile (\<lambda>d. d \<noteq> []) (sm_readCh st))"

lemma concat_takeWhile_snoc:
  "[] \<notin> set ds \<Longrightarrow> concat (takeWhile (\<lambda>d. d \<noteq> []) (ds @ [p])) = concat (takeWhile (\<lambda>d. d \<noteq> []) ds) @ p"
  by (induction ds) auto

text \<open>
  A stream delivers its bytes in order and loses none: a read of up to n > 0 bytes returns a
  non-empty prefix of the bytes pending and leaves the rest; it blocks only when nothing is
  queued; it reports the end only when the next queued value is the nil of a close; and a data
  frame appends its payload behind what is pending, as long as no close is queued.
\<close>

theorem Stream_Read_in_order:
  assumes "0 < n"
  shows "(\<forall>data st'. Stream_Read n st = Some (Return data, st') \<longrightarrow>
      data \<noteq> [] \<and> length data \<le> n \<and> pending st = data @ pending st') \<and>
    (Stream_Read n st = None \<longleftrightarrow> sm_buf st = [] \<and> sm_readCh st = []) \<and>
    (\<forall>e st'. Stream_Read n st = Some (Error e, st') \<longrightarrow> pending st = [] \<and> hd (sm_readCh st) = []) \<and>
    (\<forall>p. [] \<notin> set (sm_readCh st) \<longrightarrow> pending (st\<lparr>sm_readCh := sm_readCh st @ [p]\<rparr>) = pending st @ p)"
proof (intro conjI allI impI)
  show "pending (st\<lparr>sm_readCh := sm_readCh st @ [p]\<rparr>) = pending st @ p" if "[] \<notin> set (sm_readCh st)" for p
    using concat_takeWhile_snoc [OF that] by (simp add: pending_def)
qed (use assms in \<open>auto simp: Stream_Read_def pending_def Let_def split: if_splits list.splits\<close>)

definition example_stream :: Stream where
  "example_stream = (new_stream 3 16)\<lparr>sm_readCh := [[1, 2, 3], [4]]\<rparr>"

theorem Stream_Read_in_order_witness:
  "\<exists>st'. Stream_Read 2 example_stream = Some (Return [1, 2], st') \<and> pending example_stream = [1, 2] @ pending st'"
proof -
  have "\<exists>st'. Stream_Read 2 example_stream = Some (Return [1, 2], st')"
    by (simp add: Stream_Read_def example_stream_def new_stream_def Let_def)
  then show ?thesis using Stream_Read_in_order [of 2 example_stream] by auto
qed

text \<open>
  One stream that is not read stops the whole connection: when the queue of the stream a data
  frame is addressed to is full and the connection is not closed, the read loop cannot take any
  step, whatever has arrived for other streams, the control stream included.
\<close>

theorem full_stream_blocks_connection:
  assumes "f_Type f = FrameData" and "\<not> c_done c"
    and "sm_cap (c_objs c ! s) \<le> length (sm_readCh (c_objs c ! s))"
  shows "\<not> read_step c (LoopFrame s f) c' l'"
  using assms by (auto elim!: read_step_frameE simp: FrameData_def FrameClose_def)

definition example_full :: Conn where
  "example_full = (newConn example_raw_conn)\<lparr>c_objs := [(new_stream 0 64)\<lparr>sm_readCh := replicate 64 [1]\<rparr>]\<rparr>"

theorem full_stream_blocks_connection_witness:
  "\<forall>c' l'. \<not> read_step example_full (LoopFrame 0 \<lparr>f_Type = FrameData, f_StreamID = 0, f_Payload = [1]\<rparr>) c' l'"
  by (intro allI full_stream_blocks_connection)
     (simp_all add: example_full_def new_stream_def newConn_def add_stream_def Let_def)

text \<open>
  Closing a connection leaves its blocked readers blocked: Conn.Close marks the connection
  closed and wakes nobody, and when the read loop then fails, closeAll finds the connection
  closed and does nothing, so no stream is marked closed and none receives the nil that would
  end a pending Read. Without the earlier Close, closeAll marks every registered stream closed.
\<close>

theorem Close_strands_readers:
  assumes "wf_Conn c" and "\<not> c_closed c" and "range_order (c_streams c) order"
  shows "closeAll order (Conn_Close c) = Conn_Close c \<and> c_objs (Conn_Close c) = c_objs c \<and>
    (\<forall>sid s. c_streams c sid = Some s \<longrightarrow> sm_closed (c_objs (closeAll order c) ! s))"
proof (intro conjI allI impI)
  let ?step = "\<lambda>sid c. case c_streams c sid of None \<Rightarrow> c | Some s \<Rightarrow> upd_stream s wake_stream c"
  show "closeAll order (Conn_Close c) = Conn_Close c" "c_objs (Conn_Close c) = c_objs c"
    by (simp_all add: closeAll_def Conn_Close_def)
  fix sid s
  assume s: "c_streams c sid = Some s"
  have mono: "sm_closed (c_objs (?step i d) ! s) \<and> s < length (c_objs (?step i d))"
    if "sm_closed (c_objs d ! s) \<and> s < length (c_objs d)" for i d
    using that by (auto simp: upd_stream_nth wake_stream_def try_send_def split: option.split)
  have keep: "sm_closed (c_objs (fold ?step is d) ! s)" if "sm_closed (c_objs d ! s) \<and> s < length (c_objs d)" for "is" d
    using that by (induction "is" arbitrary: d) (simp_all add: mono)
  have "sm_closed (c_objs (fold ?step is d) ! s)"
    if "sid \<in> set is" "c_streams d = c_streams c" "length (c_objs d) = length (c_objs c)" for "is" d
    using that
  proof (induction "is" arbitrary: d)
    case (Cons i "is")
    have len: "s < length (c_objs c)" using assms(1) s by (auto simp: wf_Conn_def open_ref_def)
    have same: "c_streams (?step i d) = c_streams c" "length (c_objs (?step i d)) = length (c_objs c)"
      using Cons.prems by (auto split: option.split)
    show ?case
    proof (cases "i = sid")
      case True
      then have "sm_closed (c_objs (?step i d) ! s) \<and> s < length (c_objs (?step i d))"
        using s len Cons.prems by (simp add: upd_stream_def wake_stream_def try_send_def)
      from keep [OF this] show ?thesis by simp
    next
      case False
      with Cons.prems Cons.IH [OF _ same] show ?thesis by simp
    qed
  qed simp
  moreover have "sid \<in> set order" using assms(3) s by (auto simp: range_order_def)
  ultimately show "sm_closed (c_objs (closeAll order c) ! s)" using assms(2) by (simp add: closeAll_def)
qed

theorem Close_strands_readers_witness:
  "closeAll [0] (Conn_Close (newConn example_raw_conn)) = Conn_Close (newConn example_raw_conn) \<and>
   sm_closed (c_objs (closeAll [0] (newConn example_raw_conn)) ! 0)"
proof -
  have "\<not> c_closed (newConn example_raw_conn)" "range_order (c_streams (newConn example_raw_conn)) [0]"
    "c_streams (newConn example_raw_conn) 0 = Some 0"
    by (simp_all add: newConn_def add_stream_def Let_def range_order_def ControlStreamID_def)
  with Close_strands_readers [OF wf_newConn] show ?thesis by blast
qed

text \<open>
  A peer can take the control stream away: a close frame for stream 0 removes it from the
  connection, and every later use of ControlStream, which the gossip engine does without a check,
  gets nil until the peer happens to send a data frame for stream 0.
\<close>

theorem close_frame_removes_control_stream:
  assumes "wf_Conn c" and "ControlStream c = Some s"
  shows "\<exists>c'. conn_step\<^sup>*\<^sup>* (c, LoopRead) (c', LoopRead) \<and> ControlStream c' = None \<and> c_closed c' = c_closed c"
proof -
  let ?f = "\<lparr>f_Type = FrameClose, f_StreamID = ControlStreamID, f_Payload = []\<rparr>"
  have "conn_step (c, LoopRead) (c, LoopFrame s ?f)"
    using assms(2) by (intro conn_step.loop read_step.read_known) (simp add: ControlStream_def)
  moreover have "conn_step (c, LoopFrame s ?f) (handle_close s ?f c, LoopRead)"
    by (intro conn_step.loop read_step.frame_close) simp
  ultimately have "conn_step\<^sup>*\<^sup>* (c, LoopRead) (handle_close s ?f c, LoopRead)"
    by (meson converse_rtranclp_into_rtranclp r_into_rtranclp)
  moreover have "ControlStream (handle_close s ?f c) = None" "c_closed (handle_close s ?f c) = c_closed c"
    by (simp_all add: ControlStream_def handle_close_def Let_def)
  ultimately show ?thesis by blast
qed

theorem close_frame_removes_control_stream_witness:
  "\<exists>c'. conn_step\<^sup>*\<^sup>* (newConn example_raw_conn, LoopRead) (c', LoopRead) \<and> ControlStream c' = None"
proof -
  have "ControlStream (newConn example_raw_conn) = Some 0"
    by (simp add: ControlStream_def newConn_def add_stream_def Let_def)
  from close_frame_removes_control_stream [OF wf_newConn this] show ?thesis by blast
qed

end
