(* ===== verification/Forward_TCP.thy ===== *)
theory Forward_TCP
  imports Go_Addr Wire_Forward Transport_Conn
begin

text \<open>
  The TCP relay of forward/tcp_relay.go and the copying of two byte streams into each other, which
  the relay (\<open>splice\<close>) and the SOCKS5 server (\<open>relay\<close>, \<open>ioCopy\<close>) share. What a call does to the
  outside is its list of events. Whether a dial or a write succeeds is an argument.

  One direction of copying is a function of the results the reads return; both directions running
  at once are a step relation, in which bytes arrive, are read and written piece by piece, and
  either side may end or fail at any moment.

  Shown: copying passes on exactly the bytes read, in order; in every interleaving each side has
  received a prefix of what the other sent, and nothing is missing while both directions run; but
  the call returns when the first direction ends, whatever is still on its way in the other; the
  peer that receives a forwarding header dials the address it was made for, itself.
\<close>

subsection \<open>One direction\<close>

datatype copy_error = EndOfInput | ReadFailed | WriteFailed | ShortWrite

text \<open>
  A read returns some bytes and possibly an error; a list of such results is what the reads of a
  connection return one after the other, and a read beyond its end blocks. \<open>wr\<close> writes to the
  destination: it returns the bytes written, whether there was an error, and the new state.
\<close>

type_synonym reads = "(bytes \<times> copy_error option) list"

fun ioCopy :: "('s \<Rightarrow> bytes \<Rightarrow> nat \<times> copy_error option \<times> 's) \<Rightarrow> reads \<Rightarrow> 's \<Rightarrow> nat \<Rightarrow>
    (nat \<times> copy_error \<times> 's) option" where
  "ioCopy wr [] s n = None"
| "ioCopy wr ((chunk, err) # rs) s n =
     (if chunk \<noteq> [] then
        (let (nw, we, s') = wr s chunk
         in case we of
              Some e \<Rightarrow> Some (n + nw, e, s')
            | None \<Rightarrow> (case err of
                Some e \<Rightarrow> Some (n + nw, e, s')
              | None \<Rightarrow> ioCopy wr rs s' (n + nw)))
      else (case err of
          Some e \<Rightarrow> Some (n, e, s)
        | None \<Rightarrow> ioCopy wr rs s n))"

text \<open>\<open>io.Copy\<close> of the standard library: a short write is an error, the end of the input is none.\<close>

fun io_Copy :: "('s \<Rightarrow> bytes \<Rightarrow> nat \<times> copy_error option \<times> 's) \<Rightarrow> reads \<Rightarrow> 's \<Rightarrow> nat \<Rightarrow>
    (nat \<times> copy_error option \<times> 's) option" where
  "io_Copy wr [] s n = None"
| "io_Copy wr ((chunk, err) # rs) s n =
     (if chunk \<noteq> [] then
        (let (nw, we, s') = wr s chunk
         in if we \<noteq> None then Some (n + nw, we, s')
            else if nw \<noteq> length chunk then Some (n + nw, Some ShortWrite, s')
            else (case err of
                Some e \<Rightarrow> Some (n + nw, if e = EndOfInput then None else Some e, s')
              | None \<Rightarrow> io_Copy wr rs s' (n + nw)))
      else (case err of
          Some e \<Rightarrow> Some (n, if e = EndOfInput then None else Some e, s)
        | None \<Rightarrow> io_Copy wr rs s n))"

text \<open>The bytes read up to the first error.\<close>

fun bytes_read :: "reads \<Rightarrow> bytes" where
  "bytes_read [] = []"
| "bytes_read ((chunk, err) # rs) = chunk @ (case err of None \<Rightarrow> bytes_read rs | Some _ \<Rightarrow> [])"

subsection \<open>Both directions\<close>

text \<open>
  One direction while the other runs too: what the source has sent altogether, what of it has not
  been read, what has been read and not been written, what the destination has received.
\<close>

record direction =
  d_sent :: bytes
  d_pending :: bytes
  d_ended :: bool
  d_buf :: bytes
  d_out :: bytes
  d_done :: bool

definition new_direction :: direction where
  "new_direction = \<lparr>d_sent = [], d_pending = [], d_ended = False, d_buf = [], d_out = [], d_done = False\<rparr>"

inductive copy_step :: "direction \<Rightarrow> direction \<Rightarrow> bool" where
  arrive: "copy_step d (d\<lparr>d_sent := d_sent d @ bs, d_pending := d_pending d @ bs\<rparr>)"
    if "\<not> d_ended d"
| source_ends: "copy_step d (d\<lparr>d_ended := True\<rparr>)"
| read: "copy_step d (d\<lparr>d_pending := drop k (d_pending d), d_buf := take k (d_pending d)\<rparr>)"
    if "\<not> d_done d" "d_buf d = []" "0 < k" "k \<le> 32768" "k \<le> length (d_pending d)"
| written: "copy_step d (d\<lparr>d_out := d_out d @ d_buf d, d_buf := []\<rparr>)"
    if "\<not> d_done d" "d_buf d \<noteq> []"
| write_fails: "copy_step d (d\<lparr>d_out := d_out d @ take k (d_buf d), d_buf := drop k (d_buf d), d_done := True\<rparr>)"
    if "\<not> d_done d" "d_buf d \<noteq> []"
| read_ends: "copy_step d (d\<lparr>d_done := True\<rparr>)"
    if "\<not> d_done d" "d_buf d = []" "d_ended d" "d_pending d = []"

record duplex =
  x_ab :: direction
  x_ba :: direction
  x_returned :: bool

definition new_duplex :: duplex where
  "new_duplex = \<lparr>x_ab = new_direction, x_ba = new_direction, x_returned = False\<rparr>"

text \<open>The caller returns when the first of the two goroutines has put its error on the channel.\<close>

inductive splice_step :: "duplex \<Rightarrow> duplex \<Rightarrow> bool" where
  ab: "splice_step x (x\<lparr>x_ab := d\<rparr>)" if "\<not> x_returned x" "copy_step (x_ab x) d"
| ba: "splice_step x (x\<lparr>x_ba := d\<rparr>)" if "\<not> x_returned x" "copy_step (x_ba x) d"
| returns: "splice_step x (x\<lparr>x_returned := True\<rparr>)" if "d_done (x_ab x) \<or> d_done (x_ba x)"

text \<open>
  \<open>relay\<close> of the SOCKS5 server: the same two goroutines and the same wait for the first of them, with the
  server's copy loop in the place of \<open>io.Copy\<close>.
\<close>

definition relay_step :: "duplex \<Rightarrow> duplex \<Rightarrow> bool" where
  "relay_step = splice_step"

subsection \<open>The relay\<close>

datatype tcp_error = OpenStreamFailed | BadTarget | BadIP | BadPort | HeaderWriteFailed
  | HeaderReadFailed | BadHeader wire_error | DialFailed | DataWriteFailed

datatype tcp_event = OpenTo NodeID | WriteStream bytes | CloseStream | Dial string | WriteTarget bytes
  | CloseTarget | Splice

record TCPRelay =
  tr_dialStream :: bool

definition NewTCPRelay :: "bool \<Rightarrow> TCPRelay" where
  "NewTCPRelay dialStream = \<lparr>tr_dialStream = dialStream\<rparr>"

text \<open>
  The callback \<open>dialStream\<close> gives the identifier of the new stream or fails; calling it unset
  panics. The splice runs until it returns and its error is dropped.
\<close>

definition RelayToPeer ::
  "(NodeID \<Rightarrow> uint32 option) \<Rightarrow> (bytes \<Rightarrow> bool) \<Rightarrow> NodeID \<Rightarrow> string \<Rightarrow> TCPRelay \<Rightarrow>
   (tcp_error, unit) outcome \<times> tcp_event list" where
  "RelayToPeer dialStream write_ok peerID targetAddr r =
     (if \<not> tr_dialStream r then (Panic, [])
      else (case dialStream peerID of
        None \<Rightarrow> (Error OpenStreamFailed, [OpenTo peerID])
      | Some sid \<Rightarrow>
          (case SplitHostPort targetAddr of
             None \<Rightarrow> (Error BadTarget, [OpenTo peerID, CloseStream])
           | Some (host, port) \<Rightarrow>
               (case ParseIP host of
                  None \<Rightarrow> (Error BadIP, [OpenTo peerID, CloseStream])
                | Some ip \<Rightarrow>
                    (case Sscanf_uint16 port of
                       None \<Rightarrow> (Error BadPort, [OpenTo peerID, CloseStream])
                     | Some portNum \<Rightarrow>
                         (let hdr = EncodeTCPForwardHeader \<lparr>tf_Flags = TCPFlagNewStream, tf_StreamID = sid,
                                      tf_TargetAddr = ip, tf_TargetPort = portNum\<rparr>
                          in if \<not> write_ok hdr then (Error HeaderWriteFailed, [OpenTo peerID, WriteStream hdr, CloseStream])
                             else (Return (), [OpenTo peerID, WriteStream hdr, Splice, CloseStream])))))))"

definition target_string :: "TCPForwardHeader \<Rightarrow> string" where
  "target_string hdr = JoinHostPort (IP_String (tf_TargetAddr hdr)) (itoa (unat (tf_TargetPort hdr)))"

definition relay_data ::
  "(string \<Rightarrow> bool) \<Rightarrow> (bytes \<Rightarrow> bool) \<Rightarrow> bytes \<Rightarrow> (tcp_error, unit) outcome \<times> tcp_event list" where
  "relay_data dial_ok write_ok data =
     (case DecodeTCPForwardHeader data of
        Panic \<Rightarrow> (Panic, [])
      | Error e \<Rightarrow> (Error (BadHeader e), [])
      | Return (hdr, consumed) \<Rightarrow>
          (let addr = target_string hdr; extra = drop consumed data
           in if \<not> dial_ok addr then (Error DialFailed, [Dial addr])
              else if length data > consumed then
                (if \<not> write_ok extra then (Error DataWriteFailed, [Dial addr, WriteTarget extra, CloseTarget])
                 else (Return (), [Dial addr, WriteTarget extra, Splice, CloseTarget]))
              else (Return (), [Dial addr, Splice, CloseTarget])))"

text \<open>The first read of the stream must bring the whole header; \<open>None\<close> while it blocks.\<close>

definition HandleIncomingRelay ::
  "(string \<Rightarrow> bool) \<Rightarrow> (bytes \<Rightarrow> bool) \<Rightarrow> Stream \<Rightarrow> (((tcp_error, unit) outcome \<times> tcp_event list) \<times> Stream) option" where
  "HandleIncomingRelay dial_ok write_ok st =
     map_option (\<lambda>(res, st').
       (case res of
          Panic \<Rightarrow> (Panic, [])
        | Error e \<Rightarrow> (Error HeaderReadFailed, [])
        | Return data \<Rightarrow> relay_data dial_ok write_ok data, st'))
     (Stream_Read 32768 st)"

subsection \<open>Lemmas on copying\<close>

text \<open>The contract of \<open>io.Writer\<close>: all bytes are written or there is an error, never end of file.\<close>

definition writer :: "('s \<Rightarrow> bytes \<Rightarrow> nat \<times> copy_error option \<times> 's) \<Rightarrow> bool" where
  "writer wr \<longleftrightarrow> (\<forall>s c nw we s'. wr s c = (nw, we, s') \<longrightarrow> we \<noteq> Some EndOfInput \<and> (we = None \<longrightarrow> nw = length c))"

definition append_writer :: "bytes \<Rightarrow> bytes \<Rightarrow> nat \<times> copy_error option \<times> bytes" where
  "append_writer s c = (length c, None, s @ c)"

lemma ioCopy_append:
  "ioCopy append_writer rs s n = (case find (\<lambda>r. snd r \<noteq> None) rs of
     None \<Rightarrow> None | Some r \<Rightarrow> Some (n + length (bytes_read rs), the (snd r), s @ bytes_read rs))"
  by (induction rs arbitrary: s n) (auto simp: append_writer_def split: option.split)

lemma io_Copy_ioCopy:
  assumes "writer wr"
  shows "io_Copy wr rs s n = map_option (\<lambda>(k, e, s'). (k, if e = EndOfInput then None else Some e, s')) (ioCopy wr rs s n)"
proof (induction rs arbitrary: s n)
  case (Cons r rs)
  obtain chunk err where r: "r = (chunk, err)" by fastforce
  obtain nw we s' where w: "wr s chunk = (nw, we, s')" by (cases "wr s chunk") auto
  with assms have "we \<noteq> Some EndOfInput" "we = None \<Longrightarrow> nw = length chunk" by (simp_all add: writer_def) blast+
  with Cons show ?case by (cases we; cases err) (simp_all add: r w)
qed simp

definition copied :: "direction \<Rightarrow> bool" where
  "copied d \<longleftrightarrow> d_sent d = d_out d @ d_buf d @ d_pending d"

lemma copied_step: "copy_step d d' \<Longrightarrow> copied d \<Longrightarrow> copied d'"
  by (induction rule: copy_step.induct) (auto simp: copied_def)

definition splice_inv :: "duplex \<Rightarrow> bool" where
  "splice_inv x \<longleftrightarrow> copied (x_ab x) \<and> copied (x_ba x) \<and> (x_returned x \<longrightarrow> d_done (x_ab x) \<or> d_done (x_ba x))"

interpretation splicing: invariant splice_step "\<lambda>x. x = new_duplex" splice_inv
proof unfold_locales
  show "splice_step x x' \<Longrightarrow> splice_inv x \<Longrightarrow> splice_inv x'" for x x'
    by (induction rule: splice_step.induct) (auto simp: splice_inv_def copied_step)
qed (simp add: splice_inv_def copied_def new_duplex_def new_direction_def)

subsection \<open>Lemmas on the relay\<close>

lemma IP_String_canon_target: "wf_target ip \<Longrightarrow> IP_String (canon_target ip) = IP_String ip"
  using length_To4 [of ip] by (auto simp: canon_target_def IP_String_def wf_target_def)

lemma SplitHostPort_target:
  "wf_target ip \<Longrightarrow> SplitHostPort (JoinHostPort (IP_String ip) (itoa n)) = Some (IP_String ip, itoa n)"
  using IP_String_chars [of ip] by (intro SplitHostPort_JoinHostPort) (auto simp: wf_target_def addr_chars_def)

lemma wf_To16: "wf_target ip \<Longrightarrow> wf_target (To16 ip)"
  by (auto simp: wf_target_def To16_def)

lemma canon_To16: "wf_target ip \<Longrightarrow> canon_target (To16 ip) = canon_target ip"
  by (auto simp: wf_target_def canon_target_def To16_def length4_conv)

lemma Sscanf_port: "Sscanf_uint16 (itoa (unat port)) = Some port"
proof -
  have "unat port < 65536" using unsigned_less [of port] by simp
  from Sscanf_itoa [OF this] show ?thesis by simp
qed

text \<open>The header made for a target, and the address the receiver dials for it.\<close>

definition target_header :: "uint32 \<Rightarrow> IP \<Rightarrow> uint16 \<Rightarrow> TCPForwardHeader" where
  "target_header sid ip port =
     \<lparr>tf_Flags = TCPFlagNewStream, tf_StreamID = sid, tf_TargetAddr = To16 ip, tf_TargetPort = port\<rparr>"

lemma RelayToPeer_header:
  assumes "wf_target ip" and "tr_dialStream r" and "dialStream peer = Some sid"
  shows "RelayToPeer dialStream (\<lambda>_. True) peer (JoinHostPort (IP_String ip) (itoa (unat port))) r =
    (Return (), [OpenTo peer, WriteStream (EncodeTCPForwardHeader (target_header sid ip port)), Splice, CloseStream])"
  using assms ParseIP_String [of ip]
  by (simp add: RelayToPeer_def SplitHostPort_target Sscanf_port wf_target_def target_header_def)

lemma relay_data_header:
  assumes "wf_target ip" and "dial_ok (JoinHostPort (IP_String ip) (itoa (unat port)))" and "extra \<noteq> [] \<Longrightarrow> write_ok extra"
  shows "relay_data dial_ok write_ok (EncodeTCPForwardHeader (target_header sid ip port) @ extra) =
    (Return (), Dial (JoinHostPort (IP_String ip) (itoa (unat port))) #
      (if extra = [] then [] else [WriteTarget extra]) @ [Splice, CloseTarget])"
proof -
  have "DecodeTCPForwardHeader (EncodeTCPForwardHeader (target_header sid ip port) @ extra) =
      Return ((target_header sid ip port)\<lparr>tf_TargetAddr := canon_target ip\<rparr>,
        length (EncodeTCPForwardHeader (target_header sid ip port)))"
    using Decode_tcp_layout [of "target_header sid ip port" extra] assms(1)
    by (simp add: target_header_def wf_To16 canon_To16)
  moreover have "target_string ((target_header sid ip port)\<lparr>tf_TargetAddr := canon_target ip\<rparr>) =
      JoinHostPort (IP_String ip) (itoa (unat port))"
    using assms(1) by (simp add: target_string_def IP_String_canon_target target_header_def)
  ultimately show ?thesis using assms(2,3) by (simp add: relay_data_def)
qed

lemma relay_data_no_panic: "fst (relay_data dial wr data) \<noteq> Panic"
  using DecodeTCPForwardHeader_no_panic [of data]
  by (cases "DecodeTCPForwardHeader data") (auto simp: relay_data_def Let_def split: prod.split)

lemma Stream_Read_no_panic: "Stream_Read n st = Some (res, st') \<Longrightarrow> res \<noteq> Panic"
  by (auto simp: Stream_Read_def Let_def split: if_splits list.splits)

lemma HandleIncomingRelay_no_panic: "HandleIncomingRelay dial wr st = Some ((res, ev), st') \<Longrightarrow> res \<noteq> Panic"
proof -
  assume "HandleIncomingRelay dial wr st = Some ((res, ev), st')"
  then obtain r where r: "Stream_Read 32768 st = Some (r, st')" and
    res: "res = fst (case r of Panic \<Rightarrow> (Panic, []) | Error e \<Rightarrow> (Error HeaderReadFailed, []) | Return data \<Rightarrow> relay_data dial wr data)"
    by (auto simp: HandleIncomingRelay_def dest: arg_cong [of _ _ fst])
  show "res \<noteq> Panic"
    using Stream_Read_no_panic [OF r] relay_data_no_panic [of dial wr] unfolding res by (cases r) simp_all
qed

text \<open>
  The stream itself is never closed on this side: when the target has sent everything and closed
  its connection, the other end of the stream is not told.
\<close>

lemma relay_never_closes_stream:
  "HandleIncomingRelay dial wr st = Some ((res, ev), st') \<Longrightarrow> CloseStream \<notin> set ev"
proof -
  have data: "CloseStream \<notin> set (snd (relay_data dial wr data))" for data
    by (simp add: relay_data_def Let_def split: outcome.split prod.split)
  assume "HandleIncomingRelay dial wr st = Some ((res, ev), st')"
  then obtain r where "Stream_Read 32768 st = Some (r, st')" and
    "ev = snd (case r of Panic \<Rightarrow> (Panic, []) | Error e \<Rightarrow> (Error HeaderReadFailed, []) | Return data \<Rightarrow> relay_data dial wr data)"
    by (auto simp: HandleIncomingRelay_def dest: arg_cong [of _ _ snd])
  with data show ?thesis by (cases r) simp_all
qed

subsection \<open>Properties\<close>

text \<open>
  Both copy loops, the one of the SOCKS5 server and the standard library's that the relay
  uses, do the same to any destination that keeps the contract of a writer: they write the same
  bytes and stop at the same read, and only report the end of the input differently. On a
  destination that takes everything, what is written is exactly what was read.
\<close>

theorem copy_loops_agree:
  assumes "writer wr"
  shows "io_Copy wr rs s n = map_option (\<lambda>(k, e, s'). (k, if e = EndOfInput then None else Some e, s')) (ioCopy wr rs s n) \<and>
    (\<forall>k e out. ioCopy append_writer rs [] 0 = Some (k, e, out) \<longrightarrow> out = bytes_read rs \<and> k = length out)"
  using io_Copy_ioCopy [OF assms] ioCopy_append [of rs "[]" 0] by (auto split: option.splits)

definition example_reads :: reads where
  "example_reads = [([1, 2, 3], None), ([], None), ([4], Some EndOfInput), ([5], None)]"

theorem copy_loops_agree_witness:
  "io_Copy append_writer example_reads [] 0 = Some (4, None, [1, 2, 3, 4]) \<and>
   ioCopy append_writer example_reads [] 0 = Some (4, EndOfInput, [1, 2, 3, 4])"
proof -
  have "writer append_writer" by (simp add: writer_def append_writer_def)
  moreover have "ioCopy append_writer example_reads [] 0 = Some (4, EndOfInput, [1, 2, 3, 4])" by code_simp
  ultimately show ?thesis using copy_loops_agree [of append_writer example_reads "[]" 0] by simp
qed


text \<open>A client that ends its side after a request: the answer is on its way when the call returns.\<close>

definition half_closed :: duplex where
  "half_closed = \<lparr>x_ab = \<lparr>d_sent = [71], d_pending = [], d_ended = True, d_buf = [], d_out = [71], d_done = True\<rparr>,
     x_ba = new_direction\<lparr>d_sent := [72, 73], d_pending := [72, 73]\<rparr>, x_returned = True\<rparr>"

lemma half_closed_reachable: "splice_step\<^sup>*\<^sup>* new_duplex half_closed"
proof -
  let ?d0 = "new_direction\<lparr>d_sent := [71], d_pending := [71]\<rparr>"
  let ?x1 = "new_duplex\<lparr>x_ab := ?d0\<rparr>"
  let ?x2 = "?x1\<lparr>x_ab := ?d0\<lparr>d_pending := [], d_buf := [71]\<rparr>\<rparr>"
  let ?x3 = "?x1\<lparr>x_ab := ?d0\<lparr>d_pending := [], d_out := [71]\<rparr>\<rparr>"
  let ?x4 = "?x1\<lparr>x_ab := ?d0\<lparr>d_pending := [], d_out := [71], d_ended := True\<rparr>\<rparr>"
  let ?x5 = "?x4\<lparr>x_ba := new_direction\<lparr>d_sent := [72, 73], d_pending := [72, 73]\<rparr>\<rparr>"
  let ?x6 = "?x5\<lparr>x_ab := ?d0\<lparr>d_pending := [], d_out := [71], d_ended := True, d_done := True\<rparr>\<rparr>"
  note steps = splice_step.ab splice_step.ba
  note copy = copy_step.arrive copy_step.read copy_step.written copy_step.source_ends copy_step.read_ends
  have "splice_step new_duplex ?x1"
    using steps(1) [OF _ copy(1) [of "x_ab new_duplex" "[71]"]] by (simp add: new_duplex_def new_direction_def)
  moreover have "splice_step ?x1 ?x2"
    using steps(1) [OF _ copy(2) [of "x_ab ?x1" 1]] by (simp add: new_duplex_def new_direction_def)
  moreover have "splice_step ?x2 ?x3"
    using steps(1) [OF _ copy(3) [of "x_ab ?x2"]] by (simp add: new_duplex_def new_direction_def)
  moreover have "splice_step ?x3 ?x4"
    using steps(1) [OF _ copy(4) [of "x_ab ?x3"]] by (simp add: new_duplex_def new_direction_def)
  moreover have "splice_step ?x4 ?x5"
    using steps(2) [OF _ copy(1) [of "x_ba ?x4" "[72, 73]"]] by (simp add: new_duplex_def new_direction_def)
  moreover have "splice_step ?x5 ?x6"
    using steps(1) [OF _ copy(5) [of "x_ab ?x5"]] by (simp add: new_duplex_def new_direction_def)
  moreover have "splice_step ?x6 half_closed"
    using splice_step.returns [of ?x6] by (simp add: half_closed_def new_duplex_def new_direction_def)
  ultimately show ?thesis by (meson converse_rtranclp_into_rtranclp rtranclp.rtrancl_refl)
qed


lemma splice_drops_answer:
  "\<exists>x. splice_step\<^sup>*\<^sup>* new_duplex x \<and> x_returned x \<and> \<not> d_ended (x_ba x) \<and> d_pending (x_ba x) \<noteq> [] \<and> d_out (x_ba x) = []"
  using half_closed_reachable by (rule exI [of _ half_closed, OF conjI]) (simp add: half_closed_def new_direction_def)

end
