(* ===== verification/Socks5_Handshake.thy ===== *)
theory Socks5_Handshake
  imports Go_Addr
begin

text \<open>
  The SOCKS5 handshake, socks5/handshake.go: the choice of the authentication method, the request
  with its three address forms, and the replies. The input is all the bytes the client sends
  before it ends its side, so a read that asks for more than is left fails; how the bytes are cut
  into segments does not matter to \<open>io.ReadFull\<close>. What the server writes is the second component
  of a result; the last is the unread input, which is of no use after an error.

  Shown: the handshake of a client that offers no authentication and asks for an IPv4, IPv6 or
  domain target yields exactly that target and reads not one byte more; all other inputs end in
  an error, with the reply the protocol asks for.
\<close>

subsection \<open>Constants\<close>

definition socks5Version :: byte where "socks5Version = 0x05"
definition cmdConnect :: byte where "cmdConnect = 0x01"
definition cmdUDPAssociate :: byte where "cmdUDPAssociate = 0x03"
definition authNone :: byte where "authNone = 0x00"
definition authNoAccept :: byte where "authNoAccept = 0xFF"
definition repSuccess :: byte where "repSuccess = 0x00"
definition repGeneralFailure :: byte where "repGeneralFailure = 0x01"
definition repNetUnreachable :: byte where "repNetUnreachable = 0x03"
definition repHostUnreachable :: byte where "repHostUnreachable = 0x04"
definition repCmdNotSupported :: byte where "repCmdNotSupported = 0x07"
definition repAddrNotSupport :: byte where "repAddrNotSupport = 0x08"
definition addrTypeIPv4 :: byte where "addrTypeIPv4 = 0x01"
definition addrTypeDomain :: byte where "addrTypeDomain = 0x03"
definition addrTypeIPv6 :: byte where "addrTypeIPv6 = 0x04"

lemmas socks_constants = socks5Version_def cmdConnect_def cmdUDPAssociate_def authNone_def authNoAccept_def
  repSuccess_def repGeneralFailure_def repNetUnreachable_def repHostUnreachable_def repCmdNotSupported_def
  repAddrNotSupport_def addrTypeIPv4_def addrTypeDomain_def addrTypeIPv6_def

record SocksRequest =
  sr_Cmd :: byte
  sr_TargetAddr :: string

datatype socks_error = ReadVersion | BadVersion byte | ReadMethods | NoAcceptableMethods | WriteAuth
  | ReadRequest | BadRequestVersion byte | BadCommand byte | ReadAddress | BadAddressType byte | ReadPort

subsection \<open>Replies\<close>

definition sendReply :: "byte \<Rightarrow> IP option \<Rightarrow> uint16 \<Rightarrow> bytes" where
  "sendReply rep bindAddr bindPort =
     [socks5Version, rep, 0, addrTypeIPv4] @
     (case bindAddr of None \<Rightarrow> replicate 4 0 | Some ip \<Rightarrow> copy_array 4 (To4 ip)) @ PutUint16 bindPort"

definition SendSuccessReply :: bytes where
  "SendSuccessReply = sendReply repSuccess (ParseIP ''0.0.0.0'') 0"

definition SendErrorReply :: "byte \<Rightarrow> bytes" where
  "SendErrorReply rep = sendReply rep (ParseIP ''0.0.0.0'') 0"

subsection \<open>The handshake\<close>

definition ReadFull :: "nat \<Rightarrow> bytes \<Rightarrow> (bytes \<times> bytes) option" where
  "ReadFull n inp = (if n \<le> length inp then Some (take n inp, drop n inp) else None)"

definition read_target :: "byte \<Rightarrow> bytes \<Rightarrow> (socks_error + string \<times> bytes) \<times> bytes" where
  "read_target atyp inp =
     (if atyp = addrTypeIPv4 then
        (case ReadFull 4 inp of None \<Rightarrow> Inl ReadAddress | Some (addr, rest) \<Rightarrow> Inr (IP_String addr, rest), [])
      else if atyp = addrTypeIPv6 then
        (case ReadFull 16 inp of None \<Rightarrow> Inl ReadAddress | Some (addr, rest) \<Rightarrow> Inr (IP_String addr, rest), [])
      else if atyp = addrTypeDomain then
        (case ReadFull 1 inp of
           None \<Rightarrow> Inl ReadAddress
         | Some (len, rest) \<Rightarrow>
             (case ReadFull (unat (hd len)) rest of
                None \<Rightarrow> Inl ReadAddress
              | Some (domain, rest') \<Rightarrow> Inr (string_of_bytes domain, rest')), [])
      else (Inl (BadAddressType atyp), sendReply repAddrNotSupport None 0))"

definition read_request :: "bytes \<Rightarrow> (socks_error + SocksRequest) \<times> bytes \<times> bytes" where
  "read_request inp =
     (case ReadFull 4 inp of
        None \<Rightarrow> (Inl ReadRequest, [], [])
      | Some (buf, rest) \<Rightarrow>
          if buf ! 0 \<noteq> socks5Version then (Inl (BadRequestVersion (buf ! 0)), [], rest)
          else if buf ! 1 \<noteq> cmdConnect \<and> buf ! 1 \<noteq> cmdUDPAssociate then
            (Inl (BadCommand (buf ! 1)), sendReply repCmdNotSupported None 0, rest)
          else (case read_target (buf ! 3) rest of
              (Inl e, out) \<Rightarrow> (Inl e, out, [])
            | (Inr (host, rest'), out) \<Rightarrow>
                (case ReadFull 2 rest' of
                   None \<Rightarrow> (Inl ReadPort, out, [])
                 | Some (port, rest'') \<Rightarrow>
                     (Inr \<lparr>sr_Cmd = buf ! 1,
                           sr_TargetAddr = JoinHostPort host (itoa (unat (uint16_val port 0)))\<rparr>, out, rest''))))"

text \<open>\<open>write_ok\<close> tells whether the method selection can be written.\<close>

definition handleHandshake :: "bool \<Rightarrow> bytes \<Rightarrow> (socks_error + SocksRequest) \<times> bytes \<times> bytes" where
  "handleHandshake write_ok inp =
     (case ReadFull 2 inp of
        None \<Rightarrow> (Inl ReadVersion, [], [])
      | Some (buf, rest) \<Rightarrow>
          if buf ! 0 \<noteq> socks5Version then (Inl (BadVersion (buf ! 0)), [], rest)
          else (case ReadFull (unat (buf ! 1)) rest of
              None \<Rightarrow> (Inl ReadMethods, [], [])
            | Some (methods, rest') \<Rightarrow>
                if authNone \<notin> set methods then (Inl NoAcceptableMethods, [socks5Version, authNoAccept], rest')
                else if \<not> write_ok then (Inl WriteAuth, [], rest')
                else (let (res, out, rest'') = read_request rest'
                      in (res, [socks5Version, authNone] @ out, rest''))))"

subsection \<open>What a client sends\<close>

datatype socks_target = IPv4Target IP | IPv6Target IP | DomainTarget bytes

fun wf_socks_target :: "socks_target \<Rightarrow> bool" where
  "wf_socks_target (IPv4Target ip) \<longleftrightarrow> length ip = 4"
| "wf_socks_target (IPv6Target ip) \<longleftrightarrow> length ip = 16"
| "wf_socks_target (DomainTarget d) \<longleftrightarrow> length d < 256"

fun target_bytes :: "socks_target \<Rightarrow> bytes" where
  "target_bytes (IPv4Target ip) = ip"
| "target_bytes (IPv6Target ip) = ip"
| "target_bytes (DomainTarget d) = of_nat (length d) # d"

fun target_type :: "socks_target \<Rightarrow> byte" where
  "target_type (IPv4Target ip) = addrTypeIPv4"
| "target_type (IPv6Target ip) = addrTypeIPv6"
| "target_type (DomainTarget d) = addrTypeDomain"

fun target_host :: "socks_target \<Rightarrow> string" where
  "target_host (IPv4Target ip) = IP_String ip"
| "target_host (IPv6Target ip) = IP_String ip"
| "target_host (DomainTarget d) = string_of_bytes d"

definition client_hello :: "bytes \<Rightarrow> bytes" where
  "client_hello methods = socks5Version # of_nat (length methods) # methods"

definition client_request :: "byte \<Rightarrow> byte \<Rightarrow> socks_target \<Rightarrow> uint16 \<Rightarrow> bytes" where
  "client_request cmd rsv t port = [socks5Version, cmd, rsv, target_type t] @ target_bytes t @ PutUint16 port"

subsection \<open>Lemmas\<close>

lemma ReadFull_append: "length xs = n \<Longrightarrow> ReadFull n (xs @ rest) = Some (xs, rest)"
  by (simp add: ReadFull_def)

lemma ReadFull_Some: "ReadFull n inp = Some (xs, rest) \<longleftrightarrow> inp = xs @ rest \<and> length xs = n"
  by (auto simp: ReadFull_def)

lemma unat_length: "length xs < 256 \<Longrightarrow> unat (of_nat (length xs) :: byte) = length xs"
  by (simp add: unat_of_nat take_bit_nat_eq_self)

lemma read_target_ok:
  "read_target atyp inp = (Inr (host, rest), out) \<longleftrightarrow>
     (\<exists>t. wf_socks_target t \<and> atyp = target_type t \<and> inp = target_bytes t @ rest \<and> host = target_host t \<and> out = [])"
  (is "?l \<longleftrightarrow> ?r")
proof
  assume ?r
  then obtain t where t: "wf_socks_target t" "atyp = target_type t" "inp = target_bytes t @ rest" "host = target_host t" "out = []"
    by blast
  then show ?l
    by (cases t) (auto simp: read_target_def socks_constants ReadFull_append unat_length ReadFull_def)
next
  assume l: ?l
  then consider "atyp = addrTypeIPv4" | "atyp = addrTypeIPv6" | "atyp = addrTypeDomain"
    by (auto simp: read_target_def split: if_splits)
  then show ?r
  proof cases
    case 1
    with l obtain addr where "ReadFull 4 inp = Some (addr, rest)" "host = IP_String addr" "out = []"
      by (auto simp: read_target_def split: option.splits)
    with 1 show ?thesis by (intro exI [of _ "IPv4Target addr"]) (simp add: ReadFull_Some)
  next
    case 2
    with l obtain addr where "ReadFull 16 inp = Some (addr, rest)" "host = IP_String addr" "out = []"
      by (auto simp: read_target_def socks_constants split: option.splits)
    with 2 show ?thesis by (intro exI [of _ "IPv6Target addr"]) (simp add: ReadFull_Some)
  next
    case 3
    with l obtain len r domain where "ReadFull 1 inp = Some (len, r)" "ReadFull (unat (hd len)) r = Some (domain, rest)"
      "host = string_of_bytes domain" "out = []"
      by (auto simp: read_target_def socks_constants split: option.splits)
    moreover have "unat b < 256" for b :: byte using unsigned_less [of b] by simp
    ultimately show ?thesis using 3
      by (intro exI [of _ "DomainTarget domain"]) (auto simp: ReadFull_Some length_Suc_conv)
  qed
qed

lemma uint16_val_Put: "uint16_val (PutUint16 p) 0 = p"
proof -
  have "(Uint16 (PutUint16 p) :: (unit, uint16) outcome) = Return p"
    using Uint16_PutUint16 [of p "[]"] by simp
  then show ?thesis by (simp add: uint16_val_def)
qed

lemma PutUint16_of_bytes:
  fixes b0 b1 :: byte
  shows "PutUint16 (ucast b1 OR push_bit 8 (ucast b0)) = [b0, b1]"
  unfolding PutUint16_def list.inject
  by (intro conjI refl bit_word_eqI) (auto simp: bit_simps bit_byte_high)

lemma length2_conv: "length xs = 2 \<longleftrightarrow> (\<exists>a b. xs = [a, b])"
  by (auto simp: numeral_2_eq_2 length_Suc_conv)

lemma PutUint16_val: "length xs = 2 \<Longrightarrow> PutUint16 (uint16_val xs 0) = xs"
  by (auto simp: length2_conv uint16_val_def PutUint16_of_bytes)

lemma read_request_ok:
  "read_request inp = (Inr req, out, rest) \<longleftrightarrow>
     (\<exists>cmd rsv t port. (cmd = cmdConnect \<or> cmd = cmdUDPAssociate) \<and> wf_socks_target t \<and>
        inp = client_request cmd rsv t port @ rest \<and> out = [] \<and>
        req = \<lparr>sr_Cmd = cmd, sr_TargetAddr = JoinHostPort (target_host t) (itoa (unat port))\<rparr>)" (is "?l \<longleftrightarrow> ?r")
proof
  assume ?r
  then obtain cmd rsv t port where r: "cmd = cmdConnect \<or> cmd = cmdUDPAssociate" "wf_socks_target t"
    "inp = client_request cmd rsv t port @ rest" "out = []"
    "req = \<lparr>sr_Cmd = cmd, sr_TargetAddr = JoinHostPort (target_host t) (itoa (unat port))\<rparr>" by blast
  have "read_target (target_type t) (target_bytes t @ PutUint16 port @ rest) = (Inr (target_host t, PutUint16 port @ rest), [])"
    using read_target_ok r(2) by blast
  with r show ?l
    by (auto simp: read_request_def client_request_def ReadFull_def [of 4] ReadFull_append PutUint16_def [of port, symmetric] uint16_val_Put)
next
  assume l: ?l
  then obtain buf r1 host r2 p where b: "ReadFull 4 inp = Some (buf, r1)" "buf ! 0 = socks5Version"
    "buf ! 1 = cmdConnect \<or> buf ! 1 = cmdUDPAssociate" "read_target (buf ! 3) r1 = (Inr (host, r2), out)"
    "ReadFull 2 r2 = Some (p, rest)"
    "req = \<lparr>sr_Cmd = buf ! 1, sr_TargetAddr = JoinHostPort host (itoa (unat (uint16_val p 0)))\<rparr>"
    by (auto simp: read_request_def split: option.splits if_splits prod.splits sum.splits)
  from b(4) obtain t where t: "wf_socks_target t" "buf ! 3 = target_type t" "r1 = target_bytes t @ r2" "host = target_host t" "out = []"
    using read_target_ok by blast
  have "buf = [socks5Version, buf ! 1, buf ! 2, target_type t]"
    using b(1,2) t(2) by (auto simp: ReadFull_Some length4_conv)
  moreover have "p = PutUint16 (uint16_val p 0)" using b(5) PutUint16_val [of p] by (simp add: ReadFull_Some)
  ultimately have "inp = client_request (buf ! 1) (buf ! 2) t (uint16_val p 0) @ rest"
    using b(1,5) t(3) unfolding client_request_def ReadFull_Some by (metis append.assoc)
  with b t show ?r by blast
qed

lemma handleHandshake_ok:
  "handleHandshake write_ok inp = (Inr req, out, rest) \<longleftrightarrow>
     write_ok \<and> out = [socks5Version, authNone] \<and>
     (\<exists>methods cmd rsv t port. length methods < 256 \<and> authNone \<in> set methods \<and>
        (cmd = cmdConnect \<or> cmd = cmdUDPAssociate) \<and> wf_socks_target t \<and>
        inp = client_hello methods @ client_request cmd rsv t port @ rest \<and>
        req = \<lparr>sr_Cmd = cmd, sr_TargetAddr = JoinHostPort (target_host t) (itoa (unat port))\<rparr>)" (is "?l \<longleftrightarrow> ?r")
proof
  assume ?r
  then obtain methods cmd rsv t port where r: "write_ok" "out = [socks5Version, authNone]" "length methods < 256"
    "authNone \<in> set methods" "inp = client_hello methods @ client_request cmd rsv t port @ rest"
    "read_request (client_request cmd rsv t port @ rest) = (Inr req, [], rest)"
    using read_request_ok by blast
  then show ?l by (simp add: handleHandshake_def client_hello_def ReadFull_def unat_length)
next
  assume l: ?l
  then obtain buf r1 methods r2 out' where h: "ReadFull 2 inp = Some (buf, r1)" "buf ! 0 = socks5Version"
    "ReadFull (unat (buf ! 1)) r1 = Some (methods, r2)" "authNone \<in> set methods" "write_ok"
    "read_request r2 = (Inr req, out', rest)" "out = [socks5Version, authNone] @ out'"
    by (auto simp: handleHandshake_def split: option.splits if_splits prod.splits)
  have "unat (buf ! 1) < 256" using unsigned_less [of "buf ! 1", where ?'a = nat] by simp
  then have "length methods < 256" "buf = [socks5Version, of_nat (length methods)]"
    using h(1-3) by (auto simp: ReadFull_Some length2_conv)
  then have hello: "inp = client_hello methods @ r2" using h(1,3) by (auto simp: ReadFull_Some client_hello_def)
  from read_request_ok [THEN iffD1, OF h(6)] obtain cmd rsv t port
    where r: "cmd = cmdConnect \<or> cmd = cmdUDPAssociate" "wf_socks_target t"
    "r2 = client_request cmd rsv t port @ rest" "out' = []"
    "req = \<lparr>sr_Cmd = cmd, sr_TargetAddr = JoinHostPort (target_host t) (itoa (unat port))\<rparr>"
    by (elim exE conjE) (rule that)
  have "out = [socks5Version, authNone]" using h(7) r(4) by simp
  moreover have "inp = client_hello methods @ client_request cmd rsv t port @ rest" using hello r(3) by simp
  ultimately show ?r using h(4,5) \<open>length methods < 256\<close> r(1,2,5) by blast
qed

lemma read_target_error:
  assumes "read_target atyp i = (Inl e, out)"
  shows "out = (case e of BadAddressType c \<Rightarrow> sendReply repAddrNotSupport None 0 | _ \<Rightarrow> []) \<and> (e = ReadAddress \<or> e = BadAddressType atyp)"
  using assms by (auto simp: read_target_def split: if_splits option.splits)

lemma read_request_error:
  assumes "read_request i = (Inl e, out, r)"
  shows "out = (case e of BadCommand c \<Rightarrow> sendReply repCmdNotSupported None 0
      | BadAddressType c \<Rightarrow> sendReply repAddrNotSupport None 0 | _ \<Rightarrow> []) \<and>
    e \<notin> {NoAcceptableMethods, ReadVersion, ReadMethods, WriteAuth} \<and> (\<forall>v. e \<noteq> BadVersion v)"
proof (cases "ReadFull 4 i")
  case (Some br)
  then obtain buf r1 where br: "br = (buf, r1)" by fastforce
  obtain res o' where t: "read_target (buf ! 3) r1 = (res, o')" by fastforce
  show ?thesis
  proof (cases res)
    case (Inl x)
    with assms Some br t read_target_error [of "buf ! 3" r1 x o'] show ?thesis by (auto simp: read_request_def split: if_splits)
  next
    case (Inr hr)
    then have "o' = []" using t read_target_ok [of "buf ! 3" r1 "fst hr" "snd hr" o'] by auto
    with assms Some br t Inr show ?thesis by (auto simp: read_request_def split: if_splits option.splits prod.splits)
  qed
qed (use assms in \<open>auto simp: read_request_def\<close>)

subsection \<open>Properties\<close>

text \<open>
  C36: The handshake accepts exactly the inputs the protocol allows: a greeting that offers the
  method without authentication, then a CONNECT or UDP ASSOCIATE request for an IPv4, IPv6 or
  domain target. It then has answered the greeting and nothing else, the request names the
  target and the port that were sent, and the bytes behind the request are left unread.
\<close>

theorem handshake_accepts_iff:
  "handleHandshake write_ok inp = (Inr req, out, rest) \<longleftrightarrow>
     write_ok \<and> out = [socks5Version, authNone] \<and>
     (\<exists>methods cmd rsv t port. length methods < 256 \<and> authNone \<in> set methods \<and>
        (cmd = cmdConnect \<or> cmd = cmdUDPAssociate) \<and> wf_socks_target t \<and>
        inp = client_hello methods @ client_request cmd rsv t port @ rest \<and>
        req = \<lparr>sr_Cmd = cmd, sr_TargetAddr = JoinHostPort (target_host t) (itoa (unat port))\<rparr>)"
  by (rule handleHandshake_ok)

text \<open>
  C37: A handshake that fails leaves on the connection exactly the reply that belongs to the
  failure: the refusal of all methods, the reply for an unsupported command or address type, or
  only the answer to the greeting when the client breaks off later; and a client that sends
  another version or breaks off within the greeting gets no byte.
\<close>

theorem handshake_error_replies:
  assumes "handleHandshake True inp = (Inl e, out, rest)"
  shows "out = (case e of
      NoAcceptableMethods \<Rightarrow> [socks5Version, authNoAccept]
    | BadCommand c \<Rightarrow> [socks5Version, authNone] @ sendReply repCmdNotSupported None 0
    | BadAddressType c \<Rightarrow> [socks5Version, authNone] @ sendReply repAddrNotSupport None 0
    | ReadVersion \<Rightarrow> [] | BadVersion v \<Rightarrow> [] | ReadMethods \<Rightarrow> []
    | _ \<Rightarrow> [socks5Version, authNone]) \<and> e \<noteq> WriteAuth"
proof -
  show ?thesis
  proof (cases "ReadFull 2 inp")
    case (Some br)
    then obtain buf r1 where br: "br = (buf, r1)" by fastforce
    show ?thesis
    proof (cases "ReadFull (unat (buf ! 1)) r1")
      case (Some mr)
      then obtain methods r2 where mr: "mr = (methods, r2)" by fastforce
      obtain res o' r3 where q: "read_request r2 = (res, o', r3)" by (cases "read_request r2") auto
      consider "buf ! 0 \<noteq> socks5Version" | "buf ! 0 = socks5Version" "authNone \<notin> set methods"
        | "buf ! 0 = socks5Version" "authNone \<in> set methods" by blast
      then show ?thesis
      proof cases
        case 3
        then have "res = Inl e" "out = [socks5Version, authNone] @ o'"
          using assms \<open>ReadFull 2 inp = Some br\<close> br Some mr q by (auto simp: handleHandshake_def)
        with read_request_error [of r2 e o' r3] q show ?thesis by (cases e) simp_all
      qed (use assms \<open>ReadFull 2 inp = Some br\<close> br Some mr in \<open>auto simp: handleHandshake_def\<close>)
    qed (use assms Some br in \<open>auto simp: handleHandshake_def split: if_splits\<close>)
  qed (use assms in \<open>auto simp: handleHandshake_def\<close>)
qed

theorem handshake_error_replies_witness:
  "handleHandshake True [5, 1, 0, 5, 2, 0, 1] = (Inl (BadCommand 2), [5, 0, 5, 7, 0, 1, 0, 0, 0, 0, 0, 0], [])"
proof -
  have run: "handleHandshake True [5, 1, 0, 5, 2, 0, 1] = (Inl (BadCommand 2), fst (snd (handleHandshake True [5, 1, 0, 5, 2, 0, 1])), [])"
    by code_simp
  from handshake_error_replies [OF this]
  have "fst (snd (handleHandshake True [5, 1, 0, 5, 2, 0, 1])) = [socks5Version, authNone] @ sendReply repCmdNotSupported None 0"
    by simp
  moreover have "[socks5Version, authNone] @ sendReply repCmdNotSupported None 0 = [5, 0, 5, 7, 0, 1, 0, 0, 0, 0, 0, 0]"
    by code_simp
  ultimately show ?thesis using run by simp
qed

end
