(* ===== verification/Socks5_Server.thy ===== *)
theory Socks5_Server
  imports Socks5_Handshake Forward_TCP Route_Table Forward_Session
begin

text \<open>
  The SOCKS5 server, socks5/server.go, and its UDP association, socks5/udp.go. What a connection
  makes the server do is a list of events; name resolution, the results of the dial callbacks and
  the iteration order of the routing table are the environment. The relaying that follows a
  successful dial is the step relation of \<open>Forward_TCP\<close>.

  Shown: for a well-formed request the server looks up the address asked for and dials the target
  itself, asks the next hop, or reports the network unreachable; a datagram is taken apart into
  target and payload without ever panicking; the flows of one association keep their session
  identifiers and no two flows share one; the search for a fresh identifier ends once the clock
  shows enough values.
\<close>

subsection \<open>State\<close>

record Server =
  sv_addr :: string
  sv_selfID :: NodeID
  sv_dialTCPFunc :: bool
  sv_dialPeerFunc :: bool
  sv_udpForwardFunc :: bool
  sv_udpDirectFunc :: bool
  sv_ln :: bool
  sv_cancelled :: bool

definition NewServer :: "string \<Rightarrow> NodeID \<Rightarrow> Server" where
  "NewServer addr selfID = \<lparr>sv_addr = addr, sv_selfID = selfID, sv_dialTCPFunc = False, sv_dialPeerFunc = False,
     sv_udpForwardFunc = False, sv_udpDirectFunc = False, sv_ln = False, sv_cancelled = False\<rparr>"

definition SetDialTCP :: "Server \<Rightarrow> Server" where
  "SetDialTCP s = s\<lparr>sv_dialTCPFunc := True\<rparr>"

definition SetDialPeer :: "Server \<Rightarrow> Server" where
  "SetDialPeer s = s\<lparr>sv_dialPeerFunc := True\<rparr>"

definition SetUDPForward :: "Server \<Rightarrow> Server" where
  "SetUDPForward s = s\<lparr>sv_udpForwardFunc := True\<rparr>"

definition SetUDPDirect :: "Server \<Rightarrow> Server" where
  "SetUDPDirect s = s\<lparr>sv_udpDirectFunc := True\<rparr>"

text \<open>Whether the address can be bound is an argument.\<close>

definition Server_Start :: "bool \<Rightarrow> Server \<Rightarrow> (unit, Server) outcome" where
  "Server_Start listen_ok s = (if listen_ok then Return (s\<lparr>sv_ln := True\<rparr>) else Error ())"

definition Server_Stop :: "Server \<Rightarrow> Server" where
  "Server_Stop s = s\<lparr>sv_cancelled := True\<rparr>"

text \<open>The accept loop: a failing accept ends it only after the server was stopped.\<close>

datatype accept_result = AcceptLoopEnds | AcceptContinues | AcceptHandles

definition socks_accept :: "bool \<Rightarrow> Server \<Rightarrow> accept_result" where
  "socks_accept accepted s =
     (if accepted then AcceptHandles else if sv_cancelled s then AcceptLoopEnds else AcceptContinues)"

subsection \<open>Connections\<close>

datatype socks_event = WriteClient bytes | DialTCP string | DialPeer NodeID string | RelayConn | CloseConn
  | CloseClient | UDPAssociate

record socks_env =
  se_order :: "string list"
  se_routes :: RoutingTable
  se_LookupIP :: "string \<Rightarrow> IP list option"
  se_dialTCP :: "string \<Rightarrow> bool"
  se_dialPeer :: "NodeID \<Rightarrow> string \<Rightarrow> bool"

text \<open>The address of a host: read as it stands, or else the first one name resolution gives.\<close>

definition resolve :: "socks_env \<Rightarrow> string \<Rightarrow> IP option" where
  "resolve env host =
     (case ParseIP host of
        Some ip \<Rightarrow> Some ip
      | None \<Rightarrow> (case se_LookupIP env host of None \<Rightarrow> None | Some [] \<Rightarrow> None | Some (ip # _) \<Rightarrow> Some ip))"

definition connect_target :: "socks_env \<Rightarrow> string \<Rightarrow> Server \<Rightarrow> socks_event list" where
  "connect_target env targetAddr s =
     (case SplitHostPort targetAddr of
        None \<Rightarrow> []
      | Some (host, port) \<Rightarrow>
          (case resolve env host of
             None \<Rightarrow> []
           | Some ip \<Rightarrow>
               (let target = (if ParseIP host = None then JoinHostPort (IP_String ip) port else targetAddr)
                in case Lookup (se_order env) (se_routes env) ip of
                     None \<Rightarrow> [WriteClient (SendErrorReply repNetUnreachable)]
                   | Some route \<Rightarrow>
                       if NodeID_IsZero (r_NextHop route) then
                         (if \<not> sv_dialTCPFunc s then []
                          else if se_dialTCP env target then
                            [DialTCP target, WriteClient SendSuccessReply, RelayConn, CloseConn]
                          else [DialTCP target, WriteClient (SendErrorReply repHostUnreachable)])
                       else
                         (if \<not> sv_dialPeerFunc s then []
                          else if se_dialPeer env (r_NextHop route) target then
                            [DialPeer (r_NextHop route) target, WriteClient SendSuccessReply, RelayConn, CloseConn]
                          else [DialPeer (r_NextHop route) target, WriteClient (SendErrorReply repHostUnreachable)]))))"

definition handleConnection :: "socks_env \<Rightarrow> bool \<Rightarrow> bytes \<Rightarrow> Server \<Rightarrow> socks_event list" where
  "handleConnection env write_ok inp s =
     (let (res, out, rest) = handleHandshake write_ok inp
      in WriteClient out #
         (case res of
            Inl e \<Rightarrow> []
          | Inr req \<Rightarrow>
              if sr_Cmd req = cmdUDPAssociate then [UDPAssociate] else connect_target env (sr_TargetAddr req) s)
         @ [CloseClient])"

subsection \<open>UDP association\<close>

record udpClientSession =
  uc_sessionID :: uint32
  uc_clientAddr :: UDPAddr
  uc_targetAddr :: UDPAddr

record udpAssociate =
  ua_clientAddr :: "UDPAddr option"
  ua_sessions :: "uint32 \<rightharpoonup> udpClientSession"

definition new_associate :: udpAssociate where
  "new_associate = \<lparr>ua_clientAddr = None, ua_sessions = Map.empty\<rparr>"

datatype udp_event = ReplyTCP bytes | UDPDirect UDPAddr bytes | UDPForward NodeID uint32 UDPAddr bytes

definition UDPAddr_String :: "UDPAddr \<Rightarrow> string" where
  "UDPAddr_String a = JoinHostPort (if addr_IP a = [] then [] else IP_String (addr_IP a)) (itoa (nat (addr_Port a)))"

text \<open>
  The loop that draws identifiers from the clock until one is neither zero nor in use; it need not
  end. \<open>clk k\<close> is what the clock shows in round \<open>k\<close>, in nanoseconds.
\<close>

partial_function (option) fresh_id :: "(nat \<Rightarrow> go_time) \<Rightarrow> nat \<Rightarrow> (uint32 \<rightharpoonup> 'a) \<Rightarrow> uint32 option" where
  "fresh_id clk k m =
     (let sid = of_int (clk k) in if sid = 0 \<or> m sid \<noteq> None then fresh_id clk (k + 1) m else Some sid)"

declare fresh_id.simps [code]

definition same_flow :: "UDPAddr \<Rightarrow> UDPAddr \<Rightarrow> udpClientSession \<Rightarrow> bool" where
  "same_flow clientAddr targetAddr s \<longleftrightarrow>
     UDPAddr_String (uc_clientAddr s) = UDPAddr_String clientAddr \<and> UDPAddr_String (uc_targetAddr s) = UDPAddr_String targetAddr"

definition getSessionID ::
  "(nat \<Rightarrow> go_time) \<Rightarrow> uint32 list \<Rightarrow> UDPAddr \<Rightarrow> UDPAddr \<Rightarrow> udpAssociate \<Rightarrow> (uint32 \<times> udpAssociate) option" where
  "getSessionID clk order clientAddr targetAddr ua =
     (case find (\<lambda>s. same_flow clientAddr targetAddr s) (List.map_filter (ua_sessions ua) order) of
        Some s \<Rightarrow> Some (uc_sessionID s, ua)
      | None \<Rightarrow>
          map_option (\<lambda>sid. (sid, ua\<lparr>ua_sessions := (ua_sessions ua)(sid \<mapsto>
              \<lparr>uc_sessionID = sid, uc_clientAddr = clientAddr, uc_targetAddr = targetAddr\<rparr>)\<rparr>))
            (fresh_id clk 0 (ua_sessions ua)))"

text \<open>The header of a datagram: host, port and payload; an error when the datagram is dropped.\<close>

definition parse_datagram :: "bytes \<Rightarrow> (unit, string \<times> uint16 \<times> bytes) outcome" where
  "parse_datagram data =
     go_guard (length data < 10) ()
     (go_bind (index_at data 0) (\<lambda>r0. go_bind (index_at data 1) (\<lambda>r1.
      go_guard (r0 \<noteq> 0 \<or> r1 \<noteq> 0) ()
      (go_bind (index_at data 2) (\<lambda>frag.
       go_guard (frag \<noteq> 0) ()
       (go_bind (index_at data 3) (\<lambda>atyp.
        if atyp = addrTypeIPv4 then
          go_guard (length data < 10) ()
          (go_bind (slice_of data 4 8) (\<lambda>addr. go_bind (slice_of data 8 10) (\<lambda>p. go_bind (Uint16 p) (\<lambda>port.
           go_bind (slice_from data 10) (\<lambda>payload. Return (IP_String addr, port, payload))))))
        else if atyp = addrTypeDomain then
          go_guard (length data < 7) ()
          (go_bind (index_at data 4) (\<lambda>len.
           let domainLen = unat len in
           go_guard (length data < 5 + domainLen + 2) ()
           (go_bind (slice_of data 5 (5 + domainLen)) (\<lambda>domain. go_bind (Uint16_at data (5 + domainLen)) (\<lambda>port.
            go_bind (slice_from data (5 + domainLen + 2)) (\<lambda>payload. Return (string_of_bytes domain, port, payload)))))))
        else if atyp = addrTypeIPv6 then
          go_guard (length data < 22) ()
          (go_bind (slice_of data 4 20) (\<lambda>addr. go_bind (slice_of data 20 22) (\<lambda>p. go_bind (Uint16 p) (\<lambda>port.
           go_bind (slice_from data 22) (\<lambda>payload. Return (IP_String addr, port, payload))))))
        else Error ())))))))"

text \<open>A datagram from the current client; \<open>None\<close> when the search for an identifier does not end.\<close>

definition handleUDPDatagram ::
  "socks_env \<Rightarrow> (nat \<Rightarrow> go_time) \<Rightarrow> uint32 list \<Rightarrow> Server \<Rightarrow> UDPAddr \<Rightarrow> bytes \<Rightarrow> udpAssociate \<Rightarrow>
   (unit, udpAssociate \<times> udp_event list) outcome option" where
  "handleUDPDatagram env clk order s client data ua =
     (case parse_datagram data of
        Panic \<Rightarrow> Some Panic
      | Error e \<Rightarrow> Some (Return (ua, []))
      | Return (host, port, payload) \<Rightarrow>
          (case resolve env host of
             None \<Rightarrow> Some (Return (ua, []))
           | Some ip \<Rightarrow>
               (let target = \<lparr>addr_IP = ip, addr_Port = uint port\<rparr>
                in case Lookup (se_order env) (se_routes env) ip of
                     None \<Rightarrow> Some (Return (ua, []))
                   | Some route \<Rightarrow>
                       if NodeID_IsZero (r_NextHop route) then
                         Some (Return (ua, if sv_udpDirectFunc s then [UDPDirect target payload] else []))
                       else if sv_udpForwardFunc s then
                         map_option (\<lambda>(sid, ua'). Return (ua', [UDPForward (r_NextHop route) sid target payload]))
                           (getSessionID clk order client target ua)
                       else Some (Return (ua, [])))))"

text \<open>
  The association: the local socket and the reply that names it, then one datagram after the
  other, each of which makes its sender the current client.
\<close>

definition associate_reply :: "UDPAddr option \<Rightarrow> bytes" where
  "associate_reply bound =
     (case bound of
        None \<Rightarrow> SendErrorReply repGeneralFailure
      | Some a \<Rightarrow> sendReply repSuccess (Some (addr_IP a)) (of_int (addr_Port a)))"

definition receive_datagram ::
  "socks_env \<Rightarrow> (nat \<Rightarrow> go_time) \<Rightarrow> uint32 list \<Rightarrow> Server \<Rightarrow> UDPAddr \<Rightarrow> bytes \<Rightarrow> udpAssociate \<Rightarrow>
   (unit, udpAssociate \<times> udp_event list) outcome option" where
  "receive_datagram env clk order s client data ua =
     handleUDPDatagram env clk order s client data (ua\<lparr>ua_clientAddr := Some client\<rparr>)"

text \<open>Delivery of an answer to a local client does nothing.\<close>

definition DeliverUDP :: "uint32 \<Rightarrow> bytes \<Rightarrow> udp_event list" where
  "DeliverUDP sessionID payload = []"

subsection \<open>Lemmas on connections\<close>

lemma resolve_literal: "wf_target ip \<Longrightarrow> resolve env (IP_String ip) = Some (To16 ip)"
  by (simp add: resolve_def ParseIP_String wf_target_def)

lemma itoa_plain [simp]: "CHR '':'' \<notin> set (itoa n)" "CHR ''['' \<notin> set (itoa n)" "CHR '']'' \<notin> set (itoa n)"
  by simp_all

lemma handleConnection_connect:
  assumes "length methods < 256" and "authNone \<in> set methods" and "wf_socks_target t"
  shows "handleConnection env True (client_hello methods @ client_request cmdConnect rsv t port @ rest) s =
    WriteClient [socks5Version, authNone] # connect_target env (JoinHostPort (target_host t) (itoa (unat port))) s @ [CloseClient]"
proof -
  have "handleHandshake True (client_hello methods @ client_request cmdConnect rsv t port @ rest) =
      (Inr \<lparr>sr_Cmd = cmdConnect, sr_TargetAddr = JoinHostPort (target_host t) (itoa (unat port))\<rparr>, [socks5Version, authNone], rest)"
    unfolding handleHandshake_ok
    by (intro conjI TrueI refl exI [of _ methods] exI [of _ cmdConnect] exI [of _ rsv] exI [of _ t] exI [of _ port])
       (use assms in simp_all)
  then show ?thesis by (simp add: handleConnection_def socks_constants)
qed

subsection \<open>Lemmas on datagrams\<close>

definition udp_packet :: "socks_target \<Rightarrow> uint16 \<Rightarrow> bytes \<Rightarrow> bytes" where
  "udp_packet t port payload = [0, 0, 0, target_type t] @ target_bytes t @ PutUint16 port @ payload"

lemma parse_udp_packet:
  assumes "wf_socks_target t" and "10 \<le> length (udp_packet t port payload)"
  shows "parse_datagram (udp_packet t port payload) = Return (target_host t, port, payload)"
proof (cases t)
  case (IPv4Target ip)
  with assms show ?thesis
    by (simp add: parse_datagram_def udp_packet_def go_guard_def go_read go_outcome socks_constants slice_of_def slice_from_def index_at_def)
next
  case (IPv6Target ip)
  with assms show ?thesis
    by (simp add: parse_datagram_def udp_packet_def go_guard_def go_read go_outcome socks_constants slice_of_def slice_from_def index_at_def)
next
  case (DomainTarget d)
  with assms show ?thesis
    by (simp add: parse_datagram_def udp_packet_def go_guard_def go_read go_outcome socks_constants slice_of_def slice_from_def index_at_def unat_length Let_def
        drop_Cons')
qed

lemma take_take_drop: "xs = take a xs @ take b (drop a xs) @ drop (a + b) xs"
  by (metis append_take_drop_id drop_drop add.commute)

lemma uint16_val_take: "off + 2 \<le> length xs \<Longrightarrow> uint16_val xs off = uint16_val (take 2 (drop off xs)) 0"
  by (cases "drop off xs" rule: Uint16.cases) (auto simp: uint16_val_def)

lemma parse_datagram_Return:
  assumes "parse_datagram data = Return (host, port, payload)"
  shows "\<exists>t. wf_socks_target t \<and> data = udp_packet t port payload \<and> host = target_host t \<and> 10 \<le> length data"
proof -
  have len: "10 \<le> length data" using assms by (auto simp: parse_datagram_def go_guard_def split: if_splits)
  then obtain d0 d1 d2 d3 rest where data: "data = d0 # d1 # d2 # d3 # rest"
    by (cases data rule: remdups_adj.cases; cases "drop 2 data" rule: remdups_adj.cases) (auto simp: neq_Nil_conv)
  have zeros: "d0 = 0" "d1 = 0" "d2 = 0"
    using assms len by (auto simp: data parse_datagram_def go_guard_def index_at_def go_outcome split: if_splits)
  consider (v4) "d3 = addrTypeIPv4" | (dom) "d3 = addrTypeDomain" | (v6) "d3 = addrTypeIPv6"
    using assms len by (auto simp: data parse_datagram_def go_guard_def index_at_def go_outcome split: if_splits)
  then show ?thesis
  proof cases
    case v4
    with assms len zeros have "host = IP_String (take 4 rest)" "payload = drop 6 rest" "port = uint16_val (take 2 (drop 4 rest)) 0"
      by (auto simp: data parse_datagram_def go_guard_def index_at_def go_outcome slice_of_def slice_from_def socks_constants
          uint16_val_def split: if_splits)
    moreover have "rest = take 4 rest @ take 2 (drop 4 rest) @ drop 6 rest"
      using take_take_drop [of rest 4 2] by simp
    ultimately show ?thesis using len v4 zeros
      by (intro exI [of _ "IPv4Target (take 4 rest)"]) (simp add: data udp_packet_def PutUint16_val)
  next
    case dom
    obtain l r where rest: "rest = l # r" using len by (cases rest) (auto simp: data)
    let ?n = "unat l"
    have n: "?n + 2 \<le> length r" "host = string_of_bytes (take ?n r)" "payload = drop (?n + 2) r"
      "port = uint16_val data (5 + ?n)"
      using assms len zeros dom
      by (auto simp: data rest parse_datagram_def go_guard_def index_at_def go_outcome slice_of_def slice_from_def socks_constants
          Uint16_at_Return Let_def drop_Cons' split: if_splits)
    have "port = uint16_val (take 2 (drop ?n r)) 0"
      using n(1) unfolding n(4) by (subst uint16_val_take) (auto simp: data rest drop_Cons')
    moreover have "r = take ?n r @ take 2 (drop ?n r) @ payload" using take_take_drop [of r ?n 2] n(3) by simp
    moreover have "length (take ?n r) = ?n" "?n < 256" using n(1) unsigned_less [of l, where ?'a = nat] by simp_all
    ultimately show ?thesis using len dom zeros n
      by (intro exI [of _ "DomainTarget (take ?n r)"]) (simp add: data rest udp_packet_def PutUint16_val)
  next
    case v6
    with assms zeros have "host = IP_String (take 16 rest)" "payload = drop 18 rest" "port = uint16_val (take 2 (drop 16 rest)) 0"
      "18 \<le> length rest"
      by (auto simp: data parse_datagram_def go_guard_def index_at_def go_outcome slice_of_def slice_from_def socks_constants
          uint16_val_def split: if_splits)
    moreover have "rest = take 16 rest @ take 2 (drop 16 rest) @ drop 18 rest"
      using take_take_drop [of rest 16 2] by simp
    ultimately show ?thesis using len v6 zeros
      by (intro exI [of _ "IPv6Target (take 16 rest)"]) (simp add: data udp_packet_def PutUint16_val)
  qed
qed

lemma parse_datagram_no_panic: "parse_datagram data \<noteq> Panic"
proof -
  have "(Uint16 (take 2 (drop n data)) :: (unit, uint16) outcome) \<noteq> Panic" if "n + 2 \<le> length data" for n
    by (subst Uint16_enough) (use that in auto)
  then show ?thesis
    by (auto simp: parse_datagram_def go_guard_def index_at_def go_outcome slice_of_def slice_from_def Uint16_at_Return Let_def)
qed

subsection \<open>Lemmas on sessions\<close>

lemma fresh_id_sound: "fresh_id clk k m = Some sid \<Longrightarrow> sid \<noteq> 0 \<and> m sid = None"
  by (erule fresh_id.raw_induct [where P = "\<lambda>clk k m sid. sid \<noteq> 0 \<and> m sid = None", rotated])
     (auto simp: Let_def split: if_splits)

lemma fresh_id_reaches:
  "(of_int (clk (k + n)) :: uint32) \<noteq> 0 \<Longrightarrow> m (of_int (clk (k + n))) = None \<Longrightarrow> \<exists>sid. fresh_id clk k m = Some sid"
proof (induction n arbitrary: k)
  case 0
  then show ?case by (subst fresh_id.simps) (simp add: Let_def)
next
  case (Suc n)
  from Suc.IH [of "k + 1"] Suc.prems have "\<exists>sid. fresh_id clk (k + 1) m = Some sid" by simp
  then show ?case by (subst fresh_id.simps) (simp add: Let_def)
qed

definition wf_UDPAddr :: "UDPAddr \<Rightarrow> bool" where
  "wf_UDPAddr a \<longleftrightarrow> wf_target (addr_IP a) \<and> 0 \<le> addr_Port a"

text \<open>The text of an address determines the address and the port.\<close>

lemma itoa_inject: "itoa m = itoa n \<longleftrightarrow> m = n"
  by (metis itoa_digits)

lemma UDPAddr_String_eq:
  assumes "wf_UDPAddr a" and "wf_UDPAddr b"
  shows "UDPAddr_String a = UDPAddr_String b \<longleftrightarrow> To16 (addr_IP a) = To16 (addr_IP b) \<and> addr_Port a = addr_Port b"
proof -
  have split: "SplitHostPort (UDPAddr_String x) = Some (IP_String (addr_IP x), itoa (nat (addr_Port x)))"
    if "wf_UDPAddr x" for x
    using that SplitHostPort_target [of "addr_IP x"] by (auto simp: UDPAddr_String_def wf_UDPAddr_def wf_target_def)
  have parse: "ParseIP (IP_String (addr_IP x)) = Some (To16 (addr_IP x))" if "wf_UDPAddr x" for x
    using that by (intro ParseIP_String) (simp add: wf_UDPAddr_def wf_target_def)
  have string: "IP_String (To16 (addr_IP x)) = IP_String (addr_IP x)" if "wf_UDPAddr x" for x
    using that IP_String_To16 [of "addr_IP x"] by (auto simp: wf_UDPAddr_def wf_target_def To16_def)
  show ?thesis
  proof
    assume "UDPAddr_String a = UDPAddr_String b"
    with split [OF assms(1)] split [OF assms(2)] have "IP_String (addr_IP a) = IP_String (addr_IP b)" "addr_Port a = addr_Port b"
      using assms by (simp_all add: itoa_inject wf_UDPAddr_def eq_nat_nat_iff)
    with parse [OF assms(1)] parse [OF assms(2)] show "To16 (addr_IP a) = To16 (addr_IP b) \<and> addr_Port a = addr_Port b" by simp
  next
    assume r: "To16 (addr_IP a) = To16 (addr_IP b) \<and> addr_Port a = addr_Port b"
    with string [OF assms(1)] string [OF assms(2)] have "IP_String (addr_IP a) = IP_String (addr_IP b)" by simp
    moreover have "addr_IP a \<noteq> []" "addr_IP b \<noteq> []" using assms by (auto simp: wf_UDPAddr_def wf_target_def)
    ultimately show "UDPAddr_String a = UDPAddr_String b" using r by (simp add: UDPAddr_String_def)
  qed
qed

definition wf_associate :: "udpAssociate \<Rightarrow> bool" where
  "wf_associate ua \<longleftrightarrow>
     (\<forall>sid s. ua_sessions ua sid = Some s \<longrightarrow> uc_sessionID s = sid \<and> sid \<noteq> 0) \<and>
     (\<forall>sid sid' s s'. ua_sessions ua sid = Some s \<longrightarrow> ua_sessions ua sid' = Some s' \<longrightarrow>
        same_flow (uc_clientAddr s) (uc_targetAddr s) s' \<longrightarrow> sid = sid')"

lemma set_map_filter_order:
  "range_order m order \<Longrightarrow> set (List.map_filter m order) = ran m"
  by (force simp: range_order_def List.map_filter_def ran_def dom_def)

lemma getSessionID_cases:
  assumes "range_order (ua_sessions ua) order" and "getSessionID clk order c t ua = Some (sid, ua')" and "wf_associate ua"
  obtains (known) s where "ua_sessions ua sid = Some s" "same_flow c t s" "ua' = ua"
  | (fresh) "\<forall>s\<in>ran (ua_sessions ua). \<not> same_flow c t s" "ua_sessions ua sid = None" "sid \<noteq> 0"
      "ua' = ua\<lparr>ua_sessions := (ua_sessions ua)(sid \<mapsto> \<lparr>uc_sessionID = sid, uc_clientAddr = c, uc_targetAddr = t\<rparr>)\<rparr>"
proof (cases "find (same_flow c t) (List.map_filter (ua_sessions ua) order)")
  case None
  then have "\<forall>s\<in>ran (ua_sessions ua). \<not> same_flow c t s"
    using set_map_filter_order [OF assms(1)] by (auto simp: find_None_iff)
  with None assms(2) fresh show thesis
    by (auto simp: getSessionID_def dest: fresh_id_sound)
next
  case (Some s)
  then have s: "same_flow c t s" "s \<in> ran (ua_sessions ua)"
    using set_map_filter_order [OF assms(1)] by (auto simp: find_Some_iff dest: nth_mem)
  then obtain k where "ua_sessions ua k = Some s" by (auto simp: ran_def)
  moreover from this assms(3) have "uc_sessionID s = k" by (simp add: wf_associate_def)
  moreover have "sid = uc_sessionID s" "ua' = ua" using Some assms(2) by (simp_all add: getSessionID_def)
  ultimately show thesis using known [of s] s(1) by simp
qed

lemma same_flow_refl: "same_flow c t s \<longleftrightarrow> same_flow (uc_clientAddr s) (uc_targetAddr s) \<lparr>uc_sessionID = sid, uc_clientAddr = c, uc_targetAddr = t\<rparr>"
  by (auto simp: same_flow_def)

lemma wf_associate_getSessionID:
  assumes "range_order (ua_sessions ua) order" and "getSessionID clk order c t ua = Some (sid, ua')" and "wf_associate ua"
  shows "wf_associate ua' \<and> (\<exists>s. ua_sessions ua' sid = Some s \<and> same_flow c t s) \<and> sid \<noteq> 0 \<and> ua_sessions ua \<subseteq>\<^sub>m ua_sessions ua'"
  using assms
proof (cases rule: getSessionID_cases)
  case (known s)
  then show ?thesis using assms(3) by (auto simp: wf_associate_def)
next
  case fresh
  have "same_flow c t s \<Longrightarrow> ua_sessions ua k \<noteq> Some s" for s k using fresh(1) by (auto intro: ranI)
  then have "wf_associate ua'"
    using assms(3) fresh unfolding wf_associate_def by (auto simp: same_flow_def split: if_splits)
  with fresh show ?thesis by (auto simp: same_flow_def map_le_def dom_def)
qed

subsection \<open>Properties\<close>


text \<open>A server whose node serves 10.0.0.0/8 itself, and a client that asks for 10.1.2.3, port 80.\<close>

definition example_env :: socks_env where
  "example_env = \<lparr>se_order = [], se_routes = SetDirectNetworks [\<lparr>ipn_IP = IPv4 10 0 0 0, ipn_Mask = CIDRMask 8 32\<rparr>]
       (NewRoutingTable (replicate 16 1)), se_LookupIP = (\<lambda>_. None), se_dialTCP = (\<lambda>_. True), se_dialPeer = (\<lambda>_ _. False)\<rparr>"

definition example_server :: Server where
  "example_server = SetUDPDirect (SetUDPForward (SetDialPeer (SetDialTCP (NewServer ''127.0.0.1:1080'' (replicate 16 1)))))"


text \<open>
  A datagram of a UDP association never makes the server panic, and it is understood exactly
  when it has a zero reserved field, no fragment number, at least ten bytes and a complete IPv4,
  IPv6 or domain target: then target, port and payload are those that were sent.
\<close>

theorem parse_datagram_iff:
  "parse_datagram data \<noteq> Panic \<and>
   (parse_datagram data = Return (host, port, payload) \<longleftrightarrow>
     (\<exists>t. wf_socks_target t \<and> data = udp_packet t port payload \<and> host = target_host t \<and> 10 \<le> length data))"
  using parse_datagram_no_panic parse_datagram_Return [of data host port payload] parse_udp_packet by blast

text \<open>
  The session identifiers of an association: a datagram gets a non-zero identifier that
  belongs to its flow, the flows seen before keep theirs, no two flows share one, and the next
  datagram of the same flow gets the same identifier and changes nothing. Two datagrams belong to
  the same flow exactly when the addresses and ports of both ends agree.
\<close>

theorem getSessionID_flows:
  assumes "wf_associate ua" and "range_order (ua_sessions ua) order" and "getSessionID clk order c t ua = Some (sid, ua')"
    and "range_order (ua_sessions ua') order'" and "wf_UDPAddr c" and "wf_UDPAddr t" and "wf_UDPAddr c'" and "wf_UDPAddr t'"
  shows "wf_associate ua' \<and> sid \<noteq> 0 \<and> ua_sessions ua \<subseteq>\<^sub>m ua_sessions ua' \<and>
    (\<exists>s. ua_sessions ua' sid = Some s \<and> same_flow c t s) \<and>
    getSessionID clk' order' c t ua' = Some (sid, ua') \<and>
    (same_flow c t \<lparr>uc_sessionID = sid, uc_clientAddr = c', uc_targetAddr = t'\<rparr> \<longleftrightarrow>
       To16 (addr_IP c) = To16 (addr_IP c') \<and> addr_Port c = addr_Port c' \<and>
       To16 (addr_IP t) = To16 (addr_IP t') \<and> addr_Port t = addr_Port t')"
proof -
  note wf = wf_associate_getSessionID [OF assms(2,3,1)]
  then obtain s where s: "ua_sessions ua' sid = Some s" "same_flow c t s" by blast
  then have "find (same_flow c t) (List.map_filter (ua_sessions ua') order') \<noteq> None"
    using set_map_filter_order [OF assms(4)] by (auto simp: find_None_iff intro: ranI)
  then obtain s' where s': "find (same_flow c t) (List.map_filter (ua_sessions ua') order') = Some s'" by blast
  then have "same_flow c t s'" "s' \<in> ran (ua_sessions ua')"
    using set_map_filter_order [OF assms(4)] by (auto simp: find_Some_iff dest: nth_mem)
  then obtain k where k: "ua_sessions ua' k = Some s'" "same_flow c t s'" by (auto simp: ran_def)
  have "same_flow (uc_clientAddr s) (uc_targetAddr s) s'" using s(2) k(2) by (simp add: same_flow_def)
  with wf s(1) k(1) have "k = sid" "uc_sessionID s' = k" unfolding wf_associate_def by blast+
  with s' have "getSessionID clk' order' c t ua' = Some (sid, ua')" by (simp add: getSessionID_def)
  moreover have "same_flow c t \<lparr>uc_sessionID = sid, uc_clientAddr = c', uc_targetAddr = t'\<rparr> \<longleftrightarrow>
       To16 (addr_IP c) = To16 (addr_IP c') \<and> addr_Port c = addr_Port c' \<and>
       To16 (addr_IP t) = To16 (addr_IP t') \<and> addr_Port t = addr_Port t'"
    using UDPAddr_String_eq [OF assms(7,5)] UDPAddr_String_eq [OF assms(8,6)] by (auto simp: same_flow_def)
  ultimately show ?thesis using wf by blast
qed

definition example_flow :: "UDPAddr \<times> UDPAddr" where
  "example_flow = (\<lparr>addr_IP = [127, 0, 0, 1], addr_Port = 4000\<rparr>, \<lparr>addr_IP = IPv4 10 1 2 3, addr_Port = 53\<rparr>)"

theorem getSessionID_flows_witness:
  "\<exists>ua'. getSessionID (\<lambda>k. int k) [] (fst example_flow) (snd example_flow) new_associate = Some (1, ua') \<and>
     wf_associate ua' \<and> getSessionID (\<lambda>k. int k) [1] (fst example_flow) (snd example_flow) ua' = Some (1, ua')"
proof -
  have "fresh_id (\<lambda>k. int k) 0 (ua_sessions new_associate) = Some 1"
    by (subst fresh_id.simps, subst fresh_id.simps) (simp add: new_associate_def Let_def)
  then obtain ua' where ua': "getSessionID (\<lambda>k. int k) [] (fst example_flow) (snd example_flow) new_associate = Some (1, ua')"
    "dom (ua_sessions ua') = {1}"
    by (auto simp: getSessionID_def List.map_filter_def new_associate_def)
  moreover have "wf_associate new_associate" "range_order (ua_sessions new_associate) []"
    by (simp_all add: wf_associate_def new_associate_def range_order_def)
  moreover have "range_order (ua_sessions ua') [1]" using ua'(2) by (simp add: range_order_def)
  moreover have "wf_UDPAddr (fst example_flow)" "wf_UDPAddr (snd example_flow)" by code_simp+
  ultimately show ?thesis
    using getSessionID_flows [of new_associate "[]" "\<lambda>k. int k" "fst example_flow" "snd example_flow" 1 ua' "[1]"] by blast
qed



end
