(* ===== verification/Transport_Listener.thy ===== *)
theory Transport_Listener
  imports Transport_Conn Identity
begin

text \<open>
  Outgoing connections, \<open>Dial\<close> of transport/conn.go with its optional check of the certificate
  pin, and incoming ones, transport/listener.go. What the TLS dial returns is an argument: a
  connection with the public keys of the peer's certificates. The listener is a step relation: its
  goroutine accepts raw connections and passes them on by a channel of eight; an error of the
  underlying listener ends the goroutine, and a full channel blocks it.

  Shown: with a pin store, a connection is only returned for a certificate that is pinned to the
  address afterwards; after one failed accept the listener never delivers a connection again that
  it had not accepted before.
\<close>

subsection \<open>Dialling\<close>

datatype dial_error = TlsDialFailed | NoPeerCertificate | PinCheck pin_error | PinCheckFailed

definition Transport_Dial ::
  "(bytes \<Rightarrow> bytes) \<Rightarrow> bool \<Rightarrow> string \<Rightarrow> (raw_conn \<times> bytes list) option \<Rightarrow> PinStore option \<Rightarrow>
   (dial_error, Conn) outcome \<times> PinStore option" where
  "Transport_Dial sha256 save_ok addr tls pinStore =
     (case tls of
        None \<Rightarrow> (Error TlsDialFailed, pinStore)
      | Some (raw, certs) \<Rightarrow>
          (case pinStore of
             None \<Rightarrow> (Return (newConn raw), None)
           | Some pins \<Rightarrow>
               (case certs of
                  [] \<Rightarrow> (Error NoPeerCertificate, Some pins)
                | cert # _ \<Rightarrow>
                    (case PinStore_Check sha256 save_ok addr cert pins of
                       (Return True, pins') \<Rightarrow> (Return (newConn raw), Some pins')
                     | (Return False, pins') \<Rightarrow> (Error PinCheckFailed, Some pins')
                     | (Error e, pins') \<Rightarrow> (Error (PinCheck e), Some pins')
                     | (Panic, pins') \<Rightarrow> (Panic, Some pins')))))"

subsection \<open>Listening\<close>

text \<open>\<open>l_held\<close> is a connection the goroutine has accepted and is about to put on the channel.\<close>

record Listener =
  l_connCh :: "raw_conn list"
  l_errCh :: bool
  l_held :: "raw_conn option"
  l_stopped :: bool

definition Listen :: "bool \<Rightarrow> (unit, Listener) outcome" where
  "Listen listen_ok =
     (if listen_ok then Return \<lparr>l_connCh = [], l_errCh = False, l_held = None, l_stopped = False\<rparr> else Error ())"

inductive accept_step :: "Listener \<Rightarrow> Listener \<Rightarrow> bool" where
  accepted: "accept_step l (l\<lparr>l_held := Some raw\<rparr>)"
    if "\<not> l_stopped l" "l_held l = None"
| passed_on: "accept_step l (l\<lparr>l_connCh := l_connCh l @ [raw], l_held := None\<rparr>)"
    if "l_held l = Some raw" "length (l_connCh l) < 8"
| accept_failed: "accept_step l (l\<lparr>l_errCh := True, l_stopped := True\<rparr>)"
    if "\<not> l_stopped l" "l_held l = None" "\<not> l_errCh l"

text \<open>\<open>Accept\<close>: a connection or the error, whichever is there; \<open>pick\<close> decides when both are.\<close>

definition Listener_Accept :: "bool \<Rightarrow> Listener \<Rightarrow> ((unit, Conn) outcome \<times> Listener) option" where
  "Listener_Accept pick l =
     (if l_connCh l \<noteq> [] \<and> (\<not> l_errCh l \<or> pick) then
        Some (Return (newConn (hd (l_connCh l))), l\<lparr>l_connCh := tl (l_connCh l)\<rparr>)
      else if l_errCh l then Some (Error (), l\<lparr>l_errCh := False\<rparr>)
      else None)"

subsection \<open>Properties\<close>

text \<open>
  A connection that \<open>Dial\<close> returns under a pin store was made to a peer whose certificate is
  pinned to the address afterwards; a pin already there is not changed, and no other pin is.
\<close>

theorem Dial_pins:
  assumes "Transport_Dial sha256 save_ok addr tls (Some pins) = (Return c, ps)"
  shows "\<exists>raw cert certs pins'. tls = Some (raw, cert # certs) \<and> c = newConn raw \<and> ps = Some pins' \<and>
    pins' addr = Some (certSPKIHash sha256 cert) \<and> pins \<subseteq>\<^sub>m pins' \<and> (\<forall>a. a \<noteq> addr \<longrightarrow> pins' a = pins a)"
  using assms
  by (auto simp: Transport_Dial_def PinStore_Check_def Let_def map_le_def slice_of_def go_outcome
      split: option.splits list.splits if_splits)

theorem Dial_pins_witness:
  "\<exists>pins'. snd (Transport_Dial (\<lambda>b. b) True ''peer:9443'' (Some (\<lparr>raw_sent = [], raw_plan = []\<rparr>, [[1, 2]])) (Some Map.empty)) =
     Some pins' \<and> pins' ''peer:9443'' = Some ''0102''"
proof -
  let ?tls = "Some (\<lparr>raw_sent = [], raw_plan = []\<rparr>, [[1, 2]]) :: (raw_conn \<times> bytes list) option"
  have "fst (Transport_Dial (\<lambda>b. b) True ''peer:9443'' ?tls (Some Map.empty)) = Return (newConn \<lparr>raw_sent = [], raw_plan = []\<rparr>)"
    by (simp add: Transport_Dial_def PinStore_Check_def Let_def)
  then have "Transport_Dial (\<lambda>b. b) True ''peer:9443'' ?tls (Some Map.empty) =
      (Return (newConn \<lparr>raw_sent = [], raw_plan = []\<rparr>), snd (Transport_Dial (\<lambda>b. b) True ''peer:9443'' ?tls (Some Map.empty)))"
    by (simp add: prod_eq_iff)
  from Dial_pins [OF this] show ?thesis by (auto simp: certSPKIHash_def EncodeToString_def hex_of_byte_def hexdigit_def)
qed

lemma listener_stops:
  "accept_step\<^sup>*\<^sup>* l l' \<Longrightarrow> l_stopped l \<Longrightarrow> l_stopped l' \<and>
     l_connCh l' @ (case l_held l' of None \<Rightarrow> [] | Some raw \<Rightarrow> [raw]) =
     l_connCh l @ (case l_held l of None \<Rightarrow> [] | Some raw \<Rightarrow> [raw])"
proof (induction rule: rtranclp_induct)
  case (step y z)
  from step(2) step.IH [OF step.prems] show ?case by (cases rule: accept_step.cases) auto
qed simp

end
