(* ===== verification/Node_Parts.thy ===== *)
theory Node_Parts
  imports Go_Prelude
begin

text \<open>
  The self-contained parts of the node: the rate limiter of incoming connections and the delays
  between attempts to connect, node/node.go, and the numbers the health endpoint reports,
  obs/health.go.

  The limiter computes its refill in floating point, \<open>int(float64(max) * float64(elapsed) /
  float64(interval))\<close>. As long as \<open>max * elapsed\<close> is below \<open>2 ^ 53\<close> both products are exact and
  the truncated quotient is the integer quotient, since a quotient below the next integer is
  farther from it than the rounding error; from there on (ten days for ten connections a second)
  either value exceeds the cap that is applied next. The clock is monotonic.

  Shown: the limiter never lets through more than its burst plus its rate; but attempts that
  follow each other faster than the rate keep it empty for ever; delays lie between half the
  backoff and the backoff, and the backoff doubles up to its bound.
\<close>

subsection \<open>The rate limiter\<close>

record rateLimiter =
  rl_tokens :: int
  rl_max :: int
  rl_interval :: duration
  rl_last :: go_time

definition newRateLimiter :: "go_time \<Rightarrow> int \<Rightarrow> duration \<Rightarrow> rateLimiter" where
  "newRateLimiter now maxPerInterval interval =
     \<lparr>rl_tokens = maxPerInterval, rl_max = maxPerInterval, rl_interval = interval, rl_last = now\<rparr>"

definition allow :: "go_time \<Rightarrow> rateLimiter \<Rightarrow> bool \<times> rateLimiter" where
  "allow now rl =
     (let elapsed = now - rl_last rl;
          tokens = rl_tokens rl + rl_max rl * elapsed div rl_interval rl;
          tokens = (if tokens > rl_max rl then rl_max rl else tokens);
          rl = rl\<lparr>rl_last := now\<rparr>
      in if tokens > 0 then (True, rl\<lparr>rl_tokens := tokens - 1\<rparr>) else (False, rl\<lparr>rl_tokens := tokens\<rparr>))"

text \<open>The answers to attempts at the given times.\<close>

fun allow_all :: "go_time list \<Rightarrow> rateLimiter \<Rightarrow> bool list \<times> rateLimiter" where
  "allow_all [] rl = ([], rl)"
| "allow_all (t # ts) rl =
     (let (b, rl') = allow t rl; (bs, rl'') = allow_all ts rl' in (b # bs, rl''))"

subsection \<open>Delays\<close>

text \<open>\<open>rnd n\<close> is \<open>rand.Int63n(n)\<close>, at least zero and less than \<open>n\<close>.\<close>

definition jitterDuration :: "(int \<Rightarrow> int) \<Rightarrow> duration \<Rightarrow> duration" where
  "jitterDuration rnd base =
     (if base \<le> 0 then 0
      else (let half = base div 2 in if half \<le> 0 then base else half + rnd (half + 1)))"

text \<open>
  \<open>None\<close> while it sleeps; \<open>elapsed\<close> is the time since the call. When the context is cancelled and the
  timer has fired, the select picks either.
\<close>

definition sleepWithContext :: "bool \<Rightarrow> bool \<Rightarrow> duration \<Rightarrow> duration \<Rightarrow> bool option" where
  "sleepWithContext cancelled pick d elapsed =
     (if d \<le> 0 then Some (\<not> cancelled)
      else if cancelled \<and> (pick \<or> elapsed < d) then Some False
      else if d \<le> elapsed then Some True
      else None)"

definition next_backoff :: "duration \<Rightarrow> duration \<Rightarrow> duration" where
  "next_backoff maxBackoff backoff = (let b = backoff * 2 in if b > maxBackoff then maxBackoff else b)"

subsection \<open>Health\<close>

record Stats =
  stat_PeerCount :: nat
  stat_RouteCount :: nat
  stat_Uptime :: go_time
  stat_Connected :: bool

definition NewStats :: "go_time \<Rightarrow> Stats" where
  "NewStats now = \<lparr>stat_PeerCount = 0, stat_RouteCount = 0, stat_Uptime = now, stat_Connected = True\<rparr>"

definition Stats_Update :: "nat \<Rightarrow> nat \<Rightarrow> Stats \<Rightarrow> Stats" where
  "Stats_Update peers routes s = s\<lparr>stat_PeerCount := peers, stat_RouteCount := routes\<rparr>"

text \<open>A response: the status code and the fields of the JSON object, durations as numbers.\<close>

datatype health_field = Status string | Uptime duration | UptimeSeconds int | PeerCount nat | RouteCount nat

definition handleHealth :: "go_time \<Rightarrow> Stats \<Rightarrow> nat \<times> health_field list" where
  "handleHealth now s =
     (let uptime = now - stat_Uptime s
      in if \<not> stat_Connected s then (503, [Status ''unhealthy'', Uptime uptime])
         else (200, [Status ''healthy'', Uptime uptime]))"

definition handleMetrics :: "go_time \<Rightarrow> Stats \<Rightarrow> nat \<times> health_field list" where
  "handleMetrics now s =
     (200, [UptimeSeconds ((now - stat_Uptime s) div 1000000000), PeerCount (stat_PeerCount s), RouteCount (stat_RouteCount s)])"

subsection \<open>Lemmas\<close>

definition wf_limiter :: "rateLimiter \<Rightarrow> bool" where
  "wf_limiter rl \<longleftrightarrow> 0 \<le> rl_tokens rl \<and> rl_tokens rl \<le> rl_max rl \<and> 0 < rl_max rl \<and> 0 < rl_interval rl"

lemma allow_wf: "wf_limiter rl \<Longrightarrow> rl_last rl \<le> now \<Longrightarrow>
    wf_limiter (snd (allow now rl)) \<and> rl_last (snd (allow now rl)) = now \<and>
    rl_max (snd (allow now rl)) = rl_max rl \<and> rl_interval (snd (allow now rl)) = rl_interval rl"
proof -
  assume wf: "wf_limiter rl" and now: "rl_last rl \<le> now"
  then have "0 \<le> rl_max rl * (now - rl_last rl) div rl_interval rl"
    by (simp add: wf_limiter_def pos_imp_zdiv_nonneg_iff)
  with wf show ?thesis by (auto simp: allow_def wf_limiter_def Let_def)
qed

lemma int_mult_div_le: "0 < (c :: int) \<Longrightarrow> c * (a div c) \<le> a"
  using mult_div_mod_eq [of c a] pos_mod_sign [of c a] by linarith

text \<open>Tokens, scaled by the interval, never exceed what was there plus what the time adds.\<close>

lemma allow_budget:
  assumes "wf_limiter rl" and "rl_last rl \<le> now"
  shows "rl_interval rl * (rl_tokens (snd (allow now rl)) + of_bool (fst (allow now rl))) \<le>
    rl_interval rl * rl_tokens rl + rl_max rl * (now - rl_last rl)"
proof -
  let ?q = "rl_max rl * (now - rl_last rl) div rl_interval rl"
  have "rl_tokens (snd (allow now rl)) + of_bool (fst (allow now rl)) \<le> rl_tokens rl + ?q"
    by (auto simp: allow_def Let_def)
  then have "rl_interval rl * (rl_tokens (snd (allow now rl)) + of_bool (fst (allow now rl))) \<le> rl_interval rl * (rl_tokens rl + ?q)"
    using assms(1) by (simp add: wf_limiter_def)
  also have "\<dots> \<le> rl_interval rl * rl_tokens rl + rl_max rl * (now - rl_last rl)"
    using assms(1) int_mult_div_le [of "rl_interval rl" "rl_max rl * (now - rl_last rl)"]
    by (simp add: wf_limiter_def distrib_left)
  finally show ?thesis .
qed

fun ascending :: "go_time \<Rightarrow> go_time list \<Rightarrow> bool" where
  "ascending t0 [] \<longleftrightarrow> True"
| "ascending t0 (t # ts) \<longleftrightarrow> t0 \<le> t \<and> ascending t ts"

definition accepted :: "bool list \<Rightarrow> int" where
  "accepted bs = int (length (filter (\<lambda>b. b) bs))"

lemma allow_all_budget:
  assumes "wf_limiter rl" and "ascending (rl_last rl) ts"
  shows "rl_interval rl * accepted (fst (allow_all ts rl)) + rl_interval rl * rl_tokens (snd (allow_all ts rl)) \<le>
    rl_interval rl * rl_tokens rl + rl_max rl * (last (rl_last rl # ts) - rl_last rl) \<and> 0 \<le> rl_tokens (snd (allow_all ts rl))"
  using assms
proof (induction ts arbitrary: rl)
  case Nil
  then show ?case by (simp add: accepted_def wf_limiter_def)
next
  case (Cons t ts)
  let ?rl = "snd (allow t rl)"
  have t: "rl_last rl \<le> t" "ascending t ts" using Cons.prems by simp_all
  note wf = allow_wf [OF Cons.prems(1) t(1)]
  have ih: "rl_interval rl * accepted (fst (allow_all ts ?rl)) + rl_interval rl * rl_tokens (snd (allow_all ts ?rl)) \<le>
      rl_interval rl * rl_tokens ?rl + rl_max rl * (last (t # ts) - t) \<and> 0 \<le> rl_tokens (snd (allow_all ts ?rl))"
    using Cons.IH [of ?rl] wf t(2) by simp
  have "accepted (fst (allow_all (t # ts) rl)) = of_bool (fst (allow t rl)) + accepted (fst (allow_all ts ?rl))"
    by (simp add: accepted_def case_prod_beta Let_def)
  moreover have "snd (allow_all (t # ts) rl) = snd (allow_all ts ?rl)" by (simp add: case_prod_beta Let_def)
  moreover have "rl_max rl * (last (rl_last rl # t # ts) - rl_last rl) =
      rl_max rl * (last (t # ts) - t) + rl_max rl * (t - rl_last rl)" by (simp add: algebra_simps)
  ultimately show ?case using ih allow_budget [OF Cons.prems(1) t(1)] by (simp add: distrib_left)
qed

text \<open>An attempt that comes too early for a whole token does not earn one.\<close>

lemma allow_early:
  assumes "wf_limiter rl" and "rl_last rl \<le> now" and "rl_max rl * (now - rl_last rl) < rl_interval rl"
  shows "fst (allow now rl) = (0 < rl_tokens rl) \<and> rl_tokens (snd (allow now rl)) = (if 0 < rl_tokens rl then rl_tokens rl - 1 else 0)"
proof -
  have "rl_max rl * (now - rl_last rl) div rl_interval rl = 0"
    using assms by (simp add: wf_limiter_def div_pos_pos_trivial)
  with assms(1) show ?thesis by (auto simp: allow_def wf_limiter_def Let_def)
qed

fun spaced :: "int \<Rightarrow> int \<Rightarrow> go_time \<Rightarrow> go_time list \<Rightarrow> bool" where
  "spaced mx iv t0 [] \<longleftrightarrow> True"
| "spaced mx iv t0 (t # ts) \<longleftrightarrow> t0 \<le> t \<and> mx * (t - t0) < iv \<and> spaced mx iv t ts"

lemma allow_all_starved:
  "wf_limiter rl \<Longrightarrow> rl_tokens rl = 0 \<Longrightarrow> spaced (rl_max rl) (rl_interval rl) (rl_last rl) ts \<Longrightarrow>
     fst (allow_all ts rl) = replicate (length ts) False"
proof (induction ts arbitrary: rl)
  case (Cons t ts)
  then show ?case using allow_early [of rl t] allow_wf [of rl t] by (simp add: case_prod_beta Let_def)
qed simp

subsection \<open>Properties\<close>



text \<open>
  But a limiter that has run empty stays empty as long as attempts keep coming faster than
  its rate, however slow the attempts that would have been within it: each attempt discards the
  fraction of a token earned since the last. Attempts eleven times a second against a limit of ten
  are all refused, for ever.
\<close>

theorem limiter_starves:
  assumes "wf_limiter rl" and "rl_tokens rl = 0" and "spaced (rl_max rl) (rl_interval rl) (rl_last rl) ts"
  shows "fst (allow_all ts rl) = replicate (length ts) False"
  using allow_all_starved [OF assms] .

theorem limiter_starves_witness:
  "fst (allow_all [90, 180, 270] \<lparr>rl_tokens = 0, rl_max = 10, rl_interval = 1000, rl_last = 0\<rparr>) = [False, False, False]"
  using limiter_starves [of "\<lparr>rl_tokens = 0, rl_max = 10, rl_interval = 1000, rl_last = 0\<rparr>" "[90, 180, 270]"]
  by (simp add: wf_limiter_def numeral_3_eq_3)

text \<open>
  The delay before another attempt to connect lies between half the backoff and the backoff,
  and after \<open>k\<close> failures the backoff is the start doubled \<open>k\<close> times, but never more than the bound.
\<close>

theorem backoff_bounds:
  assumes "\<forall>n > 0. 0 \<le> rnd n \<and> rnd n < n" and "0 < b0" and "b0 \<le> mx" and "backoff = (next_backoff mx ^^ k) b0"
  shows "backoff = min mx (2 ^ k * b0) \<and> backoff div 2 \<le> jitterDuration rnd backoff \<and> jitterDuration rnd backoff \<le> backoff"
proof -
  have backoff: "backoff = min mx (2 ^ k * b0)"
    unfolding assms(4)
  proof (induction k)
    case (Suc k)
    have "0 < (2 :: int) ^ k * b0" using assms(2) by simp
    then show ?case using Suc assms(2,3) by (auto simp: next_backoff_def min_def Let_def)
  qed (use assms(3) in simp)
  then have pos: "0 < backoff" using assms(2,3) by (simp add: min_def)
  have "0 < backoff div 2 + 1" using pos by linarith
  with assms(1) have "0 \<le> rnd (backoff div 2 + 1)" and "rnd (backoff div 2 + 1) < backoff div 2 + 1" by blast+
  then have "backoff div 2 \<le> jitterDuration rnd backoff" and "jitterDuration rnd backoff \<le> backoff"
    using pos unfolding jitterDuration_def Let_def by (simp_all split: if_split; linarith)+
  with backoff show ?thesis by blast
qed

theorem backoff_bounds_witness:
  "(next_backoff 60 ^^ 3) 1 = 8 \<and> (4 :: int) \<le> jitterDuration (\<lambda>n. n - 1) 8 \<and> jitterDuration (\<lambda>n. n - 1) 8 \<le> 8"
proof -
  have "(next_backoff 60 ^^ 3) 1 = 8" by (simp add: numeral_3_eq_3 next_backoff_def)
  with backoff_bounds [of "\<lambda>n. n - 1" 1 60 8 3] show ?thesis by simp
qed

end
