(* ===== verification/Node.thy ===== *)
theory Node
  imports Config Gossip_Engine Route_Propagation Forward_Relay Forward_TCP Socks5_Server
    Transport_Listener Node_Parts
begin

text \<open>
  The node of node/node.go, which ties the components together: its state, its creation, the
  callbacks it installs between the components, and what it does with messages. The goroutines
  that call these operations are in theory \<open>Node_Run\<close>.

  A connection object stays reachable after it leaves the map of peer connections, so the node
  keeps the list of all connections it ever had (\<open>links\<close>) and the maps hold positions in it. The
  actions the gossip engine, the route propagator and the UDP relay ask for are carried out on that
  list: a control message is written to the control stream of the connection, and calling a method
  of a control stream that is gone panics. What the node sends on its UDP socket and from sockets
  made for one datagram are the lists \<open>n_udpOut\<close> and \<open>n_directOut\<close>, and what it hands to local UDP
  clients is \<open>n_clientOut\<close>. The record \<open>library\<close> is the code
  the node calls that is not part of the program: Ed25519, the resolver, and the rounding of
  fractions in \<open>time.ParseDuration\<close>.

  Shown: which control messages are acted on and when one can stop the node; that the node's push
  is the gossip engine's; what a new connection to a peer sends.
\<close>

subsection \<open>Goroutines\<close>

text \<open>
  A goroutine that waits, with what it keeps while it waits. \<open>mark\<close> is the address under which the
  goroutine is entered in the set of addresses being dialled.
\<close>

datatype ticker = PushTick | ProbeTick | AdvertiseTick | SessionGCTick | RouteGCTick | StatsTick

datatype task =
    AcceptLoop
  | IncomingConn conn_id
  | IncomingRead conn_id nat
  | ConnectToPeer NodeID string
  | Dialling NodeID string
  | ReconnectPeer NodeID
  | Reconnecting NodeID string string duration
  | ReconnectSleep NodeID string duration duration go_time
  | Bootstrap
  | BootstrapPeer string
  | BootstrapDial string duration
  | BootstrapSleep string duration duration go_time
  | BootstrapRead string conn_id nat duration
  | ControlLoop NodeID conn_id nat "string option"
  | StreamLoop NodeID conn_id
  | RelayStream NodeID conn_id nat
  | UdpReadLoop
  | Ticker ticker bool
  | ProbeTimer NodeID go_time

subsection \<open>State\<close>

record link =
  lk_conn :: Conn
  lk_loop :: loop
  lk_remote :: string

record Node =
  n_cfg :: Config
  n_identity :: Identity
  n_ln :: "Listener option"
  n_gossip :: Engine
  n_rng :: uint32
  n_prop :: Propagator
  n_tcpRelay :: TCPRelay
  n_udpRelay :: UDPRelay
  n_socks :: Server
  n_udpLn :: bool
  n_udpOut :: "(UDPAddr \<times> bytes) list"
  n_directOut :: "(UDPAddr \<times> bytes) list"
  n_clientOut :: "udp_event list"
  n_peerUDPAddrs :: "string \<rightharpoonup> UDPAddr"
  n_links :: "link list"
  n_peerConns :: "string \<rightharpoonup> conn_id"
  n_reconnecting :: "string set"
  n_tasks :: "task list"
  n_acceptLimiter :: rateLimiter
  n_healthSrv :: bool
  n_stats :: Stats
  n_cancelled :: bool

record library =
  lib_sign :: "bytes \<Rightarrow> bytes \<Rightarrow> bytes"
  lib_verify :: "bytes \<Rightarrow> bytes \<Rightarrow> bytes \<Rightarrow> bool"
  lib_frac :: "int \<Rightarrow> int \<Rightarrow> int \<Rightarrow> int"
  lib_ResolveUDPAddr :: "string \<Rightarrow> UDPAddr option"

text \<open>
  What one step of a goroutine finds in its surroundings: the clock at every reading, the order of
  every iteration over a map, which of two ready cases a select takes, random numbers, and what
  the network does: the result of a TLS dial, the address of the other end of a new connection, a
  datagram or an error on the UDP socket, whether a timer has fired, and which TCP dials and
  writes to their targets succeed.
\<close>

record env =
  en_clk :: "nat \<Rightarrow> go_time"
  en_peers :: "nat \<Rightarrow> string list"
  en_conns :: "nat \<Rightarrow> string list"
  en_routes :: "nat \<Rightarrow> string list"
  en_udpAddrs :: "string list"
  en_peerConns :: "string list"
  en_sessions :: "uint32 list"
  en_pick :: bool
  en_rnd :: "int \<Rightarrow> int"
  en_dial :: "(raw_conn \<times> bytes list) option"
  en_remote :: string
  en_udp :: "(UDPAddr \<times> bytes) option option"
  en_fired :: bool
  en_dialTCP :: "string \<Rightarrow> bool"
  en_writeTCP :: "bytes \<Rightarrow> bool"

definition env_shift :: "nat \<Rightarrow> env \<Rightarrow> env" where
  "env_shift k env = env\<lparr>en_clk := \<lambda>i. en_clk env (k + i), en_peers := \<lambda>i. en_peers env (k + i)\<rparr>"

definition spawn :: "task \<Rightarrow> Node \<Rightarrow> Node" where
  "spawn t n = n\<lparr>n_tasks := n_tasks n @ [t]\<rparr>"

definition conn_at :: "Node \<Rightarrow> conn_id \<Rightarrow> Conn" where
  "conn_at n c = lk_conn (n_links n ! c)"

definition set_conn :: "conn_id \<Rightarrow> Conn \<Rightarrow> Node \<Rightarrow> Node" where
  "set_conn c k n = n\<lparr>n_links := (n_links n)[c := (n_links n ! c)\<lparr>lk_conn := k\<rparr>]\<rparr>"

definition add_link :: "Conn \<Rightarrow> string \<Rightarrow> Node \<Rightarrow> conn_id \<times> Node" where
  "add_link k remote n =
     (length (n_links n), n\<lparr>n_links := n_links n @ [\<lparr>lk_conn = k, lk_loop = LoopRead, lk_remote = remote\<rparr>]\<rparr>)"

definition remote_of :: "Node \<Rightarrow> conn_id \<Rightarrow> string" where
  "remote_of n c = lk_remote (n_links n ! c)"

definition close_conn :: "conn_id \<Rightarrow> Node \<Rightarrow> Node" where
  "close_conn c n = set_conn c (Conn_Close (conn_at n c)) n"

text \<open>\<open>conn.ControlStream().Write(msg)\<close>\<close>

definition control_write :: "conn_id \<Rightarrow> bytes \<Rightarrow> Node \<Rightarrow> (conn_error, nat) outcome \<times> Node" where
  "control_write c msg n =
     (case ControlStream (conn_at n c) of
        None \<Rightarrow> (Panic, n)
      | Some s \<Rightarrow> (case Stream_Write s msg (conn_at n c) of (res, k) \<Rightarrow> (res, set_conn c k n)))"

text \<open>A call whose error is ignored or only logged.\<close>

definition logged :: "('e, 'a) outcome \<times> Node \<Rightarrow> (unit, Node) outcome" where
  "logged r = (case r of (Panic, n) \<Rightarrow> Panic | (_, n) \<Rightarrow> Return n)"

subsection \<open>Marking addresses\<close>

definition tryMarkDialing :: "string \<Rightarrow> Node \<Rightarrow> bool \<times> Node" where
  "tryMarkDialing addr n =
     (if addr \<in> n_reconnecting n then (False, n)
      else (True, n\<lparr>n_reconnecting := insert addr (n_reconnecting n)\<rparr>))"

definition unmarkDialing :: "string \<Rightarrow> Node \<Rightarrow> Node" where
  "unmarkDialing addr n = n\<lparr>n_reconnecting := n_reconnecting n - {addr}\<rparr>"

subsection \<open>Creation\<close>

definition route_ParseCIDR :: "string \<Rightarrow> (unit, IPNet) outcome" where
  "route_ParseCIDR s = (case ParseCIDR s of None \<Rightarrow> Error () | Some (_, nw) \<Rightarrow> Return nw)"

fun parse_networks :: "string list \<Rightarrow> string + IPNet list" where
  "parse_networks [] = Inr []"
| "parse_networks (nw # nws) =
     (case ParseCIDR nw of
        None \<Rightarrow> Inl nw
      | Some (_, parsed) \<Rightarrow> (case parse_networks nws of Inl e \<Rightarrow> Inl e | Inr nets \<Rightarrow> Inr (parsed # nets)))"

datatype new_error = IdentityFailed keyfile_error | BadDirectNetwork string

definition gossip_config :: "library \<Rightarrow> Config \<Rightarrow> GossipConfig" where
  "gossip_config lib cfg =
     \<lparr>gc_PushInterval = PushInterval (lib_frac lib) cfg, gc_ProbeInterval = ProbeInterval (lib_frac lib) cfg,
      gc_PeerTimeout = PeerTimeout (lib_frac lib) cfg, gc_Fanout = gs_Fanout (cfg_Gossip cfg)\<rparr>"

definition wireCallbacks :: "library \<Rightarrow> Node \<Rightarrow> Node" where
  "wireCallbacks lib n =
     n\<lparr>n_gossip := OnPeerDead (OnPeerDiscovered
         (SetSignFunc (\<lambda>msg. SignMessage (lib_sign lib) msg (id_PrivKey (n_identity n))) (n_gossip n))),
       n_prop := SetPeersFunc True (SetBroadcaster True (SetSender True (n_prop n))),
       n_tcpRelay := NewTCPRelay True,
       n_udpRelay := SetDeliverFunc (SetSendFunc (n_udpRelay n)),
       n_socks := SetUDPDirect (SetUDPForward (SetDialPeer (SetDialTCP (n_socks n))))\<rparr>"

text \<open>\<open>loaded\<close> is what \<open>LoadOrCreate\<close> returned for the identity file, \<open>rng\<close> the state of the generator.\<close>

definition Node_New ::
  "library \<Rightarrow> go_time \<Rightarrow> uint32 \<Rightarrow> (keyfile_error, Identity) outcome \<Rightarrow> Config \<Rightarrow> (new_error, Node) outcome" where
  "Node_New lib now rng loaded cfg =
     (case loaded of
        Panic \<Rightarrow> Panic
      | Error e \<Rightarrow> Error (IdentityFailed e)
      | Return idt \<Rightarrow>
          (case parse_networks (rc_DirectNetworks (cfg_Routing cfg)) of
             Inl nw \<Rightarrow> Error (BadDirectNetwork nw)
           | Inr directNets \<Rightarrow>
               (let routes = SetDirectNetworks directNets (NewRoutingTable (id_ID idt));
                    sessions = NewSessionTable (SessionTTL (lib_frac lib) cfg)
                in Return (wireCallbacks lib
                  \<lparr>n_cfg = cfg, n_identity = idt, n_ln = None,
                   n_gossip = NewEngine (id_ID idt) (nc_ListenAddr (cfg_Node cfg)) (copy_array 32 (id_PubKey idt))
                     (gossip_config lib cfg),
                   n_rng = rng,
                   n_prop = NewPropagator routes (id_ID idt) (RouteAdvertisementInterval (lib_frac lib) cfg),
                   n_tcpRelay = NewTCPRelay False, n_udpRelay = NewUDPRelay sessions,
                   n_socks = NewServer (nc_Socks5Addr (cfg_Node cfg)) (id_ID idt),
                   n_udpLn = False, n_udpOut = [], n_directOut = [], n_clientOut = [], n_peerUDPAddrs = Map.empty,
                   n_links = [], n_peerConns = Map.empty, n_reconnecting = {}, n_tasks = [],
                   n_acceptLimiter = newRateLimiter now 10 1000000000,
                   n_healthSrv = (nc_HealthAddr (cfg_Node cfg) \<noteq> []),
                   n_stats = NewStats now, n_cancelled = False\<rparr>))))"

subsection \<open>Sending\<close>

datatype send_error = NotConnected | SendFailed conn_error

definition getPeerConn :: "NodeID \<Rightarrow> Node \<Rightarrow> conn_id option" where
  "getPeerConn peerID n = n_peerConns n (NodeID_String peerID)"

definition sendControlMsg :: "library \<Rightarrow> NodeID \<Rightarrow> bytes \<Rightarrow> Node \<Rightarrow> (send_error, unit) outcome \<times> Node" where
  "sendControlMsg lib peerID msg n =
     (case getPeerConn peerID n of
        None \<Rightarrow> (Error NotConnected, n)
      | Some c \<Rightarrow>
          (let msg = SignMessage (lib_sign lib) msg (id_PrivKey (n_identity n))
           in case control_write c msg n of
                (Panic, n') \<Rightarrow> (Panic, n')
              | (Error e, n') \<Rightarrow> (Error (SendFailed e), n')
              | (Return _, n') \<Rightarrow> (Return (), n')))"

text \<open>What the gossip engine asks for.\<close>

fun engine_act :: "engine_action \<Rightarrow> Node \<Rightarrow> (unit, Node) outcome" where
  "engine_act (ControlWrite c msg) n = logged (control_write c msg n)"
| "engine_act (PeerDiscovered p) n = Return (spawn (ConnectToPeer (pr_ID p) (pr_Addr p)) n)"

fun engine_acts :: "engine_action list \<Rightarrow> Node \<Rightarrow> (unit, Node) outcome" where
  "engine_acts [] n = Return n"
| "engine_acts (a # as) n = go_bind (engine_act a n) (engine_acts as)"

text \<open>What the route propagator asks for; every broadcast iterates over the connections anew.\<close>

fun prop_acts :: "library \<Rightarrow> (nat \<Rightarrow> string list) \<Rightarrow> nat \<Rightarrow> action list \<Rightarrow> Node \<Rightarrow> (unit, Node) outcome" where
  "prop_acts lib orders i [] n = Return n"
| "prop_acts lib orders i (Send peerID msg # as) n =
     go_bind (logged (sendControlMsg lib peerID msg n)) (prop_acts lib orders (i + 1) as)"
| "prop_acts lib orders i (Broadcast msg # as) n =
     go_bind (engine_acts (Broadcast_all (orders i) msg (n_gossip n)) n) (prop_acts lib orders (i + 1) as)"

text \<open>The peers the propagator sends to.\<close>

definition alive_ids :: "string list \<Rightarrow> Node \<Rightarrow> NodeID list" where
  "alive_ids order n = map pr_ID (GetAlive order (e_peers (n_gossip n)))"

text \<open>The UDP relay's callbacks.\<close>

definition udp_send :: "NodeID \<Rightarrow> bytes \<Rightarrow> Node \<Rightarrow> Node" where
  "udp_send peerID data n =
     (case n_peerUDPAddrs n (NodeID_String peerID) of
        None \<Rightarrow> n
      | Some addr \<Rightarrow> if \<not> n_udpLn n then n else n\<lparr>n_udpOut := n_udpOut n @ [(addr, data)]\<rparr>)"

definition udp_deliver :: "UDPSession \<Rightarrow> bytes \<Rightarrow> Node \<Rightarrow> Node" where
  "udp_deliver session data n =
     (if s_ClientAddr session = None then n
      else n\<lparr>n_clientOut := n_clientOut n @ DeliverUDP (s_ID session) data\<rparr>)"

fun relay_acts :: "relay_action list \<Rightarrow> Node \<Rightarrow> Node" where
  "relay_acts [] n = n"
| "relay_acts (SendUDP peerID data # as) n = relay_acts as (udp_send peerID data n)"
| "relay_acts (DeliverLocal session data # as) n = relay_acts as (udp_deliver session data n)"

subsection \<open>Callbacks of the SOCKS5 server\<close>

record streamConn =
  sc_conn :: conn_id
  sc_stream :: nat

definition dial_stream :: "NodeID \<Rightarrow> Node \<Rightarrow> (send_error, streamConn) outcome \<times> Node" where
  "dial_stream peerID n =
     (case getPeerConn (copy_array 16 peerID) n of
        None \<Rightarrow> (Error NotConnected, n)
      | Some c \<Rightarrow>
          (case OpenStream (conn_at n c) of
             (Return s, k) \<Rightarrow> (Return \<lparr>sc_conn = c, sc_stream = s\<rparr>, set_conn c k n)
           | (Error e, k) \<Rightarrow> (Error (SendFailed e), set_conn c k n)
           | (Panic, k) \<Rightarrow> (Panic, set_conn c k n)))"

text \<open>
  The errors of splitting and parsing the target are ignored: the header then has the port zero or
  a nil address.
\<close>

definition forward_header :: "string \<Rightarrow> uint32 \<Rightarrow> bytes" where
  "forward_header target sid =
     (let (host, portStr) = (case SplitHostPort target of None \<Rightarrow> ([], []) | Some hp \<Rightarrow> hp);
          ip = (case ParseIP host of None \<Rightarrow> [] | Some ip \<Rightarrow> ip);
          port = (case Sscanf_uint16 portStr of None \<Rightarrow> 0 | Some p \<Rightarrow> p)
      in EncodeTCPForwardHeader \<lparr>tf_Flags = TCPFlagNewStream, tf_StreamID = sid, tf_TargetAddr = ip, tf_TargetPort = port\<rparr>)"

definition dial_peer :: "NodeID \<Rightarrow> string \<Rightarrow> Node \<Rightarrow> (send_error, streamConn) outcome \<times> Node" where
  "dial_peer peerID target n =
     (case getPeerConn peerID n of
        None \<Rightarrow> (Error NotConnected, n)
      | Some c \<Rightarrow>
          (case OpenStream (conn_at n c) of
             (Error e, k) \<Rightarrow> (Error (SendFailed e), set_conn c k n)
           | (Panic, k) \<Rightarrow> (Panic, set_conn c k n)
           | (Return s, k) \<Rightarrow>
               (case Stream_Write s (forward_header target (sm_id (c_objs k ! s))) k of
                  (Return _, k') \<Rightarrow> (Return \<lparr>sc_conn = c, sc_stream = s\<rparr>, set_conn c k' n)
                | (Error e, k') \<Rightarrow> (Error (SendFailed e), set_conn c (snd (Stream_Close s k')) n)
                | (Panic, k') \<Rightarrow> (Panic, set_conn c k' n))))"

text \<open>The adapter that the SOCKS5 server copies to and from.\<close>

definition streamConn_Read ::
  "nat \<Rightarrow> streamConn \<Rightarrow> Node \<Rightarrow> ((conn_error, bytes) outcome \<times> Node) option" where
  "streamConn_Read k sc n =
     map_option (\<lambda>(res, st). (res, set_conn (sc_conn sc) (upd_stream (sc_stream sc) (\<lambda>_. st) (conn_at n (sc_conn sc))) n))
       (Stream_Read k (c_objs (conn_at n (sc_conn sc)) ! sc_stream sc))"

definition streamConn_Write :: "bytes \<Rightarrow> streamConn \<Rightarrow> Node \<Rightarrow> (conn_error, nat) outcome \<times> Node" where
  "streamConn_Write b sc n =
     (case Stream_Write (sc_stream sc) b (conn_at n (sc_conn sc)) of (res, k) \<Rightarrow> (res, set_conn (sc_conn sc) k n))"

definition streamConn_Close :: "streamConn \<Rightarrow> Node \<Rightarrow> (conn_error, unit) outcome \<times> Node" where
  "streamConn_Close sc n =
     (case Stream_Close (sc_stream sc) (conn_at n (sc_conn sc)) of (res, k) \<Rightarrow> (res, set_conn (sc_conn sc) k n))"

text \<open>A new session is made for every datagram; the identifier the server chose is not used.\<close>

definition udp_forward :: "(nat \<Rightarrow> go_time) \<Rightarrow> NodeID \<Rightarrow> uint32 \<Rightarrow> UDPAddr \<Rightarrow> bytes \<Rightarrow> Node \<Rightarrow> Node" where
  "udp_forward clk nextHop sessionID targetAddr payload n =
     (let (session, r) = CreateSession (clk 0) (clk 1) None (Some targetAddr) nextHop (n_udpRelay n)
      in relay_acts (ForwardToPeer nextHop session payload r) (n\<lparr>n_udpRelay := r\<rparr>))"

definition udp_direct :: "bool \<Rightarrow> UDPAddr \<Rightarrow> bytes \<Rightarrow> Node \<Rightarrow> Node" where
  "udp_direct dial_ok targetAddr payload n =
     (if dial_ok then n\<lparr>n_directOut := n_directOut n @ [(targetAddr, payload)]\<rparr> else n)"

text \<open>The two calls a datagram of a local client can lead to.\<close>

fun socks_udp :: "(nat \<Rightarrow> go_time) \<Rightarrow> bool \<Rightarrow> udp_event \<Rightarrow> Node \<Rightarrow> Node" where
  "socks_udp clk dial_ok (UDPForward hop sid target payload) n = udp_forward clk hop sid target payload n"
| "socks_udp clk dial_ok (UDPDirect target payload) n = udp_direct dial_ok target payload n"
| "socks_udp clk dial_ok (ReplyTCP b) n = n"

subsection \<open>UDP addresses of peers\<close>

definition udpPort :: "Node \<Rightarrow> string" where
  "udpPort n = (case SplitHostPort (nc_ListenAddr (cfg_Node (n_cfg n))) of None \<Rightarrow> ''9443'' | Some (_, port) \<Rightarrow> port)"

definition registerPeerUDPAddr :: "library \<Rightarrow> NodeID \<Rightarrow> string \<Rightarrow> Node \<Rightarrow> Node" where
  "registerPeerUDPAddr lib peerID addr n =
     (case SplitHostPort addr of
        None \<Rightarrow> n
      | Some (host, _) \<Rightarrow>
          (case lib_ResolveUDPAddr lib (JoinHostPort host (udpPort n)) of
             None \<Rightarrow> n
           | Some udpAddr \<Rightarrow> n\<lparr>n_peerUDPAddrs := (n_peerUDPAddrs n)(NodeID_String peerID \<mapsto> udpAddr)\<rparr>))"

text \<open>\<open>net.IP.Equal\<close>: an IPv4 address and its form in sixteen bytes are equal.\<close>

definition IP_Equal :: "IP \<Rightarrow> IP \<Rightarrow> bool" where
  "IP_Equal ip x =
     (if length ip = length x then ip = x
      else if length ip = 4 \<and> length x = 16 then take 12 x = replicate 10 0 @ [255, 255] \<and> ip = drop 12 x
      else if length ip = 16 \<and> length x = 4 then take 12 ip = replicate 10 0 @ [255, 255] \<and> drop 12 ip = x
      else False)"

text \<open>An identifier that cannot be parsed is the zero one.\<close>

definition parsed_id :: "string \<Rightarrow> NodeID" where
  "parsed_id s = (case ParseNodeID s of Return nid \<Rightarrow> nid | _ \<Rightarrow> zero_NodeID)"

definition relay_incoming :: "(nat \<Rightarrow> go_time) \<Rightarrow> NodeID \<Rightarrow> bytes \<Rightarrow> Node \<Rightarrow> (unit, Node) outcome" where
  "relay_incoming clk from data n =
     go_bind (HandleIncoming clk from data (n_udpRelay n)) (\<lambda>(r, acts). Return (relay_acts acts (n\<lparr>n_udpRelay := r\<rparr>)))"

text \<open>
  One datagram in the loop that reads the UDP socket. \<open>order\<close> and \<open>order'\<close> are the iteration orders
  of the addresses and of the connections.
\<close>

definition udp_datagram ::
  "(nat \<Rightarrow> go_time) \<Rightarrow> string list \<Rightarrow> string list \<Rightarrow> UDPAddr \<Rightarrow> bytes \<Rightarrow> Node \<Rightarrow> (unit, Node) outcome" where
  "udp_datagram clk order order' remote data n =
     (case find (\<lambda>key. case n_peerUDPAddrs n key of None \<Rightarrow> False
            | Some addr \<Rightarrow> IP_Equal (addr_IP addr) (addr_IP remote) \<and> addr_Port addr = addr_Port remote) order of
        Some key \<Rightarrow> relay_incoming clk (parsed_id key) data n
      | None \<Rightarrow>
          (case find (\<lambda>key. case n_peerConns n key of None \<Rightarrow> False
                 | Some c \<Rightarrow> (case SplitHostPort (remote_of n c) of None \<Rightarrow> [] | Some (host, _) \<Rightarrow> host) =
                     IP_String (addr_IP remote)) order' of
             Some key \<Rightarrow> relay_incoming clk (parsed_id key) data
               (n\<lparr>n_peerUDPAddrs := (n_peerUDPAddrs n)(key \<mapsto> remote)\<rparr>)
           | None \<Rightarrow> Return n))"

subsection \<open>Control messages\<close>

definition buildSelfGossipPush :: "string list \<Rightarrow> Node \<Rightarrow> bytes" where
  "buildSelfGossipPush order n =
     EncodeGossipPush \<lparr>gp_Peers =
       \<lparr>pe_ID = copy_array 16 (id_ID (n_identity n)), pe_PubKey = copy_array 32 (id_PubKey (n_identity n)),
        pe_State = PeerAlive, pe_Version = 1, pe_Addr = nc_ListenAddr (cfg_Node (n_cfg n))\<rparr> #
       map (\<lambda>p. \<lparr>pe_ID = copy_array 16 (pr_ID p),
                 pe_PubKey = (if length (pr_PubKey p) = 32 then copy_array 32 (pr_PubKey p) else replicate 32 0),
                 pe_State = pr_State p, pe_Version = pr_Version p, pe_Addr = pr_Addr p\<rparr>)
         (GetAll order (e_peers (n_gossip n)))\<rparr>"

text \<open>The peer a first message comes from: the sender's own entry leads its push. Zero when unknown.\<close>

definition first_peer :: "bytes \<Rightarrow> (unit, NodeID) outcome" where
  "first_peer data =
     (if data \<noteq> [] \<and> hd data = MsgGossipPush then
        (case DecodeGossipPush data of
           Panic \<Rightarrow> Panic
         | Error _ \<Rightarrow> Return zero_NodeID
         | Return msg \<Rightarrow> Return (case gp_Peers msg of [] \<Rightarrow> zero_NodeID | entry # _ \<Rightarrow> copy_array 16 (pe_ID entry)))
      else Return zero_NodeID)"

text \<open>What is left of a message after the check of its signature; \<open>None\<close> when it is dropped.\<close>

definition verified_msg :: "library \<Rightarrow> NodeID \<Rightarrow> bytes \<Rightarrow> Node \<Rightarrow> (unit, bytes option) outcome" where
  "verified_msg lib from data n =
     (case PeerManager_Get from (e_peers (n_gossip n)) of
        None \<Rightarrow> Return (Some data)
      | Some peer \<Rightarrow>
          if length (pr_PubKey peer) > 0 then
            (case VerifyMessage (lib_verify lib) data (pr_PubKey peer) of
               Panic \<Rightarrow> Panic
             | Error _ \<Rightarrow> Return None
             | Return verified \<Rightarrow> Return (Some verified))
          else Return (Some data))"

definition handle_route :: "library \<Rightarrow> env \<Rightarrow> NodeID \<Rightarrow> bytes \<Rightarrow> Node \<Rightarrow> (unit, Node) outcome" where
  "handle_route lib env from data n =
     go_bind (HandleRouteUpdate (alive_ids (en_peers env 1) n) (en_clk env 0) (en_clk env 1) from data (n_prop n))
       (\<lambda>(p, acts). prop_acts lib (en_conns env) 0 acts (n\<lparr>n_prop := p\<rparr>))"

text \<open>The gossip engine sees every message first.\<close>

definition handle_verified :: "library \<Rightarrow> env \<Rightarrow> NodeID \<Rightarrow> bytes \<Rightarrow> Node \<Rightarrow> (unit, Node) outcome" where
  "handle_verified lib env from data n =
     go_bind (HandleMessage (en_clk env) (en_peers env 0) from data (n_gossip n)) (\<lambda>(handled, e, acts).
     go_bind (engine_acts acts (n\<lparr>n_gossip := e\<rparr>)) (\<lambda>n.
       if handled then Return n
       else go_bind (index_at data 0) (\<lambda>t.
         if t = MsgRouteUpdate then handle_route lib env from data n
         else if t = MsgTCPForward then Return n
         else if t = MsgUDPForward then relay_incoming (en_clk env) from data n
         else Return n)))"

definition dispatchControlMsg :: "library \<Rightarrow> env \<Rightarrow> NodeID \<Rightarrow> bytes \<Rightarrow> Node \<Rightarrow> (unit, Node) outcome" where
  "dispatchControlMsg lib env from data n =
     (if length data = 0 then Return n
      else go_bind (verified_msg lib from data n) (\<lambda>msg. case msg of
        None \<Rightarrow> Return n
      | Some data \<Rightarrow> handle_verified lib env from data n))"

end
