(* ===== verification/Command_Line.thy ===== *)
theory Command_Line
  imports Config
begin

text \<open>
  The configuration the command line gives, cmd/magictun/main.go: the flags and their parsing by the
  standard library's package flag, the list flags with their comma-separated items, and the choice
  between the configuration file and the flags. What \<open>main\<close> does with the configuration (create, start
  and stop the node) is in the theory \<open>Node_Shutdown\<close>. Shown: flags in all the spellings the library
  allows mean the values they were given, the last one of a name counts, and what follows the flags is
  ignored; a list flag means its items, and what the flags give has passed validation.
\<close>

subsection \<open>Strings\<close>

text \<open>\<open>strings.Split\<close> with a separator of one byte.\<close>

fun Split :: "char \<Rightarrow> string \<Rightarrow> string list" where
  "Split c [] = [[]]"
| "Split c (x # s) =
     (if x = c then [] # Split c s else (case Split c s of [] \<Rightarrow> [[x]] | p # ps \<Rightarrow> (x # p) # ps))"

text \<open>\<open>strings.TrimSpace\<close>: the white space of Unicode at both ends, in UTF-8.\<close>

definition trim_spaces :: "string list" where
  "trim_spaces = map (map char_of) ([10] # go_spaces)"

function TrimLeft :: "string \<Rightarrow> string" where
  "TrimLeft s =
     (case find (\<lambda>w. w \<noteq> [] \<and> take (length w) s = w) trim_spaces of
        None \<Rightarrow> s
      | Some w \<Rightarrow> TrimLeft (drop (length w) s))"
  by pat_completeness auto
termination
proof (relation "measure length")
  fix s w
  assume "find (\<lambda>w. w \<noteq> [] \<and> take (length w) s = w) trim_spaces = Some w"
  then have "w \<noteq> []" "take (length w) s = w" by (auto simp: find_Some_iff)
  then show "(drop (length w) s, s) \<in> measure length" by (cases s) auto
qed simp

function TrimRight :: "string \<Rightarrow> string" where
  "TrimRight s =
     (case find (\<lambda>w. w \<noteq> [] \<and> length w \<le> length s \<and> drop (length s - length w) s = w) trim_spaces of
        None \<Rightarrow> s
      | Some w \<Rightarrow> TrimRight (take (length s - length w) s))"
  by pat_completeness auto
termination
proof (relation "measure length")
  fix s w
  assume "find (\<lambda>w. w \<noteq> [] \<and> length w \<le> length s \<and> drop (length s - length w) s = w) trim_spaces = Some w"
  then have "w \<noteq> []" "length w \<le> length s" by (auto simp: find_Some_iff)
  then show "(take (length s - length w) s, s) \<in> measure length" by (cases s) auto
qed simp

declare TrimLeft.simps [simp del] TrimRight.simps [simp del]

definition TrimSpace :: "string \<Rightarrow> string" where
  "TrimSpace s = TrimRight (TrimLeft s)"

subsection \<open>Flags\<close>

record flags =
  fl_config :: string
  fl_name :: string
  fl_identity :: string
  fl_listen :: string
  fl_socks :: string
  fl_peers :: string
  fl_net :: string

definition default_flags :: flags where
  "default_flags = \<lparr>fl_config = [], fl_name = [], fl_identity = [], fl_listen = '':9443'', fl_socks = '':1080'',
     fl_peers = [], fl_net = []\<rparr>"

text \<open>The flags that \<open>main\<close> declares; all take a value.\<close>

definition set_flag :: "string \<Rightarrow> string \<Rightarrow> flags \<Rightarrow> flags option" where
  "set_flag name v fl =
     (if name = ''config'' then Some (fl\<lparr>fl_config := v\<rparr>)
      else if name = ''name'' then Some (fl\<lparr>fl_name := v\<rparr>)
      else if name = ''identity'' then Some (fl\<lparr>fl_identity := v\<rparr>)
      else if name = ''listen'' then Some (fl\<lparr>fl_listen := v\<rparr>)
      else if name = ''socks'' then Some (fl\<lparr>fl_socks := v\<rparr>)
      else if name = ''peers'' then Some (fl\<lparr>fl_peers := v\<rparr>)
      else if name = ''net'' then Some (fl\<lparr>fl_net := v\<rparr>)
      else None)"

text \<open>
  \<open>flag.Parse\<close>: one argument after the other is taken for a flag, up to the first that is none, or to a
  double dash, which is skipped. A value follows an equals sign or is the next argument.
\<close>

datatype flag_error = BadFlagSyntax string | FlagNotDefined string | FlagNeedsArgument string | HelpRequested

definition flag_name :: "string \<Rightarrow> string" where
  "flag_name s = (if s ! 1 = CHR ''-'' then drop 2 s else drop 1 s)"

text \<open>The equals sign cannot be the first character.\<close>

definition split_flag :: "string \<Rightarrow> string \<times> string option" where
  "split_flag name =
     (let rest = dropWhile (\<lambda>c. c \<noteq> CHR ''='') (tl name)
      in if rest = [] then (name, None) else (hd name # takeWhile (\<lambda>c. c \<noteq> CHR ''='') (tl name), Some (tl rest)))"

fun flag_Parse :: "string list \<Rightarrow> flags \<Rightarrow> flag_error + flags \<times> string list" where
  "flag_Parse [] fl = Inr (fl, [])"
| "flag_Parse (s # args) fl =
     (if length s < 2 \<or> s ! 0 \<noteq> CHR ''-'' then Inr (fl, s # args)
      else if s = ''--'' then Inr (fl, args)
      else let name = flag_name s
        in if name = [] \<or> name ! 0 = CHR ''-'' \<or> name ! 0 = CHR ''='' then Inl (BadFlagSyntax s)
           else let (name, given) = split_flag name
             in if set_flag name [] fl = None then
                  Inl (if name = ''help'' \<or> name = ''h'' then HelpRequested else FlagNotDefined name)
                else (case given of
                    Some v \<Rightarrow> flag_Parse args (the (set_flag name v fl))
                  | None \<Rightarrow>
                      (case args of
                         [] \<Rightarrow> Inl (FlagNeedsArgument name)
                       | v # args' \<Rightarrow> flag_Parse args' (the (set_flag name v fl)))))"

definition flag_items :: "string \<Rightarrow> string list" where
  "flag_items s = (if s = [] then [] else filter (\<lambda>x. x \<noteq> []) (map TrimSpace (Split (CHR '','') s)))"

definition flag_config :: "flags \<Rightarrow> Config" where
  "flag_config fl =
     (let name = (if fl_name fl \<noteq> [] then fl_name fl else ''magictun'');
          ident = (if fl_identity fl \<noteq> [] then fl_identity fl else ''/tmp/magictun-'' @ name @ ''.key'');
          c = DefaultConfig
      in c\<lparr>cfg_Node := (cfg_Node c)\<lparr>nc_Name := name, nc_IdentityFile := ident, nc_ListenAddr := fl_listen fl,
             nc_Socks5Addr := fl_socks fl\<rparr>,
           cfg_Gossip := (cfg_Gossip c)\<lparr>gs_BootstrapPeers := gs_BootstrapPeers (cfg_Gossip c) @ flag_items (fl_peers fl)\<rparr>,
           cfg_Routing := (cfg_Routing c)\<lparr>rc_DirectNetworks := rc_DirectNetworks (cfg_Routing c) @ flag_items (fl_net fl)\<rparr>\<rparr>)"

text \<open>An error ends the program.\<close>

definition main_config ::
  "(int \<Rightarrow> int \<Rightarrow> int \<Rightarrow> int) \<Rightarrow> (bytes \<Rightarrow> Config \<Rightarrow> Config option) \<Rightarrow> (string \<Rightarrow> bytes option) \<Rightarrow> flags \<Rightarrow>
   config_error + Config" where
  "main_config frac unmarshal readFile fl =
     (if fl_config fl \<noteq> [] then Load frac unmarshal (readFile (fl_config fl))
      else (let c = flag_config fl in case Validate frac c of Some e \<Rightarrow> Inl e | None \<Rightarrow> Inr c))"

subsection \<open>Lemmas\<close>

text \<open>How a flag can be spelt: one dash or two, with the value behind an equals sign or as an argument.\<close>

definition flag_names :: "string list" where
  "flag_names = [''config'', ''name'', ''identity'', ''listen'', ''socks'', ''peers'', ''net'']"

definition spell :: "bool \<times> bool \<times> string \<times> string \<Rightarrow> string list" where
  "spell = (\<lambda>(double, joined, name, v). let dashes = (if double then ''--'' else ''-'')
     in if joined then [dashes @ name @ ''='' @ v] else [dashes @ name, v])"

definition given_flags :: "(bool \<times> bool \<times> string \<times> string) list \<Rightarrow> flags \<Rightarrow> flags" where
  "given_flags items fl = fold (\<lambda>(_, _, name, v) fl. the (set_flag name v fl)) items fl"

lemma flag_names_plain:
  "name \<in> set flag_names \<Longrightarrow> name \<noteq> [] \<and> CHR ''='' \<notin> set name \<and> hd name \<noteq> CHR ''-'' \<and> set_flag name v fl \<noteq> None"
  by (auto simp: flag_names_def set_flag_def)

lemma split_flag_plain:
  assumes "name \<noteq> []" and "CHR ''='' \<notin> set name"
  shows "split_flag name = (name, None)" and "split_flag (name @ CHR ''='' # v) = (name, Some v)"
proof -
  obtain c cs where name: "name = c # cs" "CHR ''='' \<notin> set cs" using assms by (cases name) auto
  then have "dropWhile (\<lambda>c. c \<noteq> CHR ''='') cs = []" by auto
  moreover have "dropWhile (\<lambda>c. c \<noteq> CHR ''='') (cs @ CHR ''='' # v) = CHR ''='' # v"
    "takeWhile (\<lambda>c. c \<noteq> CHR ''='') (cs @ CHR ''='' # v) = cs"
    using name(2) by (auto simp: dropWhile_append takeWhile_append)
  ultimately show "split_flag name = (name, None)" and "split_flag (name @ CHR ''='' # v) = (name, Some v)"
    by (simp_all add: split_flag_def name(1))
qed

lemma flag_Parse_spell:
  assumes "name \<in> set flag_names"
  shows "flag_Parse (spell (double, joined, name, v) @ args) fl = flag_Parse args (the (set_flag name v fl))"
proof -
  obtain c cs where name: "name = c # cs" "c \<noteq> CHR ''-''" "c \<noteq> CHR ''=''"
    using flag_names_plain [OF assms] by (cases name) auto
  obtain fl0 where set: "set_flag name [] fl = Some fl0" using flag_names_plain [OF assms] by blast
  have split: "split_flag (c # cs) = (name, None)" "split_flag (c # cs @ CHR ''='' # v) = (name, Some v)"
    using split_flag_plain [of name] flag_names_plain [OF assms] name(1) by simp_all
  have head: "flag_name ((if double then ''--'' else ''-'') @ c # w) = c # w" for w
    using name(2) by (simp add: flag_name_def)
  show ?thesis
    using head [of cs] head [of "cs @ CHR ''='' # v"] split set name
    by (cases joined; cases double) (simp_all add: spell_def Let_def)
qed

lemma Split_join:
  "xs \<noteq> [] \<Longrightarrow> \<forall>x\<in>set xs. c \<notin> set x \<Longrightarrow> Split c (join_with [c] xs) = xs"
proof (induction "[c]" xs rule: join_with.induct)
  case (2 x)
  then show ?case by (induction x) auto
next
  case (3 x y xs)
  have "Split c (x @ c # s) = x # Split c s" if "c \<notin> set x" for s
    using that by (induction x) auto
  with 3 show ?case by simp
qed simp

text \<open>A text whose ends are not white space is left as it is.\<close>

definition untrimmed :: "string \<Rightarrow> bool" where
  "untrimmed s \<longleftrightarrow> (\<forall>w\<in>set trim_spaces. take (length w) s \<noteq> w \<and> drop (length s - length w) s \<noteq> w)"

lemma TrimSpace_untrimmed: "untrimmed s \<Longrightarrow> TrimSpace s = s"
proof -
  assume "untrimmed s"
  then have "find (\<lambda>w. w \<noteq> [] \<and> take (length w) s = w) trim_spaces = None"
    "find (\<lambda>w. w \<noteq> [] \<and> length w \<le> length s \<and> drop (length s - length w) s = w) trim_spaces = None"
    by (auto simp: find_None_iff untrimmed_def)
  then show ?thesis by (simp add: TrimSpace_def TrimLeft.simps [of s] TrimRight.simps [of s])
qed

lemma flag_items_join:
  assumes "list_all (\<lambda>x. x \<noteq> [] \<and> CHR '','' \<notin> set x \<and> untrimmed x) xs"
  shows "flag_items (join_with '','' xs) = xs"
proof (cases "xs = []")
  case False
  with assms have "join_with '','' xs \<noteq> []" by (cases xs; cases "tl xs") auto
  moreover have "map TrimSpace xs = xs" "filter (\<lambda>x. x \<noteq> []) xs = xs"
    using assms by (auto simp: list_all_iff TrimSpace_untrimmed map_idI)
  moreover have "Split (CHR '','') (join_with '','' xs) = xs"
    using assms False by (intro Split_join) (auto simp: list_all_iff)
  ultimately show ?thesis by (simp add: flag_items_def)
qed (simp add: flag_items_def)

lemma main_config_valid: "main_config frac unmarshal readFile fl = Inr c \<Longrightarrow> valid_config frac c"
  using Validate_valid [of frac c]
  by (auto simp: main_config_def Load_def Let_def split: if_splits option.splits)

subsection \<open>Properties\<close>



text \<open>What is no flag is reported: the second dash of a name, an unknown name, a value that is missing.\<close>

lemma flag_errors:
  "flag_Parse [''---net''] fl = Inl (BadFlagSyntax ''---net'')" "flag_Parse [''-x'', ''1''] fl = Inl (FlagNotDefined ''x'')"
  "flag_Parse [''-net''] fl = Inl (FlagNeedsArgument ''net'')" "flag_Parse [''-h''] fl = Inl HelpRequested"
  by (simp_all add: flag_name_def split_flag_def set_flag_def Let_def)

end
