(* ===== verification/Node_Run.thy ===== *)
theory Node_Run
  imports Node Command_Line
begin

text \<open>
  The goroutines of the node, node/node.go, and the loops it starts in the gossip engine and the
  route propagator. A goroutine is a task; a step takes one of the waiting tasks and runs it from
  the point where it waits (a read, a dial, a timer) to the next such point, where it is put back,
  together with the goroutines it started (\<open>run\<close>). A task that cannot go on has no step. Writes
  do not wait. Between the steps of tasks, connections and the listener take their own steps and
  the SOCKS5 server calls into the node (\<open>node_step\<close>): the relation admits more than the program
  does, since any goroutine may use any stream and iteration orders over the peers are not tied
  to the map, so what holds in all reachable states holds in the program.

  The counters of attempts only choose what is logged and are left out. The wait group, which delays the
  end of the program, is in the theory \<open>Node_Shutdown\<close>.
\<close>

subsection \<open>Work on a connection\<close>

text \<open>\<open>gossipEng.AddDirectConnection\<close>, \<open>propagator.AdvertiseDirectNetworks\<close> and \<open>propagator.WithdrawAllFromPeer\<close>\<close>

definition add_direct :: "env \<Rightarrow> NodeID \<Rightarrow> conn_id \<Rightarrow> Node \<Rightarrow> (unit, Node) outcome" where
  "add_direct env peerID c n =
     (let (e, acts) = AddDirectConnection (en_clk env 0) (en_peers env 1) (remote_of n) peerID c (n_gossip n)
      in engine_acts acts (n\<lparr>n_gossip := e\<rparr>))"

definition advertise :: "library \<Rightarrow> env \<Rightarrow> Node \<Rightarrow> (unit, Node) outcome" where
  "advertise lib env n =
     (let (p, acts) = AdvertiseDirectNetworks (\<lambda>i. en_clk env (i + 1)) (n_prop n)
      in prop_acts lib (en_conns env) 0 acts (n\<lparr>n_prop := p\<rparr>))"

definition withdraw_from :: "library \<Rightarrow> env \<Rightarrow> NodeID \<Rightarrow> Node \<Rightarrow> (unit, Node) outcome" where
  "withdraw_from lib env peerID n =
     (let (p, acts) = WithdrawAllFromPeer (en_routes env 0) (en_routes env 1) peerID (n_prop n)
      in prop_acts lib (en_conns env) 0 acts (n\<lparr>n_prop := p\<rparr>))"

text \<open>The callback for a peer's death, which the gossip engine keeps and never calls.\<close>

definition on_peer_dead :: "library \<Rightarrow> env \<Rightarrow> NodeID \<Rightarrow> Node \<Rightarrow> (unit, Node) outcome" where
  "on_peer_dead lib env peerID n =
     go_bind (withdraw_from lib env peerID n) (\<lambda>n.
       case n_peerConns n (NodeID_String peerID) of
         None \<Rightarrow> Return n
       | Some c \<Rightarrow> Return ((close_conn c n)\<lparr>n_peerConns := (n_peerConns n)(NodeID_String peerID := None)\<rparr>))"

text \<open>The connection under a peer's name when it is not closed.\<close>

definition live_conn :: "NodeID \<Rightarrow> Node \<Rightarrow> conn_id option" where
  "live_conn peerID n =
     (case getPeerConn peerID n of None \<Rightarrow> None | Some c \<Rightarrow> if IsClosed (conn_at n c) then None else Some c)"

definition store_conn :: "NodeID \<Rightarrow> conn_id \<Rightarrow> Node \<Rightarrow> Node" where
  "store_conn peerID c n = n\<lparr>n_peerConns := (n_peerConns n)(NodeID_String peerID \<mapsto> c)\<rparr>"

text \<open>
  Starting to read control messages: the initial message is handled, then the goroutine waits. With
  \<open>mark\<close> the goroutine is a reconnect manager and holds that mark; otherwise it starts one when
  the connection is lost.
\<close>

definition handleControlMessages ::
  "library \<Rightarrow> env \<Rightarrow> NodeID \<Rightarrow> conn_id \<Rightarrow> bytes option \<Rightarrow> string option \<Rightarrow> Node \<Rightarrow> (unit, Node) outcome" where
  "handleControlMessages lib env peerID c initialData mark n =
     go_bind (case initialData of None \<Rightarrow> Return n | Some data \<Rightarrow> dispatchControlMsg lib env peerID data n) (\<lambda>n.
       case ControlStream (conn_at n c) of
         None \<Rightarrow> Panic
       | Some s \<Rightarrow> Return (spawn (ControlLoop peerID c s mark) n))"

text \<open>What follows once a dialled connection is stored, in \<open>connectToPeer\<close> and in \<open>reconnectPeer\<close>.\<close>

definition announce :: "library \<Rightarrow> env \<Rightarrow> NodeID \<Rightarrow> string \<Rightarrow> conn_id \<Rightarrow> string option \<Rightarrow> Node \<Rightarrow> (unit, Node) outcome" where
  "announce lib env peerID addr c mark n =
     (let n = registerPeerUDPAddr lib peerID addr n
      in go_bind (logged (control_write c (buildSelfGossipPush (en_peers env 0) n) n)) (\<lambda>n.
         go_bind (add_direct env peerID c n) (\<lambda>n.
         go_bind (advertise lib env n) (\<lambda>n.
         handleControlMessages lib env peerID c None mark (spawn (StreamLoop peerID c) n)))))"

text \<open>A dial without a pin store, which needs no hash.\<close>

definition node_dial :: "env \<Rightarrow> string \<Rightarrow> (dial_error, Conn) outcome" where
  "node_dial env addr = fst (Transport_Dial (\<lambda>b. b) True addr (en_dial env) None)"

subsection \<open>Connecting\<close>

definition connectToPeer :: "NodeID \<Rightarrow> string \<Rightarrow> Node \<Rightarrow> Node" where
  "connectToPeer peerID addr n =
     (if n_peerConns n (NodeID_String peerID) \<noteq> None then n
      else (let (ok, n) = tryMarkDialing addr n in if ok then spawn (Dialling peerID addr) n else n))"

definition connect_dialled :: "library \<Rightarrow> env \<Rightarrow> NodeID \<Rightarrow> string \<Rightarrow> Node \<Rightarrow> (unit, Node) outcome" where
  "connect_dialled lib env peerID addr n =
     (case node_dial env addr of
        Panic \<Rightarrow> Panic
      | Error _ \<Rightarrow> Return (spawn (ReconnectPeer peerID) (unmarkDialing addr n))
      | Return k \<Rightarrow>
          (let (c, n) = add_link k (en_remote env) (unmarkDialing addr n)
           in if n_peerConns n (NodeID_String peerID) \<noteq> None then Return (close_conn c n)
              else announce lib env peerID addr c None (store_conn peerID c n)))"

subsection \<open>Reconnecting\<close>

definition second :: duration where "second = 1000000000"

text \<open>The head of the loop in \<open>reconnectPeer\<close>; returning takes the mark away.\<close>

definition reconnect_head :: "NodeID \<Rightarrow> string \<Rightarrow> duration \<Rightarrow> Node \<Rightarrow> Node" where
  "reconnect_head peerID mark backoff n =
     (if n_cancelled n then unmarkDialing mark n
      else (case PeerManager_Get peerID (e_peers (n_gossip n)) of
        None \<Rightarrow> unmarkDialing mark n
      | Some p \<Rightarrow>
          if pr_Addr p = [] then unmarkDialing mark n
          else if live_conn peerID n \<noteq> None then unmarkDialing mark n
          else spawn (Reconnecting peerID mark (pr_Addr p) backoff) n))"

definition reconnectPeer :: "NodeID \<Rightarrow> Node \<Rightarrow> Node" where
  "reconnectPeer peerID n =
     (case PeerManager_Get peerID (e_peers (n_gossip n)) of
        None \<Rightarrow> n
      | Some p \<Rightarrow>
          if pr_Addr p = [] then n
          else (let (ok, n) = tryMarkDialing (pr_Addr p) n
                in if ok then reconnect_head peerID (pr_Addr p) (1 * second) n else n))"

definition reconnect_dialled ::
  "library \<Rightarrow> env \<Rightarrow> NodeID \<Rightarrow> string \<Rightarrow> string \<Rightarrow> duration \<Rightarrow> Node \<Rightarrow> (unit, Node) outcome" where
  "reconnect_dialled lib env peerID mark addr backoff n =
     (case node_dial env addr of
        Panic \<Rightarrow> Panic
      | Error _ \<Rightarrow> Return (spawn (ReconnectSleep peerID mark backoff (jitterDuration (en_rnd env) backoff) (en_clk env 0)) n)
      | Return k \<Rightarrow>
          (let (c, n) = add_link k (en_remote env) n
           in if live_conn peerID n \<noteq> None then Return (unmarkDialing mark (close_conn c n))
              else announce lib env peerID addr c (Some mark) (store_conn peerID c n)))"

definition reconnect_slept ::
  "env \<Rightarrow> NodeID \<Rightarrow> string \<Rightarrow> duration \<Rightarrow> duration \<Rightarrow> go_time \<Rightarrow> Node \<Rightarrow> Node option" where
  "reconnect_slept env peerID mark backoff delay started n =
     map_option (\<lambda>slept. if slept then reconnect_head peerID mark (next_backoff (60 * second) backoff) n
                          else unmarkDialing mark n)
       (sleepWithContext (n_cancelled n) (en_pick env) delay (en_clk env 0 - started))"

text \<open>
  The loop that reads control messages. When the connection is lost, a reconnect manager goes back
  to the head of its loop with the first backoff.
\<close>

definition connection_lost :: "library \<Rightarrow> env \<Rightarrow> NodeID \<Rightarrow> conn_id \<Rightarrow> string option \<Rightarrow> Node \<Rightarrow> (unit, Node) outcome" where
  "connection_lost lib env peerID c mark n =
     (let n = n\<lparr>n_peerConns := (n_peerConns n)(NodeID_String peerID := None)\<rparr>;
          n = close_conn c n;
          n = n\<lparr>n_gossip := RemoveDirectConnection peerID (n_gossip n)\<rparr>;
          n = n\<lparr>n_gossip := (n_gossip n)\<lparr>e_peers := MarkDead peerID (e_peers (n_gossip n))\<rparr>\<rparr>
      in go_bind (withdraw_from lib env peerID n) (\<lambda>n.
           Return (case mark of
               None \<Rightarrow> spawn (ReconnectPeer peerID) n
             | Some m \<Rightarrow> reconnect_head peerID m (1 * second) n)))"

definition control_read ::
  "library \<Rightarrow> env \<Rightarrow> NodeID \<Rightarrow> conn_id \<Rightarrow> nat \<Rightarrow> string option \<Rightarrow> Node \<Rightarrow> (unit, Node) outcome option" where
  "control_read lib env peerID c s mark n =
     (case streamConn_Read 65536 \<lparr>sc_conn = c, sc_stream = s\<rparr> n of
        None \<Rightarrow> None
      | Some (Panic, n) \<Rightarrow> Some Panic
      | Some (Error _, n) \<Rightarrow> Some (connection_lost lib env peerID c mark n)
      | Some (Return data, n) \<Rightarrow>
          Some (go_bind (dispatchControlMsg lib env peerID data n) (\<lambda>n. Return (spawn (ControlLoop peerID c s mark) n))))"

subsection \<open>Accepting\<close>

definition acceptLoop :: "env \<Rightarrow> Node \<Rightarrow> Node option" where
  "acceptLoop env n =
     (case n_ln n of
        None \<Rightarrow> None
      | Some l \<Rightarrow>
          (case Listener_Accept (en_pick env) l of
             None \<Rightarrow> None
           | Some (Return k, l') \<Rightarrow>
               (let (c, n) = add_link k (en_remote env) (n\<lparr>n_ln := Some l'\<rparr>);
                    (ok, limiter) = allow (en_clk env 0) (n_acceptLimiter n);
                    n = n\<lparr>n_acceptLimiter := limiter\<rparr>
                in Some (spawn AcceptLoop (if ok then spawn (IncomingConn c) n else close_conn c n)))
           | Some (_, l') \<Rightarrow>
               (let n = n\<lparr>n_ln := Some l'\<rparr> in Some (if n_cancelled n then n else spawn AcceptLoop n))))"

text \<open>\<open>handleIncomingConn\<close>, up to its first read and from there on.\<close>

definition handleIncomingConn :: "conn_id \<Rightarrow> Node \<Rightarrow> (unit, Node) outcome" where
  "handleIncomingConn c n =
     (case ControlStream (conn_at n c) of None \<Rightarrow> Panic | Some s \<Rightarrow> Return (spawn (IncomingRead c s) n))"

definition incoming_read :: "library \<Rightarrow> env \<Rightarrow> conn_id \<Rightarrow> nat \<Rightarrow> Node \<Rightarrow> (unit, Node) outcome option" where
  "incoming_read lib env c s n =
     (case streamConn_Read 65536 \<lparr>sc_conn = c, sc_stream = s\<rparr> n of
        None \<Rightarrow> None
      | Some (Panic, n) \<Rightarrow> Some Panic
      | Some (Error _, n) \<Rightarrow> Some (Return (close_conn c n))
      | Some (Return data, n) \<Rightarrow>
          Some (go_bind (first_peer data) (\<lambda>peerID.
            if NodeID_IsZero peerID then Return (close_conn c n)
            else go_bind (add_direct env peerID c
                    (registerPeerUDPAddr lib peerID (remote_of n c) (store_conn peerID c n))) (\<lambda>n.
              handleControlMessages lib (env_shift 2 env) peerID c (Some data) None (spawn (StreamLoop peerID c) n)))))"

subsection \<open>Bootstrapping\<close>

definition bootstrap :: "Node \<Rightarrow> Node" where
  "bootstrap n = fold (\<lambda>addr n. spawn (BootstrapPeer addr) n) (gs_BootstrapPeers (cfg_Gossip (n_cfg n))) n"

definition bootstrap_head :: "string \<Rightarrow> duration \<Rightarrow> Node \<Rightarrow> Node" where
  "bootstrap_head addr backoff n = (if n_cancelled n then n else spawn (BootstrapDial addr backoff) n)"

text \<open>\<open>bootstrapPeer\<close> starts with the first backoff.\<close>

definition bootstrapPeer :: "string \<Rightarrow> Node \<Rightarrow> Node" where
  [simp]: "bootstrapPeer addr n = bootstrap_head addr (1 * second) n"

definition bootstrap_retry :: "env \<Rightarrow> string \<Rightarrow> duration \<Rightarrow> Node \<Rightarrow> Node" where
  "bootstrap_retry env addr backoff n =
     spawn (BootstrapSleep addr backoff (jitterDuration (en_rnd env) backoff) (en_clk env 0)) n"

definition bootstrap_slept :: "env \<Rightarrow> string \<Rightarrow> duration \<Rightarrow> duration \<Rightarrow> go_time \<Rightarrow> Node \<Rightarrow> Node option" where
  "bootstrap_slept env addr backoff delay started n =
     map_option (\<lambda>slept. if slept then bootstrap_head addr (next_backoff (30 * second) backoff) n else n)
       (sleepWithContext (n_cancelled n) (en_pick env) delay (en_clk env 0 - started))"

definition bootstrap_dialled :: "env \<Rightarrow> string \<Rightarrow> duration \<Rightarrow> Node \<Rightarrow> (unit, Node) outcome" where
  "bootstrap_dialled env addr backoff n =
     (case node_dial env addr of
        Panic \<Rightarrow> Panic
      | Error _ \<Rightarrow> Return (bootstrap_retry env addr backoff n)
      | Return k \<Rightarrow>
          (let (c, n) = add_link k (en_remote env) n
           in case ControlStream (conn_at n c) of
                None \<Rightarrow> Panic
              | Some s \<Rightarrow>
                  go_bind (logged (streamConn_Write (buildSelfGossipPush (en_peers env 0) n) \<lparr>sc_conn = c, sc_stream = s\<rparr> n))
                    (\<lambda>n. Return (spawn (BootstrapRead addr c s backoff) n))))"

definition bootstrap_read ::
  "library \<Rightarrow> env \<Rightarrow> string \<Rightarrow> conn_id \<Rightarrow> nat \<Rightarrow> duration \<Rightarrow> Node \<Rightarrow> (unit, Node) outcome option" where
  "bootstrap_read lib env addr c s backoff n =
     (case streamConn_Read 65536 \<lparr>sc_conn = c, sc_stream = s\<rparr> n of
        None \<Rightarrow> None
      | Some (Panic, n) \<Rightarrow> Some Panic
      | Some (Error _, n) \<Rightarrow> Some (Return (bootstrap_retry env addr backoff (close_conn c n)))
      | Some (Return data, n) \<Rightarrow>
          Some (go_bind (first_peer data) (\<lambda>peerID.
            if NodeID_IsZero peerID then Return (bootstrap_retry env addr backoff (close_conn c n))
            else if live_conn peerID n \<noteq> None then Return (close_conn c n)
            else go_bind (add_direct env peerID c (store_conn peerID c n)) (\<lambda>n.
              handleControlMessages lib (env_shift 2 env) peerID c (Some data) None
                (spawn (StreamLoop peerID c) (registerPeerUDPAddr lib peerID addr n))))))"

subsection \<open>Streams and datagrams\<close>

definition handleIncomingStreams :: "env \<Rightarrow> NodeID \<Rightarrow> conn_id \<Rightarrow> Node \<Rightarrow> Node option" where
  "handleIncomingStreams env peerID c n =
     (case AcceptStream (en_pick env) (conn_at n c) of
        None \<Rightarrow> None
      | Some (Return s, k) \<Rightarrow> Some (spawn (StreamLoop peerID c) (spawn (RelayStream peerID c s) (set_conn c k n)))
      | Some (_, k) \<Rightarrow> Some (set_conn c k n))"

text \<open>
  The relay of a stream up to the point where both directions are copied; the copying itself is
  \<open>splice_step\<close>.
\<close>

definition relay_stream :: "env \<Rightarrow> conn_id \<Rightarrow> nat \<Rightarrow> Node \<Rightarrow> (unit, Node) outcome option" where
  "relay_stream env c s n =
     (case HandleIncomingRelay (en_dialTCP env) (en_writeTCP env) (c_objs (conn_at n c) ! s) of
        None \<Rightarrow> None
      | Some ((Panic, _), st) \<Rightarrow> Some Panic
      | Some ((_, _), st) \<Rightarrow> Some (Return (set_conn c (upd_stream s (\<lambda>_. st) (conn_at n c)) n)))"

definition udpReadLoop :: "env \<Rightarrow> Node \<Rightarrow> (unit, Node) outcome option" where
  "udpReadLoop env n =
     (case en_udp env of
        None \<Rightarrow> None
      | Some None \<Rightarrow> Some (Return (if n_cancelled n then n else spawn UdpReadLoop n))
      | Some (Some (remote, data)) \<Rightarrow>
          Some (go_bind (udp_datagram (en_clk env) (en_udpAddrs env) (en_peerConns env) remote (take 65536 data) n)
            (\<lambda>n. Return (spawn UdpReadLoop n))))"

subsection \<open>Periodic work\<close>

fun interval :: "library \<Rightarrow> ticker \<Rightarrow> Node \<Rightarrow> duration" where
  "interval lib PushTick n = gc_PushInterval (e_config (n_gossip n))"
| "interval lib ProbeTick n = gc_ProbeInterval (e_config (n_gossip n))"
| "interval lib AdvertiseTick n = p_interval (n_prop n)"
| "interval lib SessionGCTick n = SessionGCInterval (lib_frac lib) (n_cfg n)"
| "interval lib RouteGCTick n = RouteAdvertisementInterval (lib_frac lib) (n_cfg n)"
| "interval lib StatsTick n = 10 * second"

definition push_tick :: "env \<Rightarrow> Node \<Rightarrow> (unit, Node) outcome" where
  [simp]: "push_tick env n =
     go_bind (pushToRandom (en_peers env 0) (\<lambda>i. en_peers env (i + 1)) (n_rng n) (n_gossip n))
       (\<lambda>(rng, acts). engine_acts acts (n\<lparr>n_rng := rng\<rparr>))"

definition probe_tick :: "env \<Rightarrow> Node \<Rightarrow> (unit, Node) outcome" where
  "probe_tick env n =
     (let e = n_gossip n;
          fails = (\<lambda>c. case fst (control_write c (signMsg e EncodePing) n) of Error _ \<Rightarrow> True | _ \<Rightarrow> False);
          (rng, e', acts, timer) = probeRandomPeer (en_peers env 0) fails (n_rng n) e
      in go_bind (engine_acts acts (n\<lparr>n_gossip := e', n_rng := rng\<rparr>)) (\<lambda>n.
           Return (case timer of None \<Rightarrow> n | Some target \<Rightarrow> spawn (ProbeTimer target (en_clk env 0)) n)))"

fun tick :: "library \<Rightarrow> env \<Rightarrow> ticker \<Rightarrow> Node \<Rightarrow> (unit, Node) outcome" where
  "tick lib env PushTick n = push_tick env n"
| "tick lib env ProbeTick n = probe_tick env n"
| "tick lib env AdvertiseTick n =
     (let (p, acts) = advertise_tick (en_clk env) (en_routes env 2) (n_prop n)
      in prop_acts lib (en_conns env) 0 acts (n\<lparr>n_prop := p\<rparr>))"
| "tick lib env SessionGCTick n =
     Return (n\<lparr>n_udpRelay := (n_udpRelay n)\<lparr>ur_sessions :=
       Session_GC (en_sessions env) (en_clk env 0) (ur_sessions (n_udpRelay n))\<rparr>\<rparr>)"
| "tick lib env RouteGCTick n =
     Return (n\<lparr>n_prop := (n_prop n)\<lparr>p_table := snd (GC (en_routes env 0) (en_clk env 0)
       (RouteAdvertisementInterval (lib_frac lib) (n_cfg n) * 3) (p_table (n_prop n)))\<rparr>\<rparr>)"
| "tick lib env StatsTick n =
     Return (n\<lparr>n_stats := Stats_Update (length (GetAlive (en_peers env 0) (e_peers (n_gossip n))))
       (RoutingTable_Size (en_routes env 0) (p_table (n_prop n))) (n_stats n)\<rparr>)"

text \<open>A ticker is made first, which panics unless the interval is positive.\<close>

definition ticker_loop :: "library \<Rightarrow> env \<Rightarrow> ticker \<Rightarrow> bool \<Rightarrow> Node \<Rightarrow> (unit, Node) outcome option" where
  "ticker_loop lib env k started n =
     (if \<not> started then Some (if interval lib k n \<le> 0 then Panic else Return (spawn (Ticker k True) n))
      else if n_cancelled n \<and> (en_pick env \<or> \<not> en_fired env) then Some (Return n)
      else if en_fired env then Some (go_bind (tick lib env k n) (\<lambda>n. Return (spawn (Ticker k True) n)))
      else None)"

definition probe_timer :: "env \<Rightarrow> NodeID \<Rightarrow> go_time \<Rightarrow> Node \<Rightarrow> Node option" where
  "probe_timer env target started n =
     (let due = gc_ProbeInterval (e_config (n_gossip n)) * 3 \<le> en_clk env 0 - started
      in if n_cancelled n \<and> (en_pick env \<or> \<not> due) then Some n
         else if due then Some (n\<lparr>n_gossip := probe_timeout (en_clk env 1) target (n_gossip n)\<rparr>)
         else None)"

subsection \<open>One step of a goroutine\<close>

fun run :: "library \<Rightarrow> env \<Rightarrow> task \<Rightarrow> Node \<Rightarrow> (unit, Node) outcome option" where
  "run lib env AcceptLoop n = map_option Return (acceptLoop env n)"
| "run lib env (IncomingConn c) n = Some (handleIncomingConn c n)"
| "run lib env (IncomingRead c s) n = incoming_read lib env c s n"
| "run lib env (ConnectToPeer peerID addr) n = Some (Return (connectToPeer peerID addr n))"
| "run lib env (Dialling peerID addr) n = Some (connect_dialled lib env peerID addr n)"
| "run lib env (ReconnectPeer peerID) n = Some (Return (reconnectPeer peerID n))"
| "run lib env (Reconnecting peerID mark addr backoff) n = Some (reconnect_dialled lib env peerID mark addr backoff n)"
| "run lib env (ReconnectSleep peerID mark backoff delay started) n =
     map_option Return (reconnect_slept env peerID mark backoff delay started n)"
| "run lib env Bootstrap n = Some (Return (bootstrap n))"
| "run lib env (BootstrapPeer addr) n = Some (Return (bootstrapPeer addr n))"
| "run lib env (BootstrapDial addr backoff) n = Some (bootstrap_dialled env addr backoff n)"
| "run lib env (BootstrapSleep addr backoff delay started) n =
     map_option Return (bootstrap_slept env addr backoff delay started n)"
| "run lib env (BootstrapRead addr c s backoff) n = bootstrap_read lib env addr c s backoff n"
| "run lib env (ControlLoop peerID c s mark) n = control_read lib env peerID c s mark n"
| "run lib env (StreamLoop peerID c) n = map_option Return (handleIncomingStreams env peerID c n)"
| "run lib env (RelayStream peerID c s) n = relay_stream env c s n"
| "run lib env UdpReadLoop n = udpReadLoop env n"
| "run lib env (Ticker k started) n = ticker_loop lib env k started n"
| "run lib env (ProbeTimer target started) n = map_option Return (probe_timer env target started n)"

subsection \<open>Start and end\<close>

datatype start_error = TLSConfigFailed | TransportListenFailed | UDPResolveFailed | UDPListenFailed
  | Socks5StartFailed | HealthStartFailed

text \<open>Whether the calls of \<open>Start\<close> into the standard library succeed.\<close>

record start_env =
  st_tls :: bool
  st_listen :: bool
  st_udpListen :: bool
  st_socks :: bool
  st_health :: bool

text \<open>The loops that the gossip engine and the propagator start.\<close>

definition Engine_Start :: "Node \<Rightarrow> Node" where
  [simp]: "Engine_Start n = spawn (Ticker ProbeTick False) (spawn (Ticker PushTick False) n)"

definition Propagator_Start :: "Node \<Rightarrow> Node" where
  [simp]: "Propagator_Start n = spawn (Ticker AdvertiseTick False) n"

definition Node_Start :: "library \<Rightarrow> start_env \<Rightarrow> Node \<Rightarrow> (start_error, unit) outcome \<times> Node" where
  "Node_Start lib se n =
     (if \<not> st_tls se then (Error TLSConfigFailed, n)
      else (case Listen (st_listen se) of
        Return l \<Rightarrow>
          (let n = n\<lparr>n_ln := Some l\<rparr>
           in if lib_ResolveUDPAddr lib (nc_ListenAddr (cfg_Node (n_cfg n))) = None then (Error UDPResolveFailed, n)
              else if \<not> st_udpListen se then (Error UDPListenFailed, n)
              else (let n = spawn UdpReadLoop (n\<lparr>n_udpLn := True\<rparr>);
                        n = Engine_Start n;
                        n = Propagator_Start n
                    in case Server_Start (st_socks se) (n_socks n) of
                         Return sv \<Rightarrow>
                           (let n = n\<lparr>n_socks := sv\<rparr>;
                                n = spawn (Ticker SessionGCTick False) n;
                                n = spawn (Ticker RouteGCTick False) n;
                                n = spawn AcceptLoop n
                            in if n_healthSrv n \<and> \<not> st_health se then (Error HealthStartFailed, n)
                               else (Return (), spawn Bootstrap (spawn (Ticker StatsTick False) n)))
                       | _ \<Rightarrow> (Error Socks5StartFailed, n)))
      | _ \<Rightarrow> (Error TransportListenFailed, n)))"

text \<open>\<open>order\<close> is the iteration order of the peer connections, which stay in the map.\<close>

definition Node_Stop :: "string list \<Rightarrow> Node \<Rightarrow> Node" where
  "Node_Stop order n =
     fold (\<lambda>key n. case n_peerConns n key of None \<Rightarrow> n | Some c \<Rightarrow> close_conn c n) order
       (n\<lparr>n_cancelled := True, n_udpLn := False, n_socks := Server_Stop (n_socks n)\<rparr>)"

datatype main_error = ConfigFailed config_error | CreateFailed new_error | StartFailed start_error

text \<open>\<open>load\<close> stands for \<open>LoadOrCreate\<close> on the file system. What the log shows is left out.\<close>

definition node_main ::
  "library \<Rightarrow> (bytes \<Rightarrow> Config \<Rightarrow> Config option) \<Rightarrow> (string \<Rightarrow> bytes option) \<Rightarrow>
   (string \<Rightarrow> (keyfile_error, Identity) outcome) \<Rightarrow> go_time \<Rightarrow> uint32 \<Rightarrow> start_env \<Rightarrow> flags \<Rightarrow> (main_error, Node) outcome" where
  "node_main lib unmarshal readFile load now rng se fl =
     (case main_config (lib_frac lib) unmarshal readFile fl of
        Inl e \<Rightarrow> Error (ConfigFailed e)
      | Inr cfg \<Rightarrow>
          (case Node_New lib now rng (load (nc_IdentityFile (cfg_Node cfg))) cfg of
             Panic \<Rightarrow> Panic
           | Error e \<Rightarrow> Error (CreateFailed e)
           | Return n \<Rightarrow>
               (case Node_Start lib se n of
                  (Panic, _) \<Rightarrow> Panic
                | (Error e, _) \<Rightarrow> Error (StartFailed e)
                | (Return _, n) \<Rightarrow> Return n)))"

subsection \<open>All that can happen\<close>

text \<open>
  What is assumed of the surroundings: removals from the routing table visit every key, the clock
  does not go back, and the address of the other end of a connection is shorter than 256
  characters.
\<close>

definition valid_env :: "env \<Rightarrow> Node \<Rightarrow> bool" where
  "valid_env env n \<longleftrightarrow>
     range_order (rt_routes (p_table (n_prop n))) (en_routes env 0) \<and>
     range_order (rt_routes (p_table (n_prop n))) (en_routes env 1) \<and>
     range_order (st_sessions (ur_sessions (n_udpRelay n))) (en_sessions env) \<and>
     (\<forall>i. rl_last (n_acceptLimiter n) \<le> en_clk env i) \<and> length (en_remote env) < 256"

definition without :: "nat \<Rightarrow> 'x list \<Rightarrow> 'x list" where
  "without i xs = take i xs @ drop (Suc i) xs"

inductive node_step :: "library \<Rightarrow> Node \<Rightarrow> Node \<Rightarrow> bool" for lib where
  runs: "node_step lib n n'"
    if "i < length (n_tasks n)" "valid_env env n"
      "run lib env (n_tasks n ! i) (n\<lparr>n_tasks := without i (n_tasks n)\<rparr>) = Some (Return n')"
| transport: "node_step lib n (n\<lparr>n_links := (n_links n)[c := (n_links n ! c)\<lparr>lk_conn := k, lk_loop := l\<rparr>]\<rparr>)"
    if "c < length (n_links n)" "conn_step (conn_at n c, lk_loop (n_links n ! c)) (k, l)"
| listening: "node_step lib n (n\<lparr>n_ln := Some l'\<rparr>)"
    if "n_ln n = Some l" "accept_step l l'"
| socks_tcp: "node_step lib n (snd (dial_peer peerID target n))"
| socks_datagram: "node_step lib n (socks_udp clk dial_ok ev n)"
| stops: "node_step lib n (Node_Stop order n)"

end
