(* ===== verification/Node_Safe.thy ===== *)
theory Node_Safe
  imports Node_Run
begin

text \<open>
  What holds in every reachable state of a node (\<open>wf_Node\<close>): the invariants of its components, that
  every connection a map or a goroutine refers to exists, and that the set of addresses being
  dialled is exactly what the goroutines hold, each mark held once. And what can stop a node: the
  messages on which the dispatcher panics.

  The lemmas follow the shape of the code. \<open>safe hs n m\<close> says that the computation \<open>m\<close>, started in
  \<open>n\<close>, can only return a well-formed node in which nothing \<open>n\<close> refers to is lost, where \<open>hs\<close> are the
  marks the running goroutine holds; \<open>safe_bind\<close> composes.
\<close>

subsection \<open>Connections\<close>

definition refs_kept :: "Conn \<Rightarrow> Conn \<Rightarrow> bool" where
  "refs_kept c c' \<longleftrightarrow> (\<forall>s sid. open_ref c s sid \<longrightarrow> open_ref c' s sid)"

lemma refs_kept_refl [simp]: "refs_kept c c"
  by (simp add: refs_kept_def)

lemma refs_kept_trans: "refs_kept a b \<Longrightarrow> refs_kept b c \<Longrightarrow> refs_kept a c"
  by (simp add: refs_kept_def)

lemma refs_kept_length: "refs_kept c c' \<Longrightarrow> s < length (c_objs c) \<Longrightarrow> s < length (c_objs c')"
  by (auto simp: refs_kept_def open_ref_def)

lemma refs_kept_loop: "refs_kept c c' \<Longrightarrow> wf_loop c l \<Longrightarrow> wf_loop c' l"
  by (cases l) (simp_all add: refs_kept_def)

lemma read_step_refs: "read_step c l c' l' \<Longrightarrow> wf_Conn c \<Longrightarrow> wf_loop c l \<Longrightarrow> refs_kept c c'"
proof (induction rule: read_step.induct)
  case (read_failed c order)
  then show ?case using wf_closeAll by (simp add: refs_kept_def)
next
  case (read_new c f s c')
  then show ?case using wf_add_stream [of c "f_StreamID f" 16 s c'] by (simp add: refs_kept_def)
next
  case (frame_close f c s)
  have "open_ref (handle_close s f c) s' sid = open_ref (upd_stream s (\<lambda>st. try_send [] (st\<lparr>sm_closed := True\<rparr>)) c) s' sid" for s' sid
    by (simp add: handle_close_def open_ref_def Let_def)
  then show ?case by (simp add: refs_kept_def open_ref_upd)
next
  case (frame_data f c s)
  then show ?case by (simp add: refs_kept_def deliver_def open_ref_upd)
qed (simp_all add: refs_kept_def open_ref_def)

lemma conn_step_refs: "conn_step cl cl' \<Longrightarrow> wf_Conn (fst cl) \<Longrightarrow> wf_loop (fst cl) (snd cl) \<Longrightarrow> refs_kept (fst cl) (fst cl')"
proof (induction rule: conn_step.induct)
  case (loop c l c' l')
  then show ?case using read_step_refs by simp
next
  case (opens c l)
  then show ?case using wf_OpenStream by (simp add: refs_kept_def)
next
  case (accepts pick c res c' l)
  then show ?case by (auto simp: AcceptStream_def refs_kept_def open_ref_def split: list.splits if_splits)
next
  case (closes c l)
  then show ?case by (simp add: Conn_Close_def refs_kept_def open_ref_def)
next
  case (reads s c n res st l)
  then show ?case using Stream_Read_wf [OF reads(2) wf_Stream_nth] by (simp add: refs_kept_def open_ref_upd)
next
  case (writes s c l b)
  have "snd (Stream_Write s b c) = c \<or> (\<exists>f. snd (Stream_Write s b c) = snd (writeFrame f c))"
    by (auto simp: Stream_Write_def split: prod.split outcome.split) (metis snd_conv)+
  then show ?case by (auto simp: refs_kept_def wf_writeFrame)
next
  case (stream_closes s c l)
  then show ?case by (auto simp: Stream_Close_def refs_kept_def wf_writeFrame open_ref_upd)
qed

lemma control_ref: "wf_Conn c \<Longrightarrow> ControlStream c = Some s \<Longrightarrow> s < length (c_objs c)"
  by (auto simp: ControlStream_def wf_Conn_def open_ref_def)

lemma accept_ref: "wf_Conn c \<Longrightarrow> AcceptStream pick c = Some (Return s, c') \<Longrightarrow> s < length (c_objs c)"
  by (auto simp: AcceptStream_def wf_Conn_def split: list.splits if_splits)

subsection \<open>The invariant\<close>

definition wf_link :: "link \<Rightarrow> bool" where
  "wf_link l \<longleftrightarrow> wf_Conn (lk_conn l) \<and> wf_loop (lk_conn l) (lk_loop l) \<and> length (lk_remote l) < 256"

definition valid_ref :: "Node \<Rightarrow> conn_id \<Rightarrow> nat \<Rightarrow> bool" where
  "valid_ref n c s \<longleftrightarrow> c < length (n_links n) \<and> s < length (c_objs (conn_at n c))"

definition in_backoff :: "duration \<Rightarrow> duration \<Rightarrow> bool" where
  "in_backoff mx b \<longleftrightarrow> 1 * second \<le> b \<and> b \<le> mx * second"

text \<open>What a waiting goroutine refers to exists, and backoffs stay in their bounds.\<close>

fun wf_task :: "Node \<Rightarrow> task \<Rightarrow> bool" where
  "wf_task n (IncomingConn c) = (c < length (n_links n))"
| "wf_task n (IncomingRead c s) = valid_ref n c s"
| "wf_task n (ConnectToPeer p addr) = (length p = 16)"
| "wf_task n (Dialling p addr) = (length p = 16)"
| "wf_task n (ReconnectPeer p) = (length p = 16)"
| "wf_task n (Reconnecting p mark addr b) = (length p = 16 \<and> in_backoff 60 b)"
| "wf_task n (ReconnectSleep p mark b d t) = (length p = 16 \<and> in_backoff 60 b)"
| "wf_task n (BootstrapDial addr b) = in_backoff 30 b"
| "wf_task n (BootstrapSleep addr b d t) = in_backoff 30 b"
| "wf_task n (BootstrapRead addr c s b) = (valid_ref n c s \<and> in_backoff 30 b)"
| "wf_task n (ControlLoop p c s mark) = (length p = 16 \<and> valid_ref n c s)"
| "wf_task n (StreamLoop p c) = (c < length (n_links n))"
| "wf_task n (RelayStream p c s) = valid_ref n c s"
| "wf_task n _ = True"

text \<open>The addresses a goroutine has marked.\<close>

fun held :: "task \<Rightarrow> string list" where
  "held (Dialling p addr) = [addr]"
| "held (Reconnecting p mark addr b) = [mark]"
| "held (ReconnectSleep p mark b d t) = [mark]"
| "held (ControlLoop p c s (Some mark)) = [mark]"
| "held _ = []"

definition marks :: "Node \<Rightarrow> string list" where
  "marks n = concat (map held (n_tasks n))"

text \<open>The keys of peers are missing or of 32 bytes, and the gossip engine speaks for this node.\<close>

definition key_ok :: "Peer \<Rightarrow> bool" where
  "key_ok p \<longleftrightarrow> pr_PubKey p = [] \<or> length (pr_PubKey p) = 32"

definition wf_keys :: "Engine \<Rightarrow> bool" where
  "wf_keys e \<longleftrightarrow> (\<forall>nid p. PeerManager_Get nid (e_peers e) = Some p \<longrightarrow> key_ok p)"

definition self_of :: "Engine \<Rightarrow> NodeID \<times> bytes \<times> string" where
  "self_of e = (e_selfID e, e_pubKey e, e_selfAddr e)"

definition speaks_for :: "Identity \<Rightarrow> Config \<Rightarrow> Engine \<Rightarrow> bool" where
  "speaks_for idt cfg e \<longleftrightarrow> self_of e = (id_ID idt, copy_array 32 (id_PubKey idt), nc_ListenAddr (cfg_Node cfg))"

definition wf_parts :: "Node \<Rightarrow> bool" where
  "wf_parts n \<longleftrightarrow> wf_Engine (n_gossip n) \<and> wf_keys (n_gossip n) \<and> speaks_for (n_identity n) (n_cfg n) (n_gossip n) \<and>
     wf_Propagator (n_prop n) \<and> wf_sessions (ur_sessions (n_udpRelay n)) \<and>
     wf_limiter (n_acceptLimiter n) \<and> stat_Connected (n_stats n)"

definition wf_maps :: "Node \<Rightarrow> bool" where
  "wf_maps n \<longleftrightarrow> (\<forall>l\<in>set (n_links n). wf_link l) \<and>
     (\<forall>key c. n_peerConns n key = Some c \<longrightarrow> c < length (n_links n)) \<and>
     (\<forall>key c. e_conns (n_gossip n) key = Some c \<longrightarrow> c < length (n_links n))"

definition wf_tasks :: "string list \<Rightarrow> Node \<Rightarrow> bool" where
  "wf_tasks hs n \<longleftrightarrow> list_all (wf_task n) (n_tasks n) \<and> distinct (hs @ marks n) \<and> set (hs @ marks n) = n_reconnecting n"

definition wf_Node :: "string list \<Rightarrow> Node \<Rightarrow> bool" where
  "wf_Node hs n \<longleftrightarrow> wf_parts n \<and> wf_maps n \<and> wf_tasks hs n"

definition extends :: "Node \<Rightarrow> Node \<Rightarrow> bool" where
  "extends n n' \<longleftrightarrow> length (n_links n) \<le> length (n_links n') \<and>
     (\<forall>c<length (n_links n). refs_kept (conn_at n c) (conn_at n' c))"

lemma extends_refl [simp]: "extends n n"
  by (simp add: extends_def)

lemma extends_trans: "extends a b \<Longrightarrow> extends b c \<Longrightarrow> extends a c"
  by (force simp: extends_def intro: refs_kept_trans)

lemma extends_links: "extends n n' \<Longrightarrow> c < length (n_links n) \<Longrightarrow> c < length (n_links n')"
  by (simp add: extends_def)

lemma extends_ref: "extends n n' \<Longrightarrow> valid_ref n c s \<Longrightarrow> valid_ref n' c s"
  by (auto simp: extends_def valid_ref_def intro: refs_kept_length)

lemma wf_task_mono: "extends n n' \<Longrightarrow> wf_task n t \<Longrightarrow> wf_task n' t"
  by (cases t) (auto dest: extends_links extends_ref)

text \<open>Nothing but the links matters for references and for the validity of a task.\<close>

lemma same_links:
  assumes "n_links n' = n_links n"
  shows "extends n n'" "wf_task n' t = wf_task n t" "conn_at n' c = conn_at n c" "valid_ref n' c s = valid_ref n c s"
proof -
  show conn: "conn_at n' c = conn_at n c" for c using assms by (simp add: conn_at_def)
  show "extends n n'" using assms conn by (simp add: extends_def)
  show ref: "valid_ref n' c s = valid_ref n c s" for c s using assms conn by (simp add: valid_ref_def)
  show "wf_task n' t = wf_task n t" using assms ref by (cases t) simp_all
qed

subsection \<open>Elementary changes\<close>

text \<open>\<open>ok hs n n'\<close>: the well-formed outcome of a computation that started in \<open>n\<close>.\<close>

definition ok :: "string list \<Rightarrow> Node \<Rightarrow> Node \<Rightarrow> bool" where
  "ok hs n n' \<longleftrightarrow> wf_Node hs n' \<and> extends n n'"

lemma ok_refl: "wf_Node hs n \<Longrightarrow> ok hs n n"
  by (simp add: ok_def)

lemma ok_trans: "ok hs n n' \<Longrightarrow> ok hs' n' n'' \<Longrightarrow> ok hs' n n''"
  by (auto simp: ok_def intro: extends_trans)

lemma okD: "ok hs n n' \<Longrightarrow> wf_Node hs n'" "ok hs n n' \<Longrightarrow> extends n n'"
  by (simp_all add: ok_def)

lemma wf_NodeD:
  "wf_Node hs n \<Longrightarrow> wf_parts n" "wf_Node hs n \<Longrightarrow> wf_Engine (n_gossip n)" "wf_Node hs n \<Longrightarrow> wf_Propagator (n_prop n)"
  "wf_Node hs n \<Longrightarrow> c < length (n_links n) \<Longrightarrow> wf_Conn (conn_at n c)"
  "wf_Node hs n \<Longrightarrow> c < length (n_links n) \<Longrightarrow> length (remote_of n c) < 256"
  "wf_Node hs n \<Longrightarrow> n_peerConns n key = Some c \<Longrightarrow> c < length (n_links n)"
  "wf_Node hs n \<Longrightarrow> e_conns (n_gossip n) key = Some c \<Longrightarrow> c < length (n_links n)"
  by (auto simp: wf_Node_def wf_parts_def wf_maps_def wf_link_def conn_at_def remote_of_def)

text \<open>A change that touches neither the connections nor the goroutines.\<close>

lemma ok_change:
  assumes "wf_Node hs n" and "n_links n' = n_links n" and "n_tasks n' = n_tasks n"
    and "n_reconnecting n' = n_reconnecting n" and "wf_parts n'"
    and "\<And>key c. n_peerConns n' key = Some c \<Longrightarrow> c < length (n_links n)"
    and "\<And>key c. e_conns (n_gossip n') key = Some c \<Longrightarrow> c < length (n_links n)"
  shows "ok hs n n'"
proof -
  have "wf_task n' = wf_task n" using same_links(2) [OF assms(2)] by (simp add: fun_eq_iff)
  with assms show ?thesis
    by (simp add: ok_def same_links wf_Node_def wf_maps_def wf_tasks_def marks_def)
qed

lemma ok_link:
  assumes "wf_Node hs n" and "c < length (n_links n)" and "wf_link l" and "refs_kept (conn_at n c) (lk_conn l)"
  shows "ok hs n (n\<lparr>n_links := (n_links n)[c := l]\<rparr>)"
proof -
  let ?n = "n\<lparr>n_links := (n_links n)[c := l]\<rparr>"
  have ext: "extends n ?n" using assms(2,4) by (auto simp: extends_def conn_at_def nth_list_update)
  have "\<forall>k\<in>set (n_links ?n). wf_link k"
    using assms(1,3) set_update_subset_insert [of "n_links n" c l] by (auto simp: wf_Node_def wf_maps_def)
  moreover have "list_all (wf_task ?n) (n_tasks n)"
    using assms(1) wf_task_mono [OF ext] by (auto simp: wf_Node_def wf_tasks_def list_all_iff)
  ultimately show ?thesis using assms(1) ext
    by (simp add: ok_def wf_Node_def wf_parts_def wf_maps_def wf_tasks_def marks_def)
qed

lemma wf_link_nth: "wf_Node hs n \<Longrightarrow> c < length (n_links n) \<Longrightarrow> wf_link (n_links n ! c)"
  by (simp add: wf_Node_def wf_maps_def)

lemma ok_conn_step:
  assumes "wf_Node hs n" and "c < length (n_links n)" and "conn_step (conn_at n c, lk_loop (n_links n ! c)) (k, l)"
  shows "ok hs n (n\<lparr>n_links := (n_links n)[c := (n_links n ! c)\<lparr>lk_conn := k, lk_loop := l\<rparr>]\<rparr>)"
  using wf_link_nth [OF assms(1,2)] wf_conn_step [OF assms(3)] conn_step_refs [OF assms(3)]
  by (intro ok_link assms) (simp_all add: wf_link_def conn_at_def)

text \<open>An operation of a caller on a connection.\<close>

lemma ok_set_conn:
  assumes "wf_Node hs n" and "c < length (n_links n)" and "\<And>l. conn_step (conn_at n c, l) (k, l)"
  shows "ok hs n (set_conn c k n)"
  using ok_conn_step [OF assms(1,2) assms(3)] by (simp add: set_conn_def)

lemma ok_close_conn: "wf_Node hs n \<Longrightarrow> c < length (n_links n) \<Longrightarrow> ok hs n (close_conn c n)"
  unfolding close_conn_def by (intro ok_set_conn conn_step.closes)

lemma ok_add_link:
  assumes "wf_Node hs n" and "add_link (newConn raw) remote n = (c, n')" and "length remote < 256"
  shows "ok hs n n'" "c < length (n_links n')" "c = length (n_links n)"
proof -
  have n': "n_links n' = n_links n @ [\<lparr>lk_conn = newConn raw, lk_loop = LoopRead, lk_remote = remote\<rparr>]" "c = length (n_links n)"
    "n' = n\<lparr>n_links := n_links n'\<rparr>"
    using assms(2) by (auto simp: add_link_def)
  then show "c < length (n_links n')" "c = length (n_links n)" by simp_all
  have ext: "extends n n'" using n'(1) by (auto simp: extends_def conn_at_def nth_append)
  have "\<forall>k\<in>set (n_links n'). wf_link k"
    using assms(1,3) n'(1) wf_newConn by (auto simp: wf_Node_def wf_maps_def wf_link_def)
  moreover have "list_all (wf_task n') (n_tasks n)"
    using assms(1) wf_task_mono [OF ext] by (auto simp: wf_Node_def wf_tasks_def list_all_iff)
  moreover have "wf_parts n'" "n_tasks n' = n_tasks n" "n_reconnecting n' = n_reconnecting n"
    "n_peerConns n' = n_peerConns n" "n_gossip n' = n_gossip n"
    using assms(1) by (subst n'(3); simp add: wf_Node_def wf_parts_def)+
  ultimately show "ok hs n n'" using assms(1) ext n'(1)
    by (auto simp: ok_def wf_Node_def wf_maps_def wf_tasks_def marks_def intro: less_SucI)
qed

lemma ok_spawn:
  assumes "wf_Node (held t @ hs) n" and "wf_task n t"
  shows "ok hs n (spawn t n)"
proof -
  have links: "n_links (spawn t n) = n_links n" by (simp add: spawn_def)
  have "list_all (wf_task (spawn t n)) (n_tasks (spawn t n))"
    using assms same_links(2) [OF links] by (simp add: spawn_def wf_Node_def wf_tasks_def list_all_iff)
  moreover have "marks (spawn t n) = marks n @ held t" by (simp add: marks_def spawn_def)
  moreover have "n_reconnecting (spawn t n) = n_reconnecting n" by (simp add: spawn_def)
  ultimately have "wf_tasks hs (spawn t n)" using assms(1) by (auto simp: wf_Node_def wf_tasks_def)
  moreover have "wf_parts (spawn t n)" "wf_maps (spawn t n)"
    using assms(1) by (simp_all add: wf_Node_def wf_parts_def wf_maps_def spawn_def)
  ultimately show ?thesis using same_links(1) [OF links] by (simp add: ok_def wf_Node_def)
qed

lemma ok_spawn_free: "held t = [] \<Longrightarrow> wf_Node hs n \<Longrightarrow> wf_task n t \<Longrightarrow> ok hs n (spawn t n)"
  using ok_spawn [of t hs n] by simp

lemma ok_unmark:
  assumes "wf_Node (m # hs) n"
  shows "ok hs n (unmarkDialing m n)"
proof -
  have links: "n_links (unmarkDialing m n) = n_links n" by (simp add: unmarkDialing_def)
  have "wf_task (unmarkDialing m n) = wf_task n" using same_links(2) [OF links] by (simp add: fun_eq_iff)
  with assms have "wf_tasks hs (unmarkDialing m n)"
    by (auto simp: wf_Node_def wf_tasks_def unmarkDialing_def marks_def)
  moreover have "wf_parts (unmarkDialing m n)" "wf_maps (unmarkDialing m n)"
    using assms by (simp_all add: wf_Node_def wf_parts_def wf_maps_def unmarkDialing_def)
  ultimately show ?thesis using same_links(1) [OF links] by (simp add: ok_def wf_Node_def)
qed

lemma tryMark_cases:
  assumes "wf_Node hs n"
  obtains "tryMarkDialing addr n = (False, n)"
  | n' where "tryMarkDialing addr n = (True, n')" "ok (addr # hs) n n'"
proof (cases "addr \<in> n_reconnecting n")
  case True
  then show thesis by (intro that(1)) (simp add: tryMarkDialing_def)
next
  case False
  let ?n = "n\<lparr>n_reconnecting := insert addr (n_reconnecting n)\<rparr>"
  have links: "n_links ?n = n_links n" by simp
  have "wf_task ?n = wf_task n" using same_links(2) [OF links] by (simp add: fun_eq_iff)
  with assms False have "wf_tasks (addr # hs) ?n" by (auto simp: wf_Node_def wf_tasks_def marks_def)
  moreover have "wf_parts ?n" "wf_maps ?n" using assms by (simp_all add: wf_Node_def wf_parts_def wf_maps_def)
  ultimately have "ok (addr # hs) n ?n" using same_links(1) [OF links] by (simp add: ok_def wf_Node_def)
  with False show thesis by (intro that(2)) (simp_all add: tryMarkDialing_def)
qed

subsection \<open>Computations\<close>

definition safe :: "string list \<Rightarrow> Node \<Rightarrow> (unit, Node) outcome \<Rightarrow> bool" where
  "safe hs n m \<longleftrightarrow> (\<forall>n'. m = Return n' \<longrightarrow> ok hs n n')"

lemma safe_Return [simp]: "safe hs n (Return n') = ok hs n n'"
  by (simp add: safe_def)

lemma safe_Panic [simp]: "safe hs n Panic"
  by (simp add: safe_def)

lemma safe_bind: "safe hs n m \<Longrightarrow> (\<And>n'. ok hs n n' \<Longrightarrow> safe hs' n' (f n')) \<Longrightarrow> safe hs' n (go_bind m f)"
  by (cases m) (auto simp: safe_def intro: ok_trans)

lemma safe_pure: "(\<And>x. m = Return x \<Longrightarrow> safe hs n (f x)) \<Longrightarrow> safe hs n (go_bind m f)"
  by (cases m) (auto simp: safe_def)

lemma safe_after: "ok hs n n' \<Longrightarrow> safe hs' n' m \<Longrightarrow> safe hs' n m"
  by (auto simp: safe_def intro: ok_trans)

lemma ok_control_write: "wf_Node hs n \<Longrightarrow> c < length (n_links n) \<Longrightarrow> ok hs n (snd (control_write c msg n))"
proof (cases "ControlStream (conn_at n c)")
  case (Some s)
  assume n: "wf_Node hs n" "c < length (n_links n)"
  have "s < length (c_objs (conn_at n c))" using control_ref [OF wf_NodeD(4) [OF n] Some] .
  then have "ok hs n (set_conn c (snd (Stream_Write s msg (conn_at n c))) n)"
    by (intro ok_set_conn n conn_step.writes)
  with Some show ?thesis by (simp add: control_write_def case_prod_beta)
qed (simp add: control_write_def ok_refl)

lemma safe_logged: "ok hs n (snd r) \<Longrightarrow> safe hs n (logged r)"
  by (cases r; cases "fst r") (auto simp: logged_def)

lemma ok_sendControlMsg: "wf_Node hs n \<Longrightarrow> ok hs n (snd (sendControlMsg lib p msg n))"
proof (cases "getPeerConn p n")
  case (Some c)
  assume n: "wf_Node hs n"
  have "c < length (n_links n)" using wf_NodeD(6) [OF n] Some by (simp add: getPeerConn_def)
  from ok_control_write [OF n this] Some show ?thesis
    by (auto simp: sendControlMsg_def Let_def split: prod.split outcome.split) (metis snd_conv)+
qed (simp add: sendControlMsg_def ok_refl)

text \<open>The actions of the gossip engine refer to connections of the node and to proper identifiers.\<close>

fun wf_act :: "Node \<Rightarrow> engine_action \<Rightarrow> bool" where
  "wf_act n (ControlWrite c msg) = (c < length (n_links n))"
| "wf_act n (PeerDiscovered p) = (length (pr_ID p) = 16)"

lemma safe_engine_act: "wf_Node hs n \<Longrightarrow> wf_act n a \<Longrightarrow> safe hs n (engine_act a n)"
  by (cases a) (simp_all add: safe_logged ok_control_write ok_spawn_free)

lemma safe_engine_acts: "wf_Node hs n \<Longrightarrow> list_all (wf_act n) as \<Longrightarrow> safe hs n (engine_acts as n)"
proof (induction as arbitrary: n)
  case (Cons a as)
  have mono: "wf_act n' b" if "extends n n'" "wf_act n b" for n' b
    using that by (cases b) (auto dest: extends_links)
  show ?case unfolding engine_acts.simps
  proof (rule safe_bind [OF safe_engine_act])
    fix n'
    assume "ok hs n n'"
    with Cons.prems mono show "safe hs n' (engine_acts as n')"
      by (intro Cons.IH) (auto simp: ok_def list_all_iff)
  qed (use Cons.prems in simp_all)
qed (simp add: ok_refl)

lemma wf_broadcast: "wf_Node hs n \<Longrightarrow> list_all (wf_act n) (Broadcast_all order msg (n_gossip n))"
  by (auto simp: Broadcast_all_def Let_def list_all_iff List.map_filter_def dest: wf_NodeD(7))

lemma safe_prop_acts: "wf_Node hs n \<Longrightarrow> safe hs n (prop_acts lib orders i as n)"
proof (induction as arbitrary: n i)
  case (Cons a as)
  then have ih: "safe hs n' (prop_acts lib orders (i + 1) as n')" if "ok hs n n'" for n'
    using that by (auto dest: okD)
  show ?case
  proof (cases a)
    case (Send p msg)
    show ?thesis unfolding Send prop_acts.simps
      by (rule safe_bind [OF safe_logged [OF ok_sendControlMsg [OF Cons.prems]] ih])
  next
    case (Broadcast msg)
    show ?thesis unfolding Broadcast prop_acts.simps
      by (rule safe_bind [OF safe_engine_acts [OF Cons.prems wf_broadcast [OF Cons.prems]] ih])
  qed
qed (simp add: ok_refl)

text \<open>A new state of one component, with the component's own invariant.\<close>

lemma ok_prop: "wf_Node hs n \<Longrightarrow> wf_Propagator p \<Longrightarrow> ok hs n (n\<lparr>n_prop := p\<rparr>)"
  by (rule ok_change) (auto simp: wf_Node_def wf_parts_def wf_maps_def)

text \<open>What the changes of the gossip engine keep.\<close>

definition engine_kept :: "Engine \<Rightarrow> Engine \<Rightarrow> bool" where
  "engine_kept e e' \<longleftrightarrow> self_of e' = self_of e \<and> (wf_keys e \<longrightarrow> wf_keys e')"

lemma key_ok_upd [simp]:
  "key_ok (p\<lparr>pr_State := st\<rparr>) = key_ok p" "key_ok (p\<lparr>pr_Version := v\<rparr>) = key_ok p"
  "key_ok (p\<lparr>pr_LastSeen := t\<rparr>) = key_ok p"
  by (simp_all add: key_ok_def)

lemma key_ok_merge: "key_ok p \<Longrightarrow> (\<And>q. old = Some q \<Longrightarrow> key_ok q) \<Longrightarrow> key_ok (merge_peer now p old)"
  by (auto simp: merge_peer_def key_ok_def split: option.split)

lemma wf_keys_add: "wf_keys e \<Longrightarrow> key_ok p \<Longrightarrow> wf_keys (e\<lparr>e_peers := snd (AddOrUpdate now p (e_peers e))\<rparr>)"
  by (auto simp: wf_keys_def Get_AddOrUpdate intro: key_ok_merge split: if_splits)

lemma engine_kept_Mark:
  "engine_kept e (e\<lparr>e_peers := MarkAlive now nid (e_peers e)\<rparr>)"
  "engine_kept e (e\<lparr>e_peers := MarkSuspect nid (e_peers e)\<rparr>)"
  "engine_kept e (e\<lparr>e_peers := MarkDead nid (e_peers e)\<rparr>)"
  by (auto simp: engine_kept_def wf_keys_def self_of_def Get_Mark split: if_splits)

lemma engine_kept_refl [simp]: "engine_kept e e"
  by (simp add: engine_kept_def)

lemma engine_kept_conns [simp]: "engine_kept e (e\<lparr>e_conns := m\<rparr>)"
  by (simp add: engine_kept_def wf_keys_def self_of_def)

lemma engine_kept_push: "engine_kept e (fst (handlePush clk i entries e))"
proof (induction entries arbitrary: i e)
  case (Cons entry entries)
  have "engine_kept e (e\<lparr>e_peers := snd (AddOrUpdate (clk i) (pushed_peer entry) (e_peers e))\<rparr>)"
    using wf_keys_add [of e "pushed_peer entry" "clk i"] by (simp add: engine_kept_def self_of_def key_ok_def) (simp add: pushed_peer_def)
  with Cons.IH [of _ "i + 1"] show ?case by (auto simp: Let_def case_prod_beta engine_kept_def)
qed simp

lemma engine_kept_message: "HandleMessage clk order from data e = Return (h, e', acts) \<Longrightarrow> engine_kept e e'"
proof -
  assume msg: "HandleMessage clk order from data e = Return (h, e', acts)"
  have "e' = e \<or> (\<exists>entries. e' = fst (handlePush clk 0 entries e)) \<or> e' = e\<lparr>e_peers := MarkAlive (clk 0) from (e_peers e)\<rparr>"
    using msg by (auto simp: HandleMessage_def split: if_splits outcome.splits prod.splits) (metis fst_conv)
  then show ?thesis using engine_kept_push engine_kept_Mark(1) by auto
qed

lemma engine_kept_direct: "engine_kept e (fst (AddDirectConnection now order remote nid c e))"
proof -
  let ?e = "e\<lparr>e_conns := (e_conns e)(NodeID_String nid \<mapsto> c)\<rparr>"
    and ?p = "\<lparr>pr_ID = nid, pr_PubKey = [], pr_Addr = remote c, pr_State = PeerAlive, pr_Version = 0, pr_LastSeen = 0, pr_DirectNets = []\<rparr>"
  have "fst (AddDirectConnection now order remote nid c e) = ?e\<lparr>e_peers := snd (AddOrUpdate now ?p (e_peers ?e))\<rparr>"
    by (simp add: AddDirectConnection_def Let_def)
  moreover have "wf_keys (?e\<lparr>e_peers := snd (AddOrUpdate now ?p (e_peers ?e))\<rparr>)" if "wf_keys e"
    using that by (intro wf_keys_add) (simp_all add: wf_keys_def key_ok_def)
  ultimately show ?thesis by (simp only: engine_kept_def) (simp add: self_of_def)
qed

lemma ok_gossip:
  "wf_Node hs n \<Longrightarrow> wf_Engine e \<Longrightarrow> engine_kept (n_gossip n) e \<Longrightarrow> (\<And>key c. e_conns e key = Some c \<Longrightarrow> c < length (n_links n)) \<Longrightarrow>
     ok hs n (n\<lparr>n_gossip := e\<rparr>)"
  by (rule ok_change) (auto simp: wf_Node_def wf_parts_def wf_maps_def engine_kept_def speaks_for_def)

lemma ok_sessions: "wf_Node hs n \<Longrightarrow> wf_sessions (ur_sessions r) \<Longrightarrow> ok hs n (n\<lparr>n_udpRelay := r\<rparr>)"
  by (rule ok_change) (auto simp: wf_Node_def wf_parts_def wf_maps_def)

lemma ok_store: "wf_Node hs n \<Longrightarrow> c < length (n_links n) \<Longrightarrow> ok hs n (store_conn p c n)"
  unfolding store_conn_def by (rule ok_change) (auto simp: wf_Node_def wf_parts_def wf_maps_def split: if_splits)

lemma ok_forget: "wf_Node hs n \<Longrightarrow> ok hs n (n\<lparr>n_peerConns := (n_peerConns n)(key := None)\<rparr>)"
  by (rule ok_change) (auto simp: wf_Node_def wf_parts_def wf_maps_def split: if_splits)

lemma ok_register: "wf_Node hs n \<Longrightarrow> ok hs n (registerPeerUDPAddr lib p addr n)"
  by (rule ok_change) (auto simp: registerPeerUDPAddr_def wf_Node_def wf_parts_def wf_maps_def split: option.splits prod.splits)

lemma ok_udp_send: "wf_Node hs n \<Longrightarrow> ok hs n (udp_send p data n)"
  by (rule ok_change) (auto simp: udp_send_def wf_Node_def wf_parts_def wf_maps_def split: option.splits if_splits)

lemma ok_udp_deliver: "wf_Node hs n \<Longrightarrow> ok hs n (udp_deliver session data n)"
  by (rule ok_change) (auto simp: udp_deliver_def wf_Node_def wf_parts_def wf_maps_def split: if_splits)

lemma ok_relay_acts: "wf_Node hs n \<Longrightarrow> ok hs n (relay_acts as n)"
proof (induction as n rule: relay_acts.induct)
  case (2 p data as n)
  then show ?case using ok_trans [OF ok_udp_send [OF 2(2), of p data]] by (auto dest: okD(1) [OF ok_udp_send])
next
  case (3 session data as n)
  then show ?case using ok_trans [OF ok_udp_deliver [OF 3(2), of session data]] by (auto dest: okD(1) [OF ok_udp_deliver])
qed (simp add: ok_refl)

subsection \<open>Messages\<close>

lemma wf_relay:
  "wf_sessions (ur_sessions r) \<Longrightarrow> HandleIncoming clk from data r = Return (r', acts) \<Longrightarrow> wf_sessions (ur_sessions r')"
  by (auto simp: HandleIncoming_def Let_def wf_sessions_ops case_prod_beta split: outcome.splits option.splits if_splits)

lemma safe_relay_incoming: "wf_Node hs n \<Longrightarrow> safe hs n (relay_incoming clk from data n)"
  unfolding relay_incoming_def
proof (rule safe_pure)
  fix ra
  assume n: "wf_Node hs n" and ra: "HandleIncoming clk from data (n_udpRelay n) = Return ra"
  have "wf_sessions (ur_sessions (fst ra))"
    using wf_relay [of "n_udpRelay n" clk "from" data "fst ra" "snd ra"] n ra by (simp add: wf_Node_def wf_parts_def)
  note r = ok_sessions [OF n this]
  from ok_trans [OF r ok_relay_acts [OF okD(1) [OF r]]]
  show "safe hs n (case ra of (r, acts) \<Rightarrow> Return (relay_acts acts (n\<lparr>n_udpRelay := r\<rparr>)))" by (simp add: case_prod_beta)
qed

lemma safe_udp_datagram: "wf_Node hs n \<Longrightarrow> safe hs n (udp_datagram clk order order' remote data n)"
proof -
  assume n: "wf_Node hs n"
  have "ok hs n (n\<lparr>n_peerUDPAddrs := m\<rparr>)" for m
    using n by (intro ok_change [OF n]) (auto simp: wf_Node_def wf_parts_def wf_maps_def)
  from safe_after [OF this safe_relay_incoming [OF okD(1) [OF this]]] n show ?thesis
    by (auto simp: udp_datagram_def safe_relay_incoming ok_refl split: option.split)
qed

lemma safe_handle_route: "wf_Node hs n \<Longrightarrow> length from = 16 \<Longrightarrow> safe hs n (handle_route lib env from data n)"
  unfolding handle_route_def
proof (rule safe_pure)
  fix pa
  assume n: "wf_Node hs n" "length from = 16" and pa: "HandleRouteUpdate (alive_ids (en_peers env 1) n) (en_clk env 0)
    (en_clk env 1) from data (n_prop n) = Return pa"
  have "wf_Propagator (fst pa)"
    using wf_HandleRouteUpdate [OF wf_NodeD(3) [OF n(1)] n(2), of _ _ _ data "fst pa" "snd pa"] pa by simp
  note p = ok_prop [OF n(1) this]
  from safe_after [OF p safe_prop_acts [OF okD(1) [OF p]]]
  show "safe hs n (case pa of (p, acts) \<Rightarrow> prop_acts lib (en_conns env) 0 acts (n\<lparr>n_prop := p\<rparr>))" by (simp add: case_prod_beta)
qed

lemma HandleMessage_acts:
  assumes "wf_Node hs n" and "HandleMessage clk order from data (n_gossip n) = Return (h, e, acts)"
  shows "ok hs n (n\<lparr>n_gossip := e\<rparr>)" "list_all (wf_act n) acts" "e_conns e = e_conns (n_gossip n)"
proof -
  from HandleMessage_effect [OF wf_NodeD(2) [OF assms(1)], of clk order "from" data] assms(2)
  have e: "wf_Engine e" "e_conns e = e_conns (n_gossip n)"
    "\<And>c m. ControlWrite c m \<in> set acts \<Longrightarrow> e_conns (n_gossip n) (NodeID_String from) = Some c" by auto
  then show "ok hs n (n\<lparr>n_gossip := e\<rparr>)" "e_conns e = e_conns (n_gossip n)"
    using wf_NodeD(7) [OF assms(1)] engine_kept_message [OF assms(2)] by (auto intro: ok_gossip [OF assms(1)])
  show "list_all (wf_act n) acts"
    unfolding list_all_iff
  proof
    fix a
    assume a: "a \<in> set acts"
    show "wf_act n a"
      by (cases a; use a e(3) wf_NodeD(7) [OF assms(1)] HandleMessage_discovers [OF assms(2)] in auto)
  qed
qed

lemma safe_verified:
  assumes "wf_Node hs n" and "length from = 16"
  shows "safe hs n (handle_verified lib env from data n)"
  unfolding handle_verified_def
proof (rule safe_pure, clarify)
  fix h e acts
  assume "HandleMessage (en_clk env) (en_peers env 0) from data (n_gossip n) = Return (h, e, acts)"
  note acts = HandleMessage_acts [OF assms(1) this]
  have "wf_act (n\<lparr>n_gossip := e\<rparr>) = wf_act n"
  proof
    show "wf_act (n\<lparr>n_gossip := e\<rparr>) a = wf_act n a" for a by (cases a) simp_all
  qed
  with acts(2) have "list_all (wf_act (n\<lparr>n_gossip := e\<rparr>)) acts" by simp
  note eng = safe_after [OF acts(1) safe_engine_acts [OF okD(1) [OF acts(1)] this]]
  show "safe hs n (go_bind (engine_acts acts (n\<lparr>n_gossip := e\<rparr>)) (\<lambda>n.
       if h then Return n
       else go_bind (index_at data 0) (\<lambda>t.
         if t = MsgRouteUpdate then handle_route lib env from data n
         else if t = MsgTCPForward then Return n
         else if t = MsgUDPForward then relay_incoming (en_clk env) from data n
         else Return n)))"
    by (rule safe_bind [OF eng], drule okD(1))
       (auto simp: ok_refl safe_handle_route [OF _ assms(2)] safe_relay_incoming intro!: safe_pure)
qed

lemma safe_dispatch:
  "wf_Node hs n \<Longrightarrow> length from = 16 \<Longrightarrow> safe hs n (dispatchControlMsg lib env from data n)"
  by (auto simp: dispatchControlMsg_def ok_refl safe_verified intro!: safe_pure split: option.split)

subsection \<open>Work on a connection\<close>

lemma safe_add_direct:
  assumes "wf_Node hs n" and "length p = 16" and "c < length (n_links n)"
  shows "safe hs n (add_direct env p c n)"
proof -
  let ?r = "AddDirectConnection (en_clk env 0) (en_peers env 1) (remote_of n) p c (n_gossip n)"
  have wf: "wf_Engine (fst ?r)"
    using assms by (intro wf_AddDirectConnection) (simp_all add: wf_NodeD)
  have conns: "e_conns (fst ?r) = (e_conns (n_gossip n))(NodeID_String p \<mapsto> c)"
    and acts: "\<exists>msg. snd ?r = [ControlWrite c msg]"
    by (simp_all add: AddDirectConnection_def Let_def)
  have e: "ok hs n (n\<lparr>n_gossip := fst ?r\<rparr>)"
    using wf_NodeD(7) [OF assms(1)] assms(3) by (intro ok_gossip assms(1) wf engine_kept_direct) (simp only: conns, auto split: if_splits)
  with acts assms(3) have "safe hs n (engine_acts (snd ?r) (n\<lparr>n_gossip := fst ?r\<rparr>))"
    by (intro safe_after [OF e safe_engine_acts]) (auto dest: okD)
  then show ?thesis by (simp add: add_direct_def case_prod_beta)
qed

lemma safe_prop_step:
  assumes "wf_Node hs n" and "wf_Propagator (fst r)"
  shows "safe hs n (let (p, acts) = r in prop_acts lib orders i acts (n\<lparr>n_prop := p\<rparr>))"
  using safe_after [OF ok_prop [OF assms] safe_prop_acts [OF okD(1) [OF ok_prop [OF assms]]]]
  by (simp add: case_prod_beta)

lemma safe_advertise: "wf_Node hs n \<Longrightarrow> safe hs n (advertise lib env n)"
  unfolding advertise_def
  by (intro safe_prop_step) (simp_all add: AdvertiseDirectNetworks_def advertise_nets_wf wf_NodeD)

lemma safe_withdraw:
  "wf_Node hs n \<Longrightarrow> range_order (rt_routes (p_table (n_prop n))) (en_routes env 1) \<Longrightarrow> safe hs n (withdraw_from lib env p n)"
  unfolding withdraw_from_def
  by (intro safe_prop_step) (simp_all add: WithdrawAllFromPeer_def Let_def wf_Propagator_purge wf_NodeD)


lemma safe_start_reading:
  assumes "wf_Node (held (ControlLoop p c s mark) @ hs) n" and "length p = 16" and "c < length (n_links n)"
  shows "safe hs n (case ControlStream (conn_at n c) of None \<Rightarrow> Panic
    | Some s \<Rightarrow> Return (spawn (ControlLoop p c s mark) n))"
proof (cases "ControlStream (conn_at n c)")
  case (Some s')
  have "held (ControlLoop p c s' mark) = held (ControlLoop p c s mark)" by (cases mark) simp_all
  moreover have "valid_ref n c s'"
    using control_ref [OF wf_NodeD(4) [OF assms(1,3)] Some] assms(3) by (simp add: valid_ref_def)
  ultimately show ?thesis using Some assms by (simp add: ok_spawn)
qed simp

lemma safe_handleControl:
  assumes "wf_Node (held (ControlLoop p c s mark) @ hs) n" and "length p = 16" and "c < length (n_links n)"
  shows "safe hs n (handleControlMessages lib env p c initial mark n)"
  unfolding handleControlMessages_def
proof (rule safe_bind)
  show "safe (held (ControlLoop p c s mark) @ hs) n
    (case initial of None \<Rightarrow> Return n | Some data \<Rightarrow> dispatchControlMsg lib env p data n)"
    using assms by (simp add: ok_refl safe_dispatch split: option.split)
  fix n'
  assume n': "ok (held (ControlLoop p c s mark) @ hs) n n'"
  then show "safe hs n' (case ControlStream (conn_at n' c) of None \<Rightarrow> Panic
      | Some s \<Rightarrow> Return (spawn (ControlLoop p c s mark) n'))"
    by (rule safe_start_reading [OF okD(1)]) (use assms n' in \<open>auto dest: okD extends_links\<close>)
qed

lemma safe_announce:
  assumes "wf_Node (held (ControlLoop p c s mark) @ hs) n" and "length p = 16" and "c < length (n_links n)"
  shows "safe hs n (announce lib env p addr c mark n)"
proof -
  let ?hs = "held (ControlLoop p c s mark) @ hs" and ?n = "registerPeerUDPAddr lib p addr n"
  have reg: "ok ?hs n ?n" by (rule ok_register [OF assms(1)])
  have c: "c < length (n_links n')" if "ok hs' m n'" "c < length (n_links m)" for hs' m n'
    using that by (auto dest: okD extends_links)
  show ?thesis unfolding announce_def Let_def
  proof (rule safe_after [OF reg], rule safe_bind [OF safe_logged [OF ok_control_write]])
    show "wf_Node ?hs ?n" "c < length (n_links ?n)" using reg c [OF reg assms(3)] by (simp_all add: ok_def)
    fix n1
    assume n1: "ok ?hs ?n n1"
    then have c1: "c < length (n_links n1)" using c [OF reg assms(3)] c by blast
    show "safe hs n1 (go_bind (add_direct env p c n1) (\<lambda>n. go_bind (advertise lib env n)
        (\<lambda>n. handleControlMessages lib env p c None mark (spawn (StreamLoop p c) n))))"
    proof (rule safe_bind [OF safe_add_direct [OF okD(1) [OF n1] assms(2) c1]])
      fix n2
      assume n2: "ok ?hs n1 n2"
      show "safe hs n2 (go_bind (advertise lib env n2)
          (\<lambda>n. handleControlMessages lib env p c None mark (spawn (StreamLoop p c) n)))"
      proof (rule safe_bind [OF safe_advertise [OF okD(1) [OF n2]]])
        fix n3
        assume n3: "ok ?hs n2 n3"
        have c3: "c < length (n_links n3)" using c [OF n3 c [OF n2 c1]] .
        have sp: "ok ?hs n3 (spawn (StreamLoop p c) n3)"
          using n3 c3 by (intro ok_spawn_free) (simp_all add: ok_def)
        show "safe hs n3 (handleControlMessages lib env p c None mark (spawn (StreamLoop p c) n3))"
          by (rule safe_after [OF sp safe_handleControl [OF okD(1) [OF sp] assms(2) c [OF sp c3]]])
      qed
    qed
  qed
qed

subsection \<open>Goroutines\<close>

lemma node_dial_Return: "node_dial env addr = Return k \<Longrightarrow> \<exists>raw. k = newConn raw"
  by (auto simp: node_dial_def Transport_Dial_def split: option.splits prod.splits)

lemma ok_connectToPeer: "wf_Node hs n \<Longrightarrow> length p = 16 \<Longrightarrow> ok hs n (connectToPeer p addr n)"
  by (cases rule: tryMark_cases [of hs n addr])
     (auto simp: connectToPeer_def ok_refl intro!: ok_trans [OF _ ok_spawn] dest: okD)

text \<open>A new connection that is either dropped as a duplicate or stored and announced.\<close>

lemma safe_new_conn:
  assumes n: "wf_Node (held (ControlLoop p 0 0 mark) @ hs) n" and p: "length p = 16" and r: "length (en_remote env) < 256"
    and add: "add_link (newConn raw) (en_remote env) n = (c, n')"
    and drop: "\<And>m. wf_Node (held (ControlLoop p 0 0 mark) @ hs) m \<Longrightarrow> ok hs m (drop_mark m)"
  shows "safe hs n (if dup n' then Return (drop_mark (close_conn c n'))
    else announce lib env p addr c mark (store_conn p c n'))"
proof -
  let ?hs = "held (ControlLoop p 0 0 mark) @ hs"
  note link = ok_add_link [OF n add r]
  note wf = okD(1) [OF link(1)]
  note close = ok_close_conn [OF wf link(2)]
  note store = ok_store [OF wf link(2), of p]
  have "c < length (n_links (store_conn p c n'))" using extends_links [OF okD(2) [OF store] link(2)] .
  moreover have "held (ControlLoop p c s mark) = held (ControlLoop p 0 0 mark)" for s by (cases mark) simp_all
  ultimately have "safe hs (store_conn p c n') (announce lib env p addr c mark (store_conn p c n'))"
    by (intro safe_announce [where s = 0]) (use okD(1) [OF store] p in simp_all)
  from safe_after [OF ok_trans [OF link(1) store] this]
    ok_trans [OF ok_trans [OF link(1) close] drop [OF okD(1) [OF close]]]
  show ?thesis by simp
qed

lemma safe_connect_dialled:
  assumes "wf_Node (addr # hs) n" and "length p = 16" and "length (en_remote env) < 256"
  shows "safe hs n (connect_dialled lib env p addr n)"
proof (cases "node_dial env addr")
  case (Error e)
  have "ok hs n (spawn (ReconnectPeer p) (unmarkDialing addr n))"
    using assms(1,2) by (intro ok_trans [OF ok_unmark ok_spawn_free]) (auto dest: okD(1) [OF ok_unmark])
  with Error show ?thesis by (simp add: connect_dialled_def)
next
  case (Return k)
  then obtain raw where k: "k = newConn raw" using node_dial_Return by blast
  obtain c n' where add: "add_link (newConn raw) (en_remote env) (unmarkDialing addr n) = (c, n')" by (cases "add_link (newConn raw) (en_remote env) (unmarkDialing addr n)")
  note un = ok_unmark [OF assms(1)]
  have "safe hs (unmarkDialing addr n) (if n_peerConns n' (NodeID_String p) \<noteq> None then Return (close_conn c n')
      else announce lib env p addr c None (store_conn p c n'))"
    by (rule safe_new_conn [where mark = None and drop_mark = "\<lambda>m. m" and dup = "\<lambda>m. n_peerConns m (NodeID_String p) \<noteq> None", OF _ assms(2,3) add])
       (use okD(1) [OF un] in \<open>simp_all add: ok_refl\<close>)
  from safe_after [OF un this] show ?thesis using Return k add by (simp add: connect_dialled_def)
qed (simp add: connect_dialled_def)

lemma ok_reconnect_head:
  assumes "wf_Node (mark # hs) n" and "length p = 16" and "in_backoff 60 b"
  shows "ok hs n (reconnect_head p mark b n)"
  using assms ok_unmark [OF assms(1)] ok_spawn [of "Reconnecting p mark addr b" hs n for addr]
  by (auto simp: reconnect_head_def split: option.split)

lemma ok_reconnectPeer: "wf_Node hs n \<Longrightarrow> length p = 16 \<Longrightarrow> ok hs n (reconnectPeer p n)"
proof (cases "PeerManager_Get p (e_peers (n_gossip n))")
  case (Some q)
  assume n: "wf_Node hs n" "length p = 16"
  have b: "in_backoff 60 (1 * second)" by (simp add: in_backoff_def second_def)
  from n(1) show ?thesis
  proof (cases rule: tryMark_cases [of hs n "pr_Addr q"])
    case (2 n')
    from ok_trans [OF 2(2) ok_reconnect_head [OF okD(1) [OF 2(2)] n(2) b]] 2(1) Some n(1)
    show ?thesis by (simp add: reconnectPeer_def ok_refl)
  qed (use n Some in \<open>simp_all add: reconnectPeer_def ok_refl\<close>)
qed (simp add: reconnectPeer_def ok_refl)

lemma safe_reconnect_dialled:
  assumes "wf_Node (mark # hs) n" and "length p = 16" and "length (en_remote env) < 256" and "in_backoff 60 b"
  shows "safe hs n (reconnect_dialled lib env p mark addr b n)"
proof (cases "node_dial env addr")
  case (Error e)
  with assms ok_spawn [of "ReconnectSleep p mark b d t" hs n for d t] show ?thesis by (simp add: reconnect_dialled_def)
next
  case (Return k)
  then obtain raw where k: "k = newConn raw" using node_dial_Return by blast
  obtain c n' where add: "add_link (newConn raw) (en_remote env) n = (c, n')" by (cases "add_link (newConn raw) (en_remote env) n")
  have "safe hs n (if live_conn p n' \<noteq> None then Return (unmarkDialing mark (close_conn c n'))
      else announce lib env p addr c (Some mark) (store_conn p c n'))"
    by (rule safe_new_conn [where mark = "Some mark" and dup = "\<lambda>m. live_conn p m \<noteq> None", OF _ assms(2,3) add])
       (use assms(1) ok_unmark in simp_all)
  then show ?thesis using Return k add by (simp add: reconnect_dialled_def)
qed (simp add: reconnect_dialled_def)

lemma in_backoff_next: "in_backoff mx b \<Longrightarrow> 1 \<le> mx \<Longrightarrow> in_backoff mx (next_backoff (mx * second) b)"
  by (auto simp: in_backoff_def next_backoff_def Let_def second_def)

lemma ok_reconnect_slept:
  assumes "wf_Node (mark # hs) n" and "length p = 16" and "in_backoff 60 b"
    and "reconnect_slept env p mark b d t n = Some n'"
  shows "ok hs n n'"
  using assms ok_unmark [OF assms(1)] ok_reconnect_head [OF assms(1,2) in_backoff_next [OF assms(3)]]
  by (auto simp: reconnect_slept_def split: if_splits)

lemma safe_connection_lost:
  assumes "wf_Node (held (ControlLoop p 0 0 mark) @ hs) n" and "length p = 16" and "c < length (n_links n)"
    and "range_order (rt_routes (p_table (n_prop n))) (en_routes env 1)"
  shows "safe hs n (connection_lost lib env p c mark n)"
proof -
  let ?hs = "held (ControlLoop p 0 0 mark) @ hs"
  let ?n1 = "n\<lparr>n_peerConns := (n_peerConns n)(NodeID_String p := None)\<rparr>"
  let ?n2 = "close_conn c ?n1"
  let ?n3 = "?n2\<lparr>n_gossip := RemoveDirectConnection p (n_gossip ?n2)\<rparr>"
  let ?n4 = "?n3\<lparr>n_gossip := (n_gossip ?n3)\<lparr>e_peers := MarkDead p (e_peers (n_gossip ?n3))\<rparr>\<rparr>"
  have n1: "ok ?hs n ?n1" by (rule ok_forget [OF assms(1)])
  have n2: "ok ?hs ?n1 ?n2" by (rule ok_close_conn [OF okD(1) [OF n1]]) (simp add: assms(3))
  have n3: "ok ?hs ?n2 ?n3"
    using wf_NodeD(2,7) [OF okD(1) [OF n2]]
    by (intro ok_gossip [OF okD(1) [OF n2]]) (auto simp: RemoveDirectConnection_def wf_Engine_conns split: if_splits)
  have n4: "ok ?hs ?n3 ?n4"
    using wf_NodeD(2,7) [OF okD(1) [OF n3]]
    by (intro ok_gossip [OF okD(1) [OF n3]]) (auto simp: wf_Engine_Mark engine_kept_Mark)
  have start: "ok ?hs n ?n4" by (rule ok_trans [OF ok_trans [OF ok_trans [OF n1 n2] n3] n4])
  have "n_prop ?n4 = n_prop n" by (simp add: close_conn_def set_conn_def)
  with assms(4) have wd: "safe ?hs ?n4 (withdraw_from lib env p ?n4)"
    by (intro safe_withdraw okD(1) [OF start]) simp
  have fin: "ok hs n' (case mark of None \<Rightarrow> spawn (ReconnectPeer p) n' | Some m \<Rightarrow> reconnect_head p m (1 * second) n')"
    if "ok ?hs ?n4 n'" for n'
  proof (cases mark)
    case (Some m)
    have "in_backoff 60 (1 * second)" by (simp add: in_backoff_def second_def)
    from ok_reconnect_head [OF _ assms(2) this, of m hs n'] Some that show ?thesis by (simp add: ok_def)
  qed (use that assms(2) in \<open>simp add: ok_spawn_free okD\<close>)
  have "safe hs ?n4 (go_bind (withdraw_from lib env p ?n4) (\<lambda>n'. Return (case mark of
      None \<Rightarrow> spawn (ReconnectPeer p) n' | Some m \<Rightarrow> reconnect_head p m (1 * second) n')))"
    by (rule safe_bind [OF wd]) (simp only: safe_Return fin)
  from safe_after [OF start this] show ?thesis by (simp only: connection_lost_def Let_def)
qed

lemma ok_stream_read:
  assumes "wf_Node hs n" and "valid_ref n c s" and "streamConn_Read k \<lparr>sc_conn = c, sc_stream = s\<rparr> n = Some (res, n')"
  shows "ok hs n n'" "n_prop n' = n_prop n" "res \<noteq> Panic"
proof -
  obtain st where st: "Stream_Read k (c_objs (conn_at n c) ! s) = Some (res, st)"
    "n' = set_conn c (upd_stream s (\<lambda>_. st) (conn_at n c)) n"
    using assms(3) by (auto simp: streamConn_Read_def)
  then show "ok hs n n'" using assms(2) ok_set_conn [OF assms(1) _ conn_step.reads [OF _ st(1)]]
    by (simp add: valid_ref_def)
  show "n_prop n' = n_prop n" using st(2) by (simp add: set_conn_def)
  show "res \<noteq> Panic" using Stream_Read_no_panic [OF st(1)] .
qed

lemma control_held: "held (ControlLoop p c s mark) = held (ControlLoop p c' s' mark)"
  by (cases mark) simp_all

lemma safe_control_read:
  assumes "wf_Node (held (ControlLoop p c s mark) @ hs) n" and "length p = 16" and "valid_ref n c s"
    and "range_order (rt_routes (p_table (n_prop n))) (en_routes env 1)" and "control_read lib env p c s mark n = Some m"
  shows "safe hs n m"
proof -
  let ?hs = "held (ControlLoop p c s mark) @ hs"
  obtain res n' where rd: "streamConn_Read 65536 \<lparr>sc_conn = c, sc_stream = s\<rparr> n = Some (res, n')"
    using assms(5) by (cases "streamConn_Read 65536 \<lparr>sc_conn = c, sc_stream = s\<rparr> n") (auto simp: control_read_def)
  note n' = ok_stream_read [OF assms(1,3) rd]
  note ref = extends_ref [OF okD(2) [OF n'(1)] assms(3)]
  show ?thesis
  proof (cases res)
    case (Error e)
    have "safe hs n' (connection_lost lib env p c mark n')"
      using okD(1) [OF n'(1)] assms(2,4) ref n'(2) unfolding control_held [of p c s mark 0 0]
      by (intro safe_connection_lost) (simp_all add: valid_ref_def)
    from safe_after [OF n'(1) this] show ?thesis using Error rd assms(5) by (simp add: control_read_def)
  next
    case (Return data)
    have "safe hs n' (go_bind (dispatchControlMsg lib env p data n') (\<lambda>n. Return (spawn (ControlLoop p c s mark) n)))"
    proof (rule safe_bind [OF safe_dispatch [OF okD(1) [OF n'(1)] assms(2)]])
      fix n2
      assume "ok ?hs n' n2"
      then show "safe hs n2 (Return (spawn (ControlLoop p c s mark) n2))"
        using assms(2) extends_ref [OF okD(2) ref] by (simp add: ok_spawn okD)
    qed
    from safe_after [OF n'(1) this] show ?thesis using Return rd assms(5) by (auto simp: control_read_def)
  qed (use n'(3) in simp)
qed

lemma first_peer_length: "first_peer data = Return p \<Longrightarrow> length p = 16"
  by (auto simp: first_peer_def split: if_splits outcome.splits list.splits)

text \<open>A connection whose peer is known from its first message.\<close>

lemma safe_identified:
  assumes "wf_Node hs n" and "length p = 16" and "c < length (n_links n)"
  shows "safe hs n (handleControlMessages lib env p c initial None (spawn (StreamLoop p c) n))"
proof -
  have sp: "ok hs n (spawn (StreamLoop p c) n)" using assms by (intro ok_spawn_free) simp_all
  have "safe hs (spawn (StreamLoop p c) n) (handleControlMessages lib env p c initial None (spawn (StreamLoop p c) n))"
    using okD(1) [OF sp] assms extends_links [OF okD(2) [OF sp]] by (intro safe_handleControl [where s = 0]) simp_all
  from safe_after [OF sp this] show ?thesis .
qed

lemma safe_incoming_read:
  assumes "wf_Node hs n" and "valid_ref n c s" and "incoming_read lib env c s n = Some m"
  shows "safe hs n m"
proof -
  obtain res n' where rd: "streamConn_Read 65536 \<lparr>sc_conn = c, sc_stream = s\<rparr> n = Some (res, n')"
    using assms(3) by (cases "streamConn_Read 65536 \<lparr>sc_conn = c, sc_stream = s\<rparr> n") (auto simp: incoming_read_def)
  note n' = ok_stream_read [OF assms(1,2) rd]
  note wf = okD(1) [OF n'(1)]
  have c: "c < length (n_links n')" using extends_ref [OF okD(2) [OF n'(1)] assms(2)] by (simp add: valid_ref_def)
  have close: "ok hs n (close_conn c n')" by (rule ok_trans [OF n'(1) ok_close_conn [OF wf c]])
  show ?thesis
  proof (cases res)
    case (Return data)
    have "safe hs n (go_bind (first_peer data) (\<lambda>p. if NodeID_IsZero p then Return (close_conn c n')
            else go_bind (add_direct env p c (registerPeerUDPAddr lib p (remote_of n' c) (store_conn p c n'))) (\<lambda>n.
              handleControlMessages lib (env_shift 2 env) p c (Some data) None (spawn (StreamLoop p c) n))))"
    proof (rule safe_pure)
      fix p
      assume "first_peer data = Return p"
      then have p: "length p = 16" by (rule first_peer_length)
      let ?n = "registerPeerUDPAddr lib p (remote_of n' c) (store_conn p c n')"
      note st = ok_store [OF wf c, of p]
      note reg = ok_trans [OF st ok_register [OF okD(1) [OF st]], of lib p "remote_of n' c"]
      have c': "c < length (n_links ?n)" using extends_links [OF okD(2) [OF reg] c] .
      have "safe hs ?n (go_bind (add_direct env p c ?n) (\<lambda>n.
          handleControlMessages lib (env_shift 2 env) p c (Some data) None (spawn (StreamLoop p c) n)))"
        by (rule safe_bind [OF safe_add_direct [OF okD(1) [OF reg] p c']])
           (auto intro!: safe_identified p dest: okD extends_links [OF _ c'])
      from safe_after [OF ok_trans [OF n'(1) reg] this] close
      show "safe hs n (if NodeID_IsZero p then Return (close_conn c n') else go_bind (add_direct env p c ?n) (\<lambda>n.
          handleControlMessages lib (env_shift 2 env) p c (Some data) None (spawn (StreamLoop p c) n)))" by simp
    qed
    then show ?thesis using Return rd assms(3) by (simp add: incoming_read_def)
  qed (use n'(3) close rd assms(3) in \<open>auto simp: incoming_read_def\<close>)
qed

lemma ok_bootstrap_head: "wf_Node hs n \<Longrightarrow> in_backoff 30 b \<Longrightarrow> ok hs n (bootstrap_head addr b n)"
  by (simp add: bootstrap_head_def ok_refl ok_spawn_free)

lemma ok_bootstrap_retry: "wf_Node hs n \<Longrightarrow> in_backoff 30 b \<Longrightarrow> ok hs n (bootstrap_retry env addr b n)"
  by (simp add: bootstrap_retry_def ok_spawn_free)

lemma ok_bootstrap_slept:
  "wf_Node hs n \<Longrightarrow> in_backoff 30 b \<Longrightarrow> bootstrap_slept env addr b d t n = Some n' \<Longrightarrow> ok hs n n'"
  by (auto simp: bootstrap_slept_def ok_refl ok_bootstrap_head in_backoff_next split: if_splits)

lemma ok_bootstrap: "wf_Node hs n \<Longrightarrow> ok hs n (bootstrap n)"
proof -
  have "ok hs n (fold (\<lambda>addr n. spawn (BootstrapPeer addr) n) as n)" if "wf_Node hs n" for n as
    using that
  proof (induction as arbitrary: n)
    case (Cons a as)
    have sp: "ok hs n (spawn (BootstrapPeer a) n)" using Cons.prems by (simp add: ok_spawn_free)
    from ok_trans [OF sp Cons.IH [OF okD(1) [OF sp]]] show ?case by simp
  qed (simp add: ok_refl)
  then show "wf_Node hs n \<Longrightarrow> ok hs n (bootstrap n)" by (simp add: bootstrap_def)
qed

lemma safe_bootstrap_dialled:
  assumes "wf_Node hs n" and "length (en_remote env) < 256" and "in_backoff 30 b"
  shows "safe hs n (bootstrap_dialled env addr b n)"
proof (cases "node_dial env addr")
  case (Return k)
  then obtain raw where k: "k = newConn raw" using node_dial_Return by blast
  obtain c n' where add: "add_link (newConn raw) (en_remote env) n = (c, n')" by (cases "add_link (newConn raw) (en_remote env) n")
  note link = ok_add_link [OF assms(1) add assms(2)]
  note wf = okD(1) [OF link(1)]
  have "safe hs n (case ControlStream (conn_at n' c) of None \<Rightarrow> Panic | Some s \<Rightarrow>
      go_bind (logged (streamConn_Write msg \<lparr>sc_conn = c, sc_stream = s\<rparr> n'))
        (\<lambda>n. Return (spawn (BootstrapRead addr c s b) n)))" for msg
  proof (cases "ControlStream (conn_at n' c)")
    case (Some s)
    have s: "s < length (c_objs (conn_at n' c))" using control_ref [OF wf_NodeD(4) [OF wf link(2)] Some] .
    then have w: "ok hs n' (snd (streamConn_Write msg \<lparr>sc_conn = c, sc_stream = s\<rparr> n'))"
      using ok_set_conn [OF wf link(2) conn_step.writes] by (simp add: streamConn_Write_def case_prod_beta)
    have "safe hs n' (go_bind (logged (streamConn_Write msg \<lparr>sc_conn = c, sc_stream = s\<rparr> n'))
        (\<lambda>n. Return (spawn (BootstrapRead addr c s b) n)))"
    proof (rule safe_bind [OF safe_logged [OF w]])
      fix n2
      assume n2: "ok hs n' n2"
      have "valid_ref n' c s" using link(2) s by (simp add: valid_ref_def)
      from extends_ref [OF okD(2) [OF n2] this] show "safe hs n2 (Return (spawn (BootstrapRead addr c s b) n2))"
        using okD(1) [OF n2] assms(3) by (simp add: ok_spawn_free)
    qed
    from safe_after [OF link(1) this] Some show ?thesis by simp
  qed simp
  then show ?thesis using Return k add by (simp add: bootstrap_dialled_def)
qed (use assms ok_bootstrap_retry in \<open>simp_all add: bootstrap_dialled_def\<close>)

lemma safe_bootstrap_read:
  assumes "wf_Node hs n" and "valid_ref n c s" and "in_backoff 30 b" and "bootstrap_read lib env addr c s b n = Some m"
  shows "safe hs n m"
proof -
  obtain res n' where rd: "streamConn_Read 65536 \<lparr>sc_conn = c, sc_stream = s\<rparr> n = Some (res, n')"
    using assms(4) by (cases "streamConn_Read 65536 \<lparr>sc_conn = c, sc_stream = s\<rparr> n") (auto simp: bootstrap_read_def)
  note n' = ok_stream_read [OF assms(1,2) rd]
  note wf = okD(1) [OF n'(1)]
  have c: "c < length (n_links n')" using extends_ref [OF okD(2) [OF n'(1)] assms(2)] by (simp add: valid_ref_def)
  have close: "ok hs n (close_conn c n')" by (rule ok_trans [OF n'(1) ok_close_conn [OF wf c]])
  have retry: "ok hs n (bootstrap_retry env addr b (close_conn c n'))"
    by (rule ok_trans [OF close ok_bootstrap_retry [OF okD(1) [OF close] assms(3)]])
  show ?thesis
  proof (cases res)
    case (Return data)
    have "safe hs n (go_bind (first_peer data) (\<lambda>p. if NodeID_IsZero p then Return (bootstrap_retry env addr b (close_conn c n'))
            else if live_conn p n' \<noteq> None then Return (close_conn c n')
            else go_bind (add_direct env p c (store_conn p c n')) (\<lambda>n.
              handleControlMessages lib (env_shift 2 env) p c (Some data) None
                (spawn (StreamLoop p c) (registerPeerUDPAddr lib p addr n)))))"
    proof (rule safe_pure)
      fix p
      assume "first_peer data = Return p"
      then have p: "length p = 16" by (rule first_peer_length)
      note st = ok_store [OF wf c, of p]
      have c': "c < length (n_links (store_conn p c n'))" using extends_links [OF okD(2) [OF st] c] .
      have "safe hs (store_conn p c n') (go_bind (add_direct env p c (store_conn p c n')) (\<lambda>n.
          handleControlMessages lib (env_shift 2 env) p c (Some data) None
            (spawn (StreamLoop p c) (registerPeerUDPAddr lib p addr n))))"
      proof (rule safe_bind [OF safe_add_direct [OF okD(1) [OF st] p c']])
        fix n2
        assume n2: "ok hs (store_conn p c n') n2"
        note reg = ok_register [OF okD(1) [OF n2], of lib p addr]
        have "c < length (n_links (registerPeerUDPAddr lib p addr n2))"
          using extends_links [OF okD(2) [OF ok_trans [OF n2 reg]] c'] .
        from safe_after [OF reg safe_identified [OF okD(1) [OF reg] p this]]
        show "safe hs n2 (handleControlMessages lib (env_shift 2 env) p c (Some data) None
            (spawn (StreamLoop p c) (registerPeerUDPAddr lib p addr n2)))" .
      qed
      from safe_after [OF ok_trans [OF n'(1) st] this] close retry
      show "safe hs n (if NodeID_IsZero p then Return (bootstrap_retry env addr b (close_conn c n'))
            else if live_conn p n' \<noteq> None then Return (close_conn c n')
            else go_bind (add_direct env p c (store_conn p c n')) (\<lambda>n.
              handleControlMessages lib (env_shift 2 env) p c (Some data) None
                (spawn (StreamLoop p c) (registerPeerUDPAddr lib p addr n))))" by simp
    qed
    then show ?thesis using Return rd assms(4) by (simp add: bootstrap_read_def)
  qed (use n'(3) retry rd assms(4) in \<open>auto simp: bootstrap_read_def\<close>)
qed

lemma ok_acceptLoop:
  assumes "wf_Node hs n" and "length (en_remote env) < 256" and "rl_last (n_acceptLimiter n) \<le> en_clk env 0"
    and "acceptLoop env n = Some n'"
  shows "ok hs n n'"
proof -
  from assms(4) obtain l res l' where l: "n_ln n = Some l" "Listener_Accept (en_pick env) l = Some (res, l')"
    by (auto simp: acceptLoop_def split: option.splits)
  let ?n = "n\<lparr>n_ln := Some l'\<rparr>"
  have ln: "ok hs n ?n" using assms(1) by (intro ok_change) (auto simp: wf_Node_def wf_parts_def wf_maps_def)
  have again: "ok hs m (spawn AcceptLoop m)" if "wf_Node hs m" for m using that by (simp add: ok_spawn_free)
  show ?thesis
  proof (cases res)
    case (Return k)
    then obtain raw where k: "k = newConn raw" using l(2) by (auto simp: Listener_Accept_def split: if_splits)
    obtain c n1 where add: "add_link (newConn raw) (en_remote env) ?n = (c, n1)" by (cases "add_link (newConn raw) (en_remote env) ?n")
    note link = ok_add_link [OF okD(1) [OF ln] add assms(2)]
    have lim: "n_acceptLimiter n1 = n_acceptLimiter n" using add by (auto simp: add_link_def)
    let ?r = "allow (en_clk env 0) (n_acceptLimiter n1)" and ?n2 = "n1\<lparr>n_acceptLimiter := snd (allow (en_clk env 0) (n_acceptLimiter n1))\<rparr>"
    have "wf_limiter (snd ?r)"
      using allow_wf [of "n_acceptLimiter n1"] okD(1) [OF link(1)] assms(3) by (simp add: wf_Node_def wf_parts_def lim)
    then have n2: "ok hs n1 ?n2"
      using okD(1) [OF link(1)] by (intro ok_change) (auto simp: wf_Node_def wf_parts_def wf_maps_def)
    have nxt: "ok hs ?n2 (if fst ?r then spawn (IncomingConn c) ?n2 else close_conn c ?n2)"
      using okD(1) [OF n2] link(2) by (auto intro: ok_spawn_free ok_close_conn)
    note fin = ok_trans [OF ok_trans [OF ok_trans [OF ok_trans [OF ln link(1)] n2] nxt] again [OF okD(1) [OF nxt]]]
    show ?thesis using assms(4) l Return k add fin by (auto simp: acceptLoop_def Let_def case_prod_beta)
  qed (use assms(4) l ln ok_trans [OF ln again [OF okD(1) [OF ln]]] in \<open>auto simp: acceptLoop_def Let_def split: if_splits\<close>)
qed

lemma ok_streams:
  assumes "wf_Node hs n" and "c < length (n_links n)" and "handleIncomingStreams env p c n = Some n'"
  shows "ok hs n n'"
proof -
  from assms(3) obtain res k where acc: "AcceptStream (en_pick env) (conn_at n c) = Some (res, k)"
    by (auto simp: handleIncomingStreams_def split: option.splits)
  have set: "ok hs n (set_conn c k n)" by (rule ok_set_conn [OF assms(1,2) conn_step.accepts [OF acc]])
  have c: "c < length (n_links (set_conn c k n))" using extends_links [OF okD(2) [OF set] assms(2)] .
  show ?thesis
  proof (cases res)
    case (Return s)
    have "valid_ref n c s" using accept_ref [OF wf_NodeD(4) [OF assms(1,2)]] acc Return assms(2) by (simp add: valid_ref_def)
    then have "valid_ref (set_conn c k n) c s" by (rule extends_ref [OF okD(2) [OF set]])
    then have sp: "ok hs (set_conn c k n) (spawn (RelayStream p c s) (set_conn c k n))"
      using okD(1) [OF set] by (simp add: ok_spawn_free)
    have "ok hs (spawn (RelayStream p c s) (set_conn c k n)) (spawn (StreamLoop p c) (spawn (RelayStream p c s) (set_conn c k n)))"
      using okD(1) [OF sp] extends_links [OF okD(2) [OF sp] c] by (simp add: ok_spawn_free)
    from ok_trans [OF ok_trans [OF set sp] this] assms(3) acc Return show ?thesis by (simp add: handleIncomingStreams_def)
  qed (use assms(3) acc set in \<open>auto simp: handleIncomingStreams_def\<close>)
qed

lemma safe_relay_stream:
  assumes "wf_Node hs n" and "valid_ref n c s" and "relay_stream env c s n = Some m"
  shows "safe hs n m"
proof -
  from assms(3) obtain res st where r: "HandleIncomingRelay (en_dialTCP env) (en_writeTCP env) (c_objs (conn_at n c) ! s) = Some (res, st)"
    by (auto simp: relay_stream_def split: option.splits)
  then obtain rd where "Stream_Read 32768 (c_objs (conn_at n c) ! s) = Some (rd, st)"
    by (auto simp: HandleIncomingRelay_def)
  from ok_set_conn [OF assms(1) _ conn_step.reads [OF _ this]] assms(2)
  have "ok hs n (set_conn c (upd_stream s (\<lambda>_. st) (conn_at n c)) n)" by (simp add: valid_ref_def)
  with assms(3) r show ?thesis by (cases res; cases "fst res") (auto simp: relay_stream_def)
qed

lemma safe_udpReadLoop: "wf_Node hs n \<Longrightarrow> udpReadLoop env n = Some m \<Longrightarrow> safe hs n m"
  by (auto simp: udpReadLoop_def ok_refl ok_spawn_free dest: okD
      intro!: safe_bind [OF safe_udp_datagram] split: option.splits prod.splits)

subsection \<open>Periodic work\<close>

lemma wf_Propagator_expire:
  assumes "wf_Propagator p" and "range_order (rt_routes (p_table p)) order"
  shows "wf_Propagator (p\<lparr>p_table := snd (GC order now ttl (p_table p))\<rparr>)"
proof -
  have "snd (GC order now ttl (p_table p)) = (p_table p)\<lparr>rt_routes :=
      fold (sweep_key (\<lambda>r. now - r_Timestamp r < ttl)) order (rt_routes (p_table p))\<rparr>"
    using assms(2) by (simp add: GC_eq range_order_def)
  with assms sweep_table [OF assms(2), of "\<lambda>r. now - r_Timestamp r < ttl"] show ?thesis
    by (simp add: wf_Propagator_def)
qed

lemma wf_Session_GC: "wf_sessions st \<Longrightarrow> range_order (st_sessions st) order \<Longrightarrow> wf_sessions (Session_GC order now st)"
  using Lookup_Session_GC [of st order _ now]
  by (auto simp: wf_sessions_def Session_Lookup_def Option.bind_eq_Some_conv split: if_splits)

lemma push_targets_acts:
  "wf_Node hs n \<Longrightarrow> list_all (wf_act n') (push_targets orders i ts (n_gossip n))" if "n_links n' = n_links n"
  by (induction ts arbitrary: i) (auto simp: SendTo_def that dest: wf_NodeD(7) split: option.splits)

lemma safe_probe_tick: "wf_Node hs n \<Longrightarrow> safe hs n (probe_tick env n)"
proof -
  assume n: "wf_Node hs n"
  define fails where "fails = (\<lambda>c. case fst (control_write c (signMsg (n_gossip n) EncodePing) n) of Error _ \<Rightarrow> True | _ \<Rightarrow> False)"
  obtain rng e acts timer where pr: "probeRandomPeer (en_peers env 0) fails (n_rng n) (n_gossip n) = (rng, e, acts, timer)"
    by (cases "probeRandomPeer (en_peers env 0) fails (n_rng n) (n_gossip n)")
  let ?n = "n\<lparr>n_gossip := e, n_rng := rng\<rparr>"
  have e: "wf_Engine e" "e_conns e = e_conns (n_gossip n)" "list_all (wf_act ?n) acts" "engine_kept (n_gossip n) e"
    using pr wf_NodeD(2,7) [OF n]
    by (auto simp: probeRandomPeer_def Let_def wf_Engine_Mark engine_kept_Mark split: if_splits option.splits)
  have "ok hs n ?n"
    using n e(1,2,4) by (intro ok_change) (auto simp: wf_Node_def wf_parts_def wf_maps_def engine_kept_def speaks_for_def)
  note acts = safe_after [OF this safe_engine_acts [OF okD(1) [OF this] e(3)]]
  have "safe hs n (go_bind (engine_acts acts ?n) (\<lambda>n. Return (case timer of None \<Rightarrow> n
      | Some target \<Rightarrow> spawn (ProbeTimer target (en_clk env 0)) n)))"
    by (rule safe_bind [OF acts]) (auto simp: ok_refl ok_spawn_free dest: okD split: option.split)
  with pr show ?thesis by (simp add: probe_tick_def Let_def fails_def)
qed

lemma safe_tick:
  assumes n: "wf_Node hs n" and env: "valid_env env n"
  shows "safe hs n (tick lib env k n)"
proof (cases k)
  case PushTick
  have "safe hs n (engine_acts acts (n\<lparr>n_rng := rng\<rparr>))"
    if "pushToRandom (en_peers env 0) (\<lambda>i. en_peers env (i + 1)) (n_rng n) (n_gossip n) = Return (rng, acts)" for rng acts
  proof -
    have r: "ok hs n (n\<lparr>n_rng := rng\<rparr>)" using n by (intro ok_change) (auto simp: wf_Node_def wf_parts_def wf_maps_def)
    have "list_all (wf_act (n\<lparr>n_rng := rng\<rparr>)) acts"
      using that push_targets_acts [OF _ n, of "n\<lparr>n_rng := rng\<rparr>"] by (auto simp: pushToRandom_def go_outcome)
    from safe_after [OF r safe_engine_acts [OF okD(1) [OF r] this]] show ?thesis .
  qed
  with PushTick show ?thesis by (auto intro!: safe_pure)
next
  case AdvertiseTick
  show ?thesis unfolding AdvertiseTick tick.simps
    by (intro safe_prop_step n)
       (simp add: advertise_tick_def AdvertiseDirectNetworks_def case_prod_beta Let_def advertise_nets_wf wf_NodeD [OF n])
next
  case SessionGCTick
  then show ?thesis
    using n env by (auto intro!: ok_sessions wf_Session_GC simp: valid_env_def wf_Node_def wf_parts_def)
next
  case RouteGCTick
  then show ?thesis using env by (auto intro!: ok_prop n wf_Propagator_expire simp: valid_env_def wf_NodeD [OF n])
next
  case StatsTick
  have "ok hs n (n\<lparr>n_stats := st\<rparr>)" if "stat_Connected st" for st
    using n that by (intro ok_change) (auto simp: wf_Node_def wf_parts_def wf_maps_def)
  with StatsTick n show ?thesis by (simp add: Stats_Update_def wf_Node_def wf_parts_def)
qed (simp add: safe_probe_tick n)

lemma safe_ticker: "wf_Node hs n \<Longrightarrow> valid_env env n \<Longrightarrow> ticker_loop lib env k started n = Some m \<Longrightarrow> safe hs n m"
  by (auto simp: ticker_loop_def ok_refl ok_spawn_free dest: okD intro!: safe_bind [OF safe_tick] split: if_splits)

lemma ok_probe_timer: "wf_Node hs n \<Longrightarrow> probe_timer env target t n = Some n' \<Longrightarrow> ok hs n n'"
proof -
  assume n: "wf_Node hs n" and t: "probe_timer env target t n = Some n'"
  have "ok hs n (n\<lparr>n_gossip := probe_timeout now target (n_gossip n)\<rparr>)" for now
    using wf_NodeD(2,7) [OF n]
    by (intro ok_gossip n) (auto simp: probe_timeout_def wf_Engine_Mark engine_kept_Mark split: option.splits if_splits)
  with n t show ?thesis by (auto simp: probe_timer_def Let_def ok_refl split: if_splits)
qed

subsection \<open>Steps\<close>

lemma run_safe:
  assumes n: "wf_Node (held t @ hs) n" and t: "wf_task n t" and env: "valid_env env n" and m: "run lib env t n = Some m"
  shows "safe hs n m"
proof -
  have e: "length (en_remote env) < 256" "\<And>i. rl_last (n_acceptLimiter n) \<le> en_clk env i"
    "range_order (rt_routes (p_table (n_prop n))) (en_routes env 1)"
    using env by (simp_all add: valid_env_def)
  show ?thesis
  proof (cases t)
    case AcceptLoop
    then show ?thesis using ok_acceptLoop [OF _ e(1,2), of hs] n m by auto
  next
    case (IncomingConn c)
    show ?thesis
    proof (cases "ControlStream (conn_at n c)")
      case (Some s)
      have "valid_ref n c s"
        using control_ref [OF wf_NodeD(4) [OF n] Some] t IncomingConn by (simp add: valid_ref_def)
      then show ?thesis using Some n m IncomingConn by (auto simp: handleIncomingConn_def ok_spawn_free)
    qed (use m IncomingConn in \<open>auto simp: handleIncomingConn_def\<close>)
  next
    case (BootstrapPeer addr)
    have "in_backoff 30 (1 * second)" by (simp add: in_backoff_def second_def)
    then show ?thesis using n m BootstrapPeer by (auto intro: ok_bootstrap_head)
  next
    case (ControlLoop p c s mark)
    then show ?thesis using safe_control_read [of p c s mark hs n env lib m] n t m e by simp
  qed (use n t m e env in \<open>auto intro: ok_acceptLoop safe_incoming_read ok_connectToPeer safe_connect_dialled
      ok_reconnectPeer safe_reconnect_dialled ok_reconnect_slept ok_bootstrap safe_bootstrap_dialled
      ok_bootstrap_slept safe_bootstrap_read ok_streams safe_relay_stream safe_udpReadLoop safe_ticker ok_probe_timer\<close>)
qed

lemma without_split: "i < length xs \<Longrightarrow> \<exists>as bs. xs = as @ (xs ! i) # bs \<and> without i xs = as @ bs"
  unfolding without_def by (metis id_take_nth_drop)

text \<open>Taking a task out hands its marks to the goroutine that runs it.\<close>

lemma take_task:
  assumes "wf_Node hs n" and "i < length (n_tasks n)"
  shows "wf_Node (held (n_tasks n ! i) @ hs) (n\<lparr>n_tasks := without i (n_tasks n)\<rparr>)"
    "wf_task (n\<lparr>n_tasks := without i (n_tasks n)\<rparr>) (n_tasks n ! i)"
proof -
  let ?n = "n\<lparr>n_tasks := without i (n_tasks n)\<rparr>" and ?t = "n_tasks n ! i"
  obtain as bs where split: "n_tasks n = as @ ?t # bs" "without i (n_tasks n) = as @ bs"
    using without_split [OF assms(2)] by blast
  have task: "wf_task (n\<lparr>n_tasks := ts\<rparr>) = wf_task n" for ts using same_links(2) [of "n\<lparr>n_tasks := ts\<rparr>" n] by (simp add: fun_eq_iff)
  have marks: "mset (marks n) = mset (held ?t @ marks ?n)"
    unfolding marks_def by (subst split(1)) (simp add: split(2))
  then have "mset (held ?t @ hs @ marks ?n) = mset (hs @ marks n)" by simp
  then have "distinct (held ?t @ hs @ marks ?n) = distinct (hs @ marks n)" "set (held ?t @ hs @ marks ?n) = set (hs @ marks n)"
    by (metis mset_eq_imp_distinct_iff, metis mset_eq_setD)
  moreover have "list_all (wf_task n) (n_tasks n)" using assms(1) by (simp add: wf_Node_def wf_tasks_def)
  then have "list_all (wf_task n) (as @ bs)" "wf_task n ?t" by (subst (asm) split(1), simp)+
  ultimately show "wf_Node (held ?t @ hs) ?n" "wf_task ?n ?t"
    using assms(1) by (simp_all add: wf_Node_def wf_tasks_def wf_parts_def wf_maps_def task split(2))
qed

lemma open_attempts_ref: "open_attempts k c = (Return s, c') \<Longrightarrow> s < length (c_objs c')"
proof (induction k arbitrary: c)
  case (Suc k)
  show ?case
  proof (cases "c_streams c (c_nextID c)")
    case None
    with Suc.prems show ?thesis by (auto simp: add_stream_def Let_def)
  next
    case (Some x)
    with Suc.prems have "open_attempts k (c\<lparr>c_nextID := advance_id (c_nextID c)\<rparr>) = (Return s, c')" by (simp add: Let_def)
    then show ?thesis by (rule Suc.IH)
  qed
qed simp

lemma ok_dial_peer: "wf_Node hs n \<Longrightarrow> ok hs n (snd (dial_peer p target n))"
proof (cases "getPeerConn p n")
  case (Some c)
  assume n: "wf_Node hs n"
  have c: "c < length (n_links n)" using wf_NodeD(6) [OF n] Some by (simp add: getPeerConn_def)
  obtain res k where os: "OpenStream (conn_at n c) = (res, k)" by (cases "OpenStream (conn_at n c)")
  have k: "wf_Conn k" "refs_kept (conn_at n c) k"
    using wf_OpenStream [OF wf_NodeD(4) [OF n c]] os by (auto simp: refs_kept_def)
  have set: "ok hs n (set_conn c k' n)" if "wf_Conn k'" "refs_kept k k'" for k'
    unfolding set_conn_def
    using wf_link_nth [OF n c] that refs_kept_trans [OF k(2) that(2)]
    by (intro ok_link n c) (auto simp: wf_link_def conn_at_def refs_kept_loop)
  have step: "wf_Conn k2 \<and> refs_kept k k2" if "conn_step (k1, LoopRead) (k2, LoopRead)" "wf_Conn k1" "refs_kept k k1" for k1 k2
    using wf_conn_step [OF that(1)] conn_step_refs [OF that(1)] that(2,3) by (auto intro: refs_kept_trans)
  show ?thesis
  proof (cases res)
    case (Return s)
    have s: "s < length (c_objs k)" using Return os by (auto simp: OpenStream_def dest: open_attempts_ref split: if_splits)
    let ?w = "Stream_Write s (forward_header target (sm_id (c_objs k ! s))) k"
    have w: "wf_Conn (snd ?w)" "refs_kept k (snd ?w)"
      using step [OF conn_step.writes [OF s] k(1)] by auto
    have "wf_Conn (snd (Stream_Close s (snd ?w))) \<and> refs_kept k (snd (Stream_Close s (snd ?w)))"
      using step [OF conn_step.stream_closes [OF refs_kept_length [OF w(2) s]] w] .
    with set w Some os Return show ?thesis
      by (cases ?w; cases "fst ?w") (auto simp: dial_peer_def)
  qed (use set k Some os in \<open>auto simp: dial_peer_def\<close>)
qed (simp add: dial_peer_def ok_refl)

lemma ok_udp_forward: "wf_Node hs n \<Longrightarrow> ok hs n (udp_forward clk hop sid target payload n)"
proof -
  assume n: "wf_Node hs n"
  let ?r = "CreateSession (clk 0) (clk 1) None (Some target) hop (n_udpRelay n)"
  have "wf_sessions (ur_sessions (snd ?r))"
    using n by (simp add: CreateSession_def case_prod_beta wf_sessions_ops wf_Node_def wf_parts_def)
  note r = ok_sessions [OF n this]
  from ok_trans [OF r ok_relay_acts [OF okD(1) [OF r]]] show ?thesis
    by (simp add: udp_forward_def case_prod_beta)
qed

lemma ok_socks_udp: "wf_Node hs n \<Longrightarrow> ok hs n (socks_udp clk dial_ok ev n)"
proof (cases ev)
  case (UDPDirect target payload)
  assume n: "wf_Node hs n"
  have "ok hs n (n\<lparr>n_directOut := d\<rparr>)" for d using n by (intro ok_change) (auto simp: wf_Node_def wf_parts_def wf_maps_def)
  with n UDPDirect show ?thesis by (simp add: udp_direct_def ok_refl)
qed (simp_all add: ok_refl ok_udp_forward)

lemma ok_Node_Stop: "wf_Node hs n \<Longrightarrow> ok hs n (Node_Stop order n)"
proof -
  assume n: "wf_Node hs n"
  let ?n = "n\<lparr>n_cancelled := True, n_udpLn := False, n_socks := Server_Stop (n_socks n)\<rparr>"
  have start: "ok hs n ?n" using n by (intro ok_change) (auto simp: wf_Node_def wf_parts_def wf_maps_def)
  have "ok hs m (fold (\<lambda>key n. case n_peerConns n key of None \<Rightarrow> n | Some c \<Rightarrow> close_conn c n) order m)"
    if "wf_Node hs m" for m
    using that
  proof (induction order arbitrary: m)
    case (Cons key order)
    have "ok hs m (case n_peerConns m key of None \<Rightarrow> m | Some c \<Rightarrow> close_conn c m)"
      using Cons.prems by (auto simp: ok_refl wf_NodeD(6) intro: ok_close_conn split: option.split)
    from ok_trans [OF this Cons.IH [OF okD(1) [OF this]]] show ?case by simp
  qed (simp add: ok_refl)
  from ok_trans [OF start this [OF okD(1) [OF start]]] show ?thesis by (simp add: Node_Stop_def)
qed

lemma wf_node_step: "node_step lib n n' \<Longrightarrow> wf_Node [] n \<Longrightarrow> wf_Node [] n'"
proof (induction rule: node_step.induct)
  case (runs i n env n')
  note t = take_task [OF runs(4,1)]
  have "valid_env env (n\<lparr>n_tasks := without i (n_tasks n)\<rparr>)" using runs(2) by (simp add: valid_env_def)
  from run_safe [OF t this runs(3)] show ?case by (simp add: ok_def)
next
  case (transport c n k l)
  show ?case by (rule okD(1) [OF ok_conn_step [OF transport(3,1,2)]])
next
  case (listening n l l')
  have "ok [] n (n\<lparr>n_ln := Some l'\<rparr>)"
    using listening(3) by (intro ok_change) (auto simp: wf_Node_def wf_parts_def wf_maps_def)
  then show ?case by (rule okD)
next
  case (socks_tcp n peerID target)
  show ?case by (rule okD(1) [OF ok_dial_peer [OF socks_tcp]])
next
  case (socks_datagram n clk dial_ok ev)
  show ?case by (rule okD(1) [OF ok_socks_udp [OF socks_datagram]])
next
  case (stops n order)
  show ?case by (rule okD(1) [OF ok_Node_Stop [OF stops]])
qed

subsection \<open>The first state\<close>

lemma LoadOrCreate_ID: "fst (LoadOrCreate derive sha256 file random write_ok) = Return idt \<Longrightarrow> length (id_ID idt) = 16"
  by (auto simp: LoadOrCreate_def createAndSave_def FromSeed_def fromKeypair_def Let_def
      split: read_result.splits outcome.splits option.splits if_splits)

lemma wf_Node_New:
  assumes "Node_New lib now rng (fst (LoadOrCreate derive sha256 file random write_ok)) cfg = Return n"
    and "length (nc_ListenAddr (cfg_Node cfg)) < 256"
  shows "wf_Node [] n \<and> n_tasks n = []"
proof -
  from assms(1) obtain idt nets where load: "fst (LoadOrCreate derive sha256 file random write_ok) = Return idt"
    and nets: "parse_networks (rc_DirectNetworks (cfg_Routing cfg)) = Inr nets"
    by (auto simp: Node_New_def split: outcome.splits sum.splits)
  have ID: "length (id_ID idt) = 16" by (rule LoadOrCreate_ID [OF load])
  have "wf_Engine (NewEngine (id_ID idt) (nc_ListenAddr (cfg_Node cfg)) (copy_array 32 (id_PubKey idt)) (gossip_config lib cfg))"
    using ID assms(2) by (intro wf_NewEngine) simp_all
  then have e: "wf_Engine (n_gossip n)" "e_conns (n_gossip n) = Map.empty" "wf_keys (n_gossip n)"
    "speaks_for (n_identity n) (n_cfg n) (n_gossip n)"
    using assms(1) load nets
    by (auto simp: Node_New_def wireCallbacks_def Let_def wf_Engine_def OnPeerDead_def OnPeerDiscovered_def SetSignFunc_def
        NewEngine_def wf_keys_def speaks_for_def self_of_def PeerManager_Get_def NewPeerManager_def)
  have "wf_table (SetDirectNetworks nets (NewRoutingTable (id_ID idt)))"
    by (simp add: wf_SetDirectNetworks wf_NewRoutingTable)
  moreover have "routes_of (SetDirectNetworks nets (NewRoutingTable (id_ID idt))) = {}"
    by (simp add: routes_of_def SetDirectNetworks_def NewRoutingTable_def)
  ultimately have p: "wf_Propagator (n_prop n)"
    using assms(1) load nets ID
    by (auto simp: Node_New_def wireCallbacks_def Let_def wf_Propagator_def SetPeersFunc_def SetBroadcaster_def
        SetSender_def NewPropagator_def)
  have "wf_sessions (ur_sessions (n_udpRelay n))" "wf_limiter (n_acceptLimiter n)" "n_links n = []" "n_tasks n = []"
    "n_reconnecting n = {}" "n_peerConns n = Map.empty" "stat_Connected (n_stats n)"
    using assms(1) load nets wf_sessions_ops(1)
    by (auto simp: Node_New_def wireCallbacks_def Let_def NewUDPRelay_def SetDeliverFunc_def SetSendFunc_def
        wf_limiter_def newRateLimiter_def NewStats_def)
  with e p show ?thesis by (simp add: wf_Node_def wf_parts_def wf_maps_def wf_tasks_def marks_def)
qed

lemma ok_Node_Start: "wf_Node [] n \<Longrightarrow> ok [] n (snd (Node_Start lib se n))"
proof -
  assume n: "wf_Node [] n"
  have change: "ok [] n (m\<lparr>n_ln := l\<rparr>)" "ok [] n (m\<lparr>n_udpLn := b\<rparr>)" "ok [] n (m\<lparr>n_socks := sv\<rparr>)" if "ok [] n m" for m l b sv
    using okD(1) [OF that]
    by (intro ok_trans [OF that ok_change]; auto simp: wf_Node_def wf_parts_def wf_maps_def)+
  have sp: "ok [] n (spawn t m)" if "ok [] n m" "held t = []" "\<And>n. wf_task n t" for m t
    using that by (intro ok_trans [OF that(1) ok_spawn_free]) (auto dest: okD)
  show ?thesis
    using ok_refl [OF n]
    by (auto simp: Node_Start_def Let_def intro!: change sp split: outcome.split)
qed

definition started :: "library \<Rightarrow> Node \<Rightarrow> bool" where
  "started lib n \<longleftrightarrow> (\<exists>now rng derive sha256 file random write_ok cfg n0 se.
     Node_New lib now rng (fst (LoadOrCreate derive sha256 file random write_ok)) cfg = Return n0 \<and>
     length (nc_ListenAddr (cfg_Node cfg)) < 256 \<and> n = snd (Node_Start lib se n0))"

interpretation running: invariant "node_step lib" "started lib" "wf_Node []" for lib
proof unfold_locales
  show "wf_Node [] n" if "started lib n" for n
    using that ok_Node_Start wf_Node_New unfolding started_def by (metis okD(1))
  show "node_step lib n n' \<Longrightarrow> wf_Node [] n \<Longrightarrow> wf_Node [] n'" for n n' by (rule wf_node_step)
qed

subsection \<open>Properties\<close>

text \<open>
  C8: In every state a node can reach, whatever its peers and its clients send and however its
  goroutines interleave, the invariants of the peer table, the routing table, the sessions, the
  connections and the rate limiter hold, every connection that a map or a waiting goroutine
  refers to exists, backoffs lie between a second and their bounds, and no two goroutines hold the
  mark of the same address: the set of addresses being dialled is exactly what they hold.
\<close>

theorem node_reachable_wf:
  assumes "Node_New lib now rng (fst (LoadOrCreate derive sha256 file random write_ok)) cfg = Return n0"
    and "length (nc_ListenAddr (cfg_Node cfg)) < 256" and "(node_step lib)\<^sup>*\<^sup>* (snd (Node_Start lib se n0)) n"
  shows "wf_Node [] n \<and> distinct (marks n) \<and> set (marks n) = n_reconnecting n"
proof -
  have "started lib (snd (Node_Start lib se n0))" using assms(1,2) unfolding started_def by blast
  from running.reachable_inv [OF this assms(3)] show ?thesis by (simp add: wf_Node_def wf_tasks_def)
qed

definition sample_library :: library where
  "sample_library = \<lparr>lib_sign = \<lambda>_ _. replicate 64 7, lib_verify = \<lambda>_ _ sig. sig = replicate 64 7, lib_frac = \<lambda>_ _ _. 0,
     lib_ResolveUDPAddr = \<lambda>_. Some \<lparr>addr_IP = [192, 0, 2, 1], addr_Port = 9443\<rparr>\<rparr>"

definition sample_config :: Config where
  "sample_config = DefaultConfig\<lparr>cfg_Gossip := (cfg_Gossip DefaultConfig)\<lparr>gs_BootstrapPeers := [''192.0.2.2:9443'']\<rparr>\<rparr>"

definition sample_start :: start_env where
  "sample_start = \<lparr>st_tls = True, st_listen = True, st_udpListen = True, st_socks = True, st_health = True\<rparr>"

definition sample_env :: env where
  "sample_env = \<lparr>en_clk = \<lambda>_. 0, en_peers = \<lambda>_. [], en_conns = \<lambda>_. [], en_routes = \<lambda>_. [], en_udpAddrs = [],
     en_peerConns = [], en_sessions = [], en_pick = False, en_rnd = \<lambda>_. 0, en_dial = None, en_remote = [],
     en_udp = None, en_fired = False, en_dialTCP = \<lambda>_. True, en_writeTCP = \<lambda>_. True\<rparr>"

lemma sample_loaded: "fst (LoadOrCreate (\<lambda>s. s) (\<lambda>b. b) (FileData (EncodeToString (replicate 32 5))) None True) =
    Return (fromKeypair (\<lambda>b. b) (replicate 32 5) (replicate 64 5))"
  by (simp add: LoadOrCreate_def DecodeString_EncodeToString FromSeed_def replicate_add [symmetric])

theorem node_reachable_wf_witness:
  "\<exists>n0 n. Node_New sample_library 0 1 (fst (LoadOrCreate (\<lambda>s. s) (\<lambda>b. b) (FileData (EncodeToString (replicate 32 5))) None True))
     sample_config = Return n0 \<and> (node_step sample_library)\<^sup>*\<^sup>* (snd (Node_Start sample_library sample_start n0)) n \<and>
     BootstrapPeer ''192.0.2.2:9443'' \<in> set (n_tasks n) \<and> wf_Node [] n"
proof -
  obtain n0 where n0: "Node_New sample_library 0 1 (fst (LoadOrCreate (\<lambda>s. s) (\<lambda>b. b) (FileData (EncodeToString (replicate 32 5))) None True))
      sample_config = Return n0" and fresh: "rt_routes (p_table (n_prop n0)) = Map.empty" "n_cfg n0 = sample_config"
      "st_sessions (ur_sessions (n_udpRelay n0)) = Map.empty" "rl_last (n_acceptLimiter n0) = 0" "n_tasks n0 = []"
    by (simp add: sample_loaded Node_New_def sample_config_def DefaultConfig_def wireCallbacks_def SetPeersFunc_def
        SetBroadcaster_def SetSender_def NewPropagator_def SetDirectNetworks_def NewRoutingTable_def SetDeliverFunc_def
        SetSendFunc_def NewUDPRelay_def NewSessionTable_def newRateLimiter_def)
  let ?n = "snd (Node_Start sample_library sample_start n0)"
  have start: "n_tasks ?n = [UdpReadLoop, Ticker PushTick False, Ticker ProbeTick False, Ticker AdvertiseTick False,
      Ticker SessionGCTick False, Ticker RouteGCTick False, AcceptLoop, Ticker StatsTick False, Bootstrap]"
    "n_prop ?n = n_prop n0" "n_cfg ?n = n_cfg n0" "n_udpRelay ?n = n_udpRelay n0" "n_acceptLimiter ?n = n_acceptLimiter n0"
    by (simp_all add: Node_Start_def sample_start_def sample_library_def Listen_def Server_Start_def spawn_def fresh(5) Let_def)
  let ?m = "?n\<lparr>n_tasks := without 8 (n_tasks ?n)\<rparr>"
  have "node_step sample_library ?n (bootstrap ?m)"
    by (rule node_step.runs [of 8 _ sample_env])
       (simp_all add: start fresh valid_env_def sample_env_def range_order_def)
  moreover have "BootstrapPeer ''192.0.2.2:9443'' \<in> set (n_tasks (bootstrap ?m))"
    by (simp add: bootstrap_def start fresh sample_config_def spawn_def)
  moreover have "length (nc_ListenAddr (cfg_Node sample_config)) < 256" by (simp add: sample_config_def DefaultConfig_def)
  ultimately show ?thesis using n0 node_reachable_wf [OF n0, of sample_start "bootstrap ?m"] by blast
qed

end
