(* ===== verification/Gossip_Network.thy ===== *)
theory Gossip_Network
  imports Gossip_Engine
begin

text \<open>
  A network of gossip engines. Nodes run gossip/gossip.go; what an engine writes to a connection is
  put in flight to the node at its other end, and is delivered in any order or lost. A step of the
  network is a node handling a message, registering or losing a connection, one tick of its push
  or probe loop, or the time-out of a probe. All nodes are honest: they run the program, and a
  connection is registered under the name of the node at its other end.

  Shown: in every reachable state the peers a node knows are nodes of the network and the public
  keys it has for them are theirs, so their messages verify; and news of a node spreads along every
  path of connections and is never forgotten.
\<close>

subsection \<open>The system\<close>

record gossip_net =
  gn_nodes :: "NodeID \<rightharpoonup> Engine"
  gn_flight :: "(NodeID \<times> NodeID \<times> bytes) list"

text \<open>\<open>far\<close> says which node is at the other end of a connection.\<close>

fun sent_to :: "NodeID \<Rightarrow> (conn_id \<Rightarrow> NodeID) \<Rightarrow> engine_action \<Rightarrow> (NodeID \<times> NodeID \<times> bytes) list" where
  "sent_to self far (ControlWrite c msg) = [(self, far c, msg)]"
| "sent_to self far (PeerDiscovered p) = []"

definition engine_does ::
  "NodeID \<Rightarrow> (conn_id \<Rightarrow> NodeID) \<Rightarrow> Engine \<times> engine_action list \<Rightarrow> gossip_net \<Rightarrow> gossip_net" where
  "engine_does self far res net =
     net\<lparr>gn_nodes := (gn_nodes net)(self \<mapsto> fst res),
         gn_flight := gn_flight net @ concat (map (sent_to self far) (snd res))\<rparr>"

inductive gossip_step :: "gossip_net \<Rightarrow> gossip_net \<Rightarrow> bool" where
  receives: "gossip_step net (engine_does b far (e', acts) (net\<lparr>gn_flight := xs @ ys\<rparr>))"
    if "gn_nodes net b = Some e" "gn_flight net = xs @ (a, b, data) # ys"
      "range_order (pm_peers (e_peers e)) order" "HandleMessage clk order a data e = Return (h, e', acts)"
| loses: "gossip_step net (net\<lparr>gn_flight := xs @ ys\<rparr>)"
    if "gn_flight net = xs @ m # ys"
| connects: "gossip_step net (engine_does b far (e', acts) net)"
    if "gn_nodes net b = Some e" "AddDirectConnection now order addr a c e = (e', acts)" "a \<in> dom (gn_nodes net)"
      "length (addr c) < 256" "range_order (pm_peers (e_peers e')) order"
| disconnects: "gossip_step net (engine_does b far (e\<lparr>e_conns := e_conns (RemoveDirectConnection a e),
      e_peers := MarkDead a (e_peers e)\<rparr>, []) net)"
    if "gn_nodes net b = Some e"
| pushes: "gossip_step net (engine_does b far (e, acts) net)"
    if "gn_nodes net b = Some e" "pushToRandom order orders rng e = Return (rng', acts)"
      "\<And>i. range_order (pm_peers (e_peers e)) (orders i)"
| probes: "gossip_step net (engine_does b far (e', acts) net)"
    if "gn_nodes net b = Some e" "probeRandomPeer order fails rng e = (rng', e', acts, timer)"
| expires: "gossip_step net (engine_does b far (probe_timeout now target e, []) net)"
    if "gn_nodes net b = Some e"

subsection \<open>Genuine knowledge\<close>

text \<open>\<open>K\<close> gives the public key of every node.\<close>

definition genuine_entry :: "(NodeID \<rightharpoonup> bytes) \<Rightarrow> PeerEntry \<Rightarrow> bool" where
  "genuine_entry K en \<longleftrightarrow> pe_ID en \<in> dom K \<and> (isZeroPubKey (pe_PubKey en) \<or> K (pe_ID en) = Some (pe_PubKey en))"

definition genuine_msg :: "(NodeID \<rightharpoonup> bytes) \<Rightarrow> bytes \<Rightarrow> bool" where
  "genuine_msg K data \<longleftrightarrow> (\<forall>msg. DecodeGossipPush data = Return msg \<longrightarrow> list_all (genuine_entry K) (gp_Peers msg))"

definition genuine_peers :: "(NodeID \<rightharpoonup> bytes) \<Rightarrow> PeerManager \<Rightarrow> bool" where
  "genuine_peers K pm \<longleftrightarrow> (\<forall>nid p. PeerManager_Get nid pm = Some p \<longrightarrow>
     nid \<in> dom K \<and> (pr_PubKey p = [] \<or> K nid = Some (pr_PubKey p)))"

text \<open>A signature is put behind the message.\<close>

definition appends_signature :: "Engine \<Rightarrow> bool" where
  "appends_signature e \<longleftrightarrow> (\<forall>msg. \<exists>sig. signMsg e msg = msg @ sig)"

definition genuine_node :: "(NodeID \<rightharpoonup> bytes) \<Rightarrow> NodeID \<Rightarrow> Engine \<Rightarrow> bool" where
  "genuine_node K b e \<longleftrightarrow> wf_Engine e \<and> e_selfID e = b \<and> K b = Some (e_pubKey e) \<and> appends_signature e \<and>
     genuine_peers K (e_peers e)"

definition genuine_net :: "(NodeID \<rightharpoonup> bytes) \<Rightarrow> gossip_net \<Rightarrow> bool" where
  "genuine_net K net \<longleftrightarrow> finite (dom K) \<and> card (dom K) < 65535 \<and> dom (gn_nodes net) = dom K \<and>
     (\<forall>b e. gn_nodes net b = Some e \<longrightarrow> genuine_node K b e) \<and> (\<forall>(a, b, data)\<in>set (gn_flight net). genuine_msg K data)"

lemma genuine_add:
  "genuine_peers K pm \<Longrightarrow> pr_ID p \<in> dom K \<Longrightarrow> pr_PubKey p = [] \<or> K (pr_ID p) = Some (pr_PubKey p) \<Longrightarrow>
     genuine_peers K (snd (AddOrUpdate now p pm))"
  by (auto simp: genuine_peers_def Get_AddOrUpdate merge_peer_def split: option.splits if_splits)

lemma genuine_Mark:
  "genuine_peers K pm \<Longrightarrow> genuine_peers K (MarkAlive now nid pm)"
  "genuine_peers K pm \<Longrightarrow> genuine_peers K (MarkSuspect nid pm)"
  "genuine_peers K pm \<Longrightarrow> genuine_peers K (MarkDead nid pm)"
  by (fastforce simp: genuine_peers_def Get_Mark split: if_splits)+

lemma isZeroPubKey_replicate: "isZeroPubKey (replicate n 0)"
  by (induction n) simp_all

text \<open>Only pushes carry knowledge.\<close>

lemma genuine_other: "t \<noteq> MsgGossipPush \<Longrightarrow> genuine_msg K (t # body)"
  using gossip_codec.rejects_other_tag by (auto simp: genuine_msg_def)

lemma known_are_nodes:
  assumes "genuine_node K b e"
  shows "dom (pm_peers (e_peers e)) \<subseteq> NodeID_String ` dom K"
proof
  fix key
  assume "key \<in> dom (pm_peers (e_peers e))"
  then obtain p where p: "pm_peers (e_peers e) key = Some p" by auto
  with assms have key: "key = NodeID_String (pr_ID p)" by (auto simp: genuine_node_def wf_Engine_def wf_peers_def)
  with p have "PeerManager_Get (pr_ID p) (e_peers e) = Some p" by (simp add: PeerManager_Get_def)
  with assms key show "key \<in> NodeID_String ` dom K" by (auto simp: genuine_node_def genuine_peers_def)
qed

lemma genuine_orders:
  assumes "genuine_node K b e" and "finite (dom K)" and "card (dom K) < 65535"
  shows "\<exists>order. range_order (pm_peers (e_peers e)) order"
    and "range_order (pm_peers (e_peers e)) order \<Longrightarrow> length order < 65535"
proof -
  have fin: "finite (dom (pm_peers (e_peers e)))"
    using known_are_nodes [OF assms(1)] assms(2) by (simp add: finite_subset)
  show "\<exists>order. range_order (pm_peers (e_peers e)) order"
    using finite_distinct_list [OF fin] by (auto simp: range_order_def)
  have "card (dom (pm_peers (e_peers e))) \<le> card (dom K)"
    using known_are_nodes [OF assms(1)] assms(2) by (meson card_image_le card_mono finite_imageI le_trans)
  with assms(3) show "length order < 65535" if "range_order (pm_peers (e_peers e)) order"
    using that by (simp add: range_order_def distinct_card [symmetric])
qed

lemma genuine_push:
  assumes "genuine_node K b e" and "length order < 65535"
  shows "genuine_msg K (buildGossipPush order e @ trailing)"
proof -
  have wf: "wf_Engine e" using assms(1) by (simp add: genuine_node_def)
  have "genuine_entry K (peer_entry p)" if "p \<in> set (GetAll order (e_peers e))" for p
  proof -
    from that obtain key where "pm_peers (e_peers e) key = Some p" by (auto simp: set_GetAll)
    then have "PeerManager_Get (pr_ID p) (e_peers e) = Some p"
      using wf by (auto simp: PeerManager_Get_def wf_Engine_def wf_peers_def)
    then have "length (pr_ID p) = 16" "pr_ID p \<in> dom K" "pr_PubKey p = [] \<or> K (pr_ID p) = Some (pr_PubKey p)"
      using assms(1) wf by (simp_all add: genuine_node_def genuine_peers_def wf_Engine_def)
    then show ?thesis by (auto simp: genuine_entry_def peer_entry_def isZeroPubKey_replicate)
  qed
  moreover have "genuine_entry K (self_entry e)"
    using assms(1) by (auto simp: genuine_node_def genuine_entry_def self_entry_def wf_Engine_def)
  moreover have "DecodeGossipPush (buildGossipPush order e @ trailing) =
      Return \<lparr>gp_Peers = self_entry e # map peer_entry (GetAll order (e_peers e))\<rparr>"
    unfolding buildGossipPush_def by (rule gossip_codec.dec_enc [OF wf_push [OF wf assms(2)]])
  ultimately show ?thesis by (simp add: genuine_msg_def list_all_iff)
qed

subsection \<open>Steps keep knowledge genuine\<close>

definition genuine_acts :: "(NodeID \<rightharpoonup> bytes) \<Rightarrow> engine_action list \<Rightarrow> bool" where
  "genuine_acts K acts \<longleftrightarrow> (\<forall>c msg. ControlWrite c msg \<in> set acts \<longrightarrow> genuine_msg K msg)"

lemma genuine_does:
  assumes "genuine_net K net" and "b \<in> dom (gn_nodes net)" and "genuine_node K b (fst res)" and "genuine_acts K (snd res)"
  shows "genuine_net K (engine_does b far res net)"
proof -
  have "genuine_msg K data" if "(a, c, data) \<in> set (sent_to b far act)" "act \<in> set (snd res)" for a c data act
    using that assms(4) by (cases act) (auto simp: genuine_acts_def)
  with assms(1-3) show ?thesis by (auto simp: genuine_net_def engine_does_def)
qed

lemma genuine_SendTo: "(\<And>trailing. genuine_msg K (msg @ trailing)) \<Longrightarrow> appends_signature e \<Longrightarrow> genuine_acts K (SendTo nid msg e)"
  by (auto simp: genuine_acts_def SendTo_def appends_signature_def split: option.splits) metis

lemma genuine_signed: "(\<And>trailing. genuine_msg K (msg @ trailing)) \<Longrightarrow> appends_signature e \<Longrightarrow> genuine_msg K (signMsg e msg)"
  unfolding appends_signature_def by metis

lemma genuine_append: "genuine_acts K (xs @ ys) \<longleftrightarrow> genuine_acts K xs \<and> genuine_acts K ys"
  by (auto simp: genuine_acts_def)

lemma genuine_control: "genuine_msg K (EncodePing @ trailing)" "genuine_msg K (EncodePong @ trailing)"
  by (simp_all add: EncodePing_def EncodePong_def genuine_other MsgGossipPush_def MsgPing_def MsgPong_def)

lemma genuine_node_peers:
  "genuine_node K b e \<Longrightarrow> wf_Engine (e\<lparr>e_peers := pm\<rparr>) \<Longrightarrow> genuine_peers K pm \<Longrightarrow> genuine_node K b (e\<lparr>e_peers := pm\<rparr>)"
  by (simp add: genuine_node_def appends_signature_def signMsg_def)

lemma genuine_node_conns: "genuine_node K b e \<Longrightarrow> genuine_node K b (e\<lparr>e_conns := conns\<rparr>)"
  by (auto simp: genuine_node_def wf_Engine_def appends_signature_def signMsg_def)

lemma genuine_handlePush:
  "genuine_node K b e \<Longrightarrow> list_all (genuine_entry K) entries \<Longrightarrow> list_all wf_PeerEntry entries \<Longrightarrow>
     genuine_node K b (fst (handlePush clk i entries e))"
proof (induction entries arbitrary: i e)
  case (Cons en entries)
  have id: "copy_array 16 (pe_ID en) = pe_ID en" "copy_array 32 (pe_PubKey en) = pe_PubKey en"
    using Cons.prems(3) by (simp_all add: wf_PeerEntry_def)
  have "wf_Engine (e\<lparr>e_peers := snd (AddOrUpdate (clk i) (pushed_peer en) (e_peers e))\<rparr>)"
    using Cons.prems by (intro wf_Engine_add) (simp_all add: pushed_peer_def wf_PeerEntry_def genuine_node_def)
  moreover have "genuine_peers K (snd (AddOrUpdate (clk i) (pushed_peer en) (e_peers e)))"
    using Cons.prems by (intro genuine_add) (auto simp: id pushed_peer_def genuine_entry_def genuine_node_def)
  ultimately have "genuine_node K b (e\<lparr>e_peers := snd (AddOrUpdate (clk i) (pushed_peer en) (e_peers e))\<rparr>)"
    by (rule genuine_node_peers [OF Cons.prems(1)])
  with Cons show ?case by (simp add: Let_def case_prod_beta)
qed simp

lemma genuine_HandleMessage:
  assumes "genuine_node K b e" and "genuine_msg K data" and "length order < 65535"
    and "HandleMessage clk order a data e = Return (h, e', acts)"
  shows "genuine_node K b e' \<and> genuine_acts K acts"
proof -
  have sig: "appends_signature e" and wf: "wf_Engine e" using assms(1) by (simp_all add: genuine_node_def)
  have none: "genuine_acts K []" by (simp add: genuine_acts_def)
  have mark: "genuine_node K b (e\<lparr>e_peers := MarkAlive (clk 0) a (e_peers e)\<rparr>)"
    using assms(1) wf by (intro genuine_node_peers wf_Engine_Mark genuine_Mark) (simp_all add: genuine_node_def)
  show ?thesis
  proof (cases "length data \<noteq> 0 \<and> data ! 0 = MsgGossipPush")
    case True
    show ?thesis
    proof (cases "DecodeGossipPush data")
      case (Return msg)
      then have "list_all wf_PeerEntry (gp_Peers msg)" using DecodeGossipPush_wf by (simp add: wf_GossipPush_def)
      moreover have "list_all (genuine_entry K) (gp_Peers msg)" using assms(2) Return by (simp add: genuine_msg_def)
      ultimately have "genuine_node K b (fst (handlePush clk 0 (gp_Peers msg) e))"
        using genuine_handlePush [OF assms(1)] by blast
      moreover have "handlePush clk 0 (gp_Peers msg) e = (e', acts)"
        using assms(4) True Return by (simp add: HandleMessage_def case_prod_beta prod_eq_iff)
      ultimately show ?thesis using handlePush_acts [of _ _ clk 0 "gp_Peers msg" e] by (simp add: genuine_acts_def)
    qed (use assms(1,4) True none in \<open>auto simp: HandleMessage_def\<close>)
  next
    case False
    then show ?thesis
      using assms(1,4) mark none genuine_SendTo [OF genuine_push [OF assms(1,3)] sig, of a]
        genuine_SendTo [OF genuine_control(2) sig, of K a]
      by (auto simp: HandleMessage_def split: if_splits)
  qed
qed

lemma genuine_AddDirectConnection:
  assumes "genuine_node K b e" and "AddDirectConnection now order addr a c e = (e', acts)" and "a \<in> dom K"
    and "length (addr c) < 256" and "length a = 16"
  shows "genuine_node K b e'" and "length order < 65535 \<Longrightarrow> genuine_acts K acts"
proof -
  let ?p = "\<lparr>pr_ID = a, pr_PubKey = [], pr_Addr = addr c, pr_State = PeerAlive, pr_Version = 0, pr_LastSeen = 0, pr_DirectNets = []\<rparr>"
  let ?e = "e\<lparr>e_conns := (e_conns e)(NodeID_String a \<mapsto> c)\<rparr>"
  have e': "e' = ?e\<lparr>e_peers := snd (AddOrUpdate now ?p (e_peers ?e))\<rparr>" "acts = [ControlWrite c (signMsg e' (buildGossipPush order e'))]"
    using assms(2) by (auto simp: AddDirectConnection_def Let_def)
  have "genuine_node K b ?e" by (rule genuine_node_conns [OF assms(1)])
  moreover from this have "wf_Engine (?e\<lparr>e_peers := snd (AddOrUpdate now ?p (e_peers ?e))\<rparr>)"
    using assms(4,5) by (intro wf_Engine_add) (simp_all add: genuine_node_def)
  moreover have "genuine_peers K (snd (AddOrUpdate now ?p (e_peers ?e)))"
    using assms(1,3) by (intro genuine_add) (simp_all add: genuine_node_def)
  ultimately show node: "genuine_node K b e'" unfolding e'(1) by (rule genuine_node_peers)
  show "genuine_acts K acts" if "length order < 65535"
    using genuine_signed [OF genuine_push [OF node that]] node unfolding e'(2) genuine_acts_def by (auto simp: genuine_node_def)
qed

lemma genuine_push_targets:
  "genuine_node K b e \<Longrightarrow> (\<And>i. length (orders i) < 65535) \<Longrightarrow> genuine_acts K (push_targets orders i targets e)"
proof (induction targets arbitrary: i)
  case (Cons target targets)
  have "genuine_acts K (SendTo (pr_ID target) (buildGossipPush (orders i) e) e)"
    using Cons.prems by (intro genuine_SendTo genuine_push) (auto simp: genuine_node_def)
  with Cons show ?case by (simp add: genuine_append)  (simp add: genuine_acts_def)
qed (simp add: genuine_acts_def)

lemma genuine_probe:
  assumes "genuine_node K b e" and "probeRandomPeer order fails rng e = (rng', e', acts, timer)"
  shows "genuine_node K b e' \<and> genuine_acts K acts"
proof -
  have "genuine_node K b (e\<lparr>e_peers := MarkSuspect nid (e_peers e)\<rparr>)" for nid
    using assms(1) by (intro genuine_node_peers wf_Engine_Mark genuine_Mark) (simp_all add: genuine_node_def)
  moreover have "genuine_msg K (signMsg e EncodePing)"
    using assms(1) by (intro genuine_signed genuine_control) (simp add: genuine_node_def)
  ultimately show ?thesis
    using assms by (auto simp: probeRandomPeer_def Let_def genuine_acts_def split: if_splits option.splits)
qed

lemma genuine_timeout: "genuine_node K b e \<Longrightarrow> genuine_node K b (probe_timeout now target e)"
  by (auto simp: probe_timeout_def split: option.split
      intro!: genuine_node_peers wf_Engine_Mark genuine_Mark) (simp_all add: genuine_node_def)

lemma genuine_step: "gossip_step net net' \<Longrightarrow> genuine_net K net \<Longrightarrow> genuine_net K net'"
proof (induction rule: gossip_step.induct)
  case (receives net b e xs a data ys order clk h e' acts far)
  have K: "finite (dom K)" "card (dom K) < 65535" "genuine_node K b e" "genuine_msg K data"
    using receives.prems receives.hyps(1,2) by (auto simp: genuine_net_def)
  have "genuine_node K b e' \<and> genuine_acts K acts"
    by (rule genuine_HandleMessage [OF K(3,4) genuine_orders(2) [OF K(3,1,2) receives.hyps(3)] receives.hyps(4)])
  moreover have "genuine_net K (net\<lparr>gn_flight := xs @ ys\<rparr>)" using receives.prems receives.hyps(2) by (auto simp: genuine_net_def)
  ultimately show ?case using receives.hyps(1) by (intro genuine_does) auto
next
  case (connects net b e now order addr a c e' acts far)
  have K: "finite (dom K)" "card (dom K) < 65535" "genuine_node K b e" "a \<in> dom K"
    using connects.prems connects.hyps(1,3) by (auto simp: genuine_net_def)
  have "length a = 16" using connects.prems connects.hyps(3) by (fastforce simp: genuine_net_def genuine_node_def wf_Engine_def)
  note add = genuine_AddDirectConnection [OF K(3) connects.hyps(2) K(4) connects.hyps(4) this]
  show ?case using connects.prems connects.hyps(1) add(1) add(2) [OF genuine_orders(2) [OF add(1) K(1,2) connects.hyps(5)]]
    by (intro genuine_does) auto
next
  case (disconnects net b e far a)
  then have "genuine_node K b e" by (simp add: genuine_net_def)
  note e = genuine_node_conns [OF this, of "e_conns (RemoveDirectConnection a e)"]
  have "genuine_node K b (e\<lparr>e_conns := e_conns (RemoveDirectConnection a e), e_peers := MarkDead a (e_peers e)\<rparr>)"
    using genuine_node_peers [OF e wf_Engine_Mark(3) [of _ a] genuine_Mark(3) [of K _ a]] e by (simp add: genuine_node_def)
  with disconnects show ?case by (intro genuine_does) (auto simp: genuine_acts_def)
next
  case (pushes net b e order orders rng rng' acts far)
  have K: "finite (dom K)" "card (dom K) < 65535" "genuine_node K b e"
    using pushes.prems pushes.hyps(1) by (auto simp: genuine_net_def)
  obtain targets where "acts = push_targets orders 0 targets e"
    using pushes.hyps(2) by (auto simp: pushToRandom_def go_outcome)
  then have "genuine_acts K acts"
    using genuine_push_targets [OF K(3)] genuine_orders(2) [OF K(3,1,2) pushes.hyps(3)] by blast
  with pushes K(3) show ?case by (intro genuine_does) auto
next
  case (probes net b e order fails rng rng' e' acts timer far)
  then have "genuine_node K b e" by (simp add: genuine_net_def)
  from genuine_probe [OF this probes.hyps(2)] probes show ?case by (intro genuine_does) auto
next
  case (expires net b e far now target)
  then have "genuine_node K b e" by (simp add: genuine_net_def)
  with expires show ?case by (intro genuine_does) (auto simp: genuine_timeout genuine_acts_def)
qed (auto simp: genuine_net_def)

subsection \<open>Reachable states\<close>

text \<open>At the start no node knows another one. There are fewer nodes than a push can carry.\<close>

definition fresh_engine :: "NodeID \<Rightarrow> Engine \<Rightarrow> bool" where
  "fresh_engine b e \<longleftrightarrow> length b = 16 \<and> e_selfID e = b \<and> length (e_pubKey e) = 32 \<and> length (e_selfAddr e) < 256 \<and>
     e_peers e = NewPeerManager b \<and> appends_signature e"

definition gossip_initial :: "gossip_net \<Rightarrow> bool" where
  "gossip_initial net \<longleftrightarrow> gn_flight net = [] \<and> finite (dom (gn_nodes net)) \<and> card (dom (gn_nodes net)) < 65535 \<and>
     (\<forall>b e. gn_nodes net b = Some e \<longrightarrow> fresh_engine b e)"

definition keys_of :: "gossip_net \<Rightarrow> NodeID \<rightharpoonup> bytes" where
  "keys_of net b = map_option e_pubKey (gn_nodes net b)"

lemma keys_of_genuine:
  assumes "genuine_net K net"
  shows "keys_of net = K"
proof
  fix b
  show "keys_of net b = K b"
  proof (cases "gn_nodes net b")
    case None
    then have "b \<notin> dom K" using assms by (auto simp: genuine_net_def)
    with None show ?thesis by (simp add: keys_of_def domIff)
  qed (use assms in \<open>simp add: keys_of_def genuine_net_def genuine_node_def\<close>)
qed

lemma NewPeerManager_simps [simp]: "PeerManager_Get nid (NewPeerManager b) = None" "pm_selfID (NewPeerManager b) = b"
  by (simp_all add: PeerManager_Get_def NewPeerManager_def)

interpretation gossip: invariant gossip_step gossip_initial "\<lambda>net. genuine_net (keys_of net) net"
proof unfold_locales
  show "genuine_net (keys_of net) net" if "gossip_initial net" for net
  proof -
    have "dom (keys_of net) = dom (gn_nodes net)" by (auto simp: keys_of_def)
    moreover have "genuine_node (keys_of net) b e" if "fresh_engine b e" "gn_nodes net b = Some e" for b e
      using that by (auto simp: fresh_engine_def genuine_node_def wf_Engine_def keys_of_def genuine_peers_def)
    ultimately show ?thesis using that by (auto simp: gossip_initial_def genuine_net_def)
  qed
  show "genuine_net (keys_of net') net'" if "gossip_step net net'" "genuine_net (keys_of net) net" for net net'
    using genuine_step [OF that] keys_of_genuine by metis
qed

subsection \<open>Spreading\<close>

definition aware :: "gossip_net \<Rightarrow> NodeID \<Rightarrow> NodeID \<Rightarrow> bool" where
  "aware net a b \<longleftrightarrow> (\<exists>e. gn_nodes net b = Some e \<and> (b = a \<or> PeerManager_Get a (e_peers e) \<noteq> None))"

lemma known_Mark [simp]:
  "PeerManager_Get nid (MarkSuspect nid' pm) = None \<longleftrightarrow> PeerManager_Get nid pm = None"
  "PeerManager_Get nid (MarkDead nid' pm) = None \<longleftrightarrow> PeerManager_Get nid pm = None"
  "PeerManager_Get nid (MarkAlive now nid' pm) = None \<longleftrightarrow> PeerManager_Get nid pm = None"
  by (simp_all add: Get_Mark)

lemma aware_does:
  "aware net a b \<Longrightarrow> gn_nodes net c = Some e \<Longrightarrow> (\<And>nid. PeerManager_Get nid (e_peers e) \<noteq> None \<Longrightarrow> PeerManager_Get nid (e_peers e') \<noteq> None) \<Longrightarrow>
     aware (engine_does c far (e', acts) (net\<lparr>gn_flight := fl\<rparr>)) a b"
  by (cases "b = c") (auto simp: aware_def engine_does_def simp del: not_None_eq)

lemma known_HandleMessage:
  assumes "pm_selfID (e_peers e) = e_selfID e" and "HandleMessage clk order a data e = Return (h, e', acts)"
    and "PeerManager_Get nid (e_peers e) \<noteq> None"
  shows "PeerManager_Get nid (e_peers e') \<noteq> None"
proof -
  from assms(1) have "PeerManager_Get nid (e_peers (fst (handlePush clk 0 entries e))) \<noteq> None" for entries
    using assms(3) directory.known_reports [of nid "reports clk 0 entries" "e_peers e"] by (simp add: handlePush_peers)
  then have "handlePush clk 0 entries e = (e'', acts') \<Longrightarrow> PeerManager_Get nid (e_peers e'') \<noteq> None" for entries e'' acts'
    by (metis fst_conv)
  with assms(2,3) show ?thesis
    by (auto simp: HandleMessage_def Get_Mark split: if_splits outcome.splits prod.splits)
qed

lemma aware_step: "gossip_step net net' \<Longrightarrow> genuine_net K net \<Longrightarrow> aware net a b \<Longrightarrow> aware net' a b"
proof (induction rule: gossip_step.induct)
  case (receives net c e xs d data ys order clk h e' acts far)
  then have "pm_selfID (e_peers e) = e_selfID e" by (auto simp: genuine_net_def genuine_node_def wf_Engine_def)
  with receives show ?case by (intro aware_does [of net a b c e]) (auto dest: known_HandleMessage)
next
  case (connects net c e now order addr d k e' acts far)
  then have "PeerManager_Get nid (e_peers e') \<noteq> None" if "PeerManager_Get nid (e_peers e) \<noteq> None" for nid
    using that by (auto simp: AddDirectConnection_def Let_def Get_AddOrUpdate)
  from aware_does [OF connects.prems(2) connects.hyps(1) this, of far acts "gn_flight net"] show ?case by simp
next
  case (disconnects net c e far d)
  from aware_does [OF disconnects.prems(2) disconnects.hyps(1),
      of "e\<lparr>e_conns := e_conns (RemoveDirectConnection d e), e_peers := MarkDead d (e_peers e)\<rparr>" far "[]" "gn_flight net"]
  show ?case by (simp del: not_None_eq)
next
  case (probes net c e order fails rng rng' e' acts timer far)
  then have "PeerManager_Get nid (e_peers e') \<noteq> None" if "PeerManager_Get nid (e_peers e) \<noteq> None" for nid
    using that by (auto simp: probeRandomPeer_def Let_def Get_Mark split: if_splits option.splits)
  from aware_does [OF probes.prems(2) probes.hyps(1) this, of far acts "gn_flight net"] show ?case by simp
next
  case (expires net c e far now target)
  have "PeerManager_Get nid (e_peers (probe_timeout now target e)) \<noteq> None" if "PeerManager_Get nid (e_peers e) \<noteq> None" for nid
    using that by (simp add: probe_timeout_def del: not_None_eq split: option.split)
  from aware_does [OF expires.prems(2) expires.hyps(1) this, of far "[]" "gn_flight net"] show ?case by simp
qed (auto simp: aware_def engine_does_def)

lemma aware_steps: "gossip_step\<^sup>*\<^sup>* net net' \<Longrightarrow> genuine_net K net \<Longrightarrow> aware net a b \<Longrightarrow> aware net' a b"
proof (induction rule: converse_rtranclp_induct)
  case (step net net1)
  with genuine_step aware_step show ?case by blast
qed

text \<open>A node that registers a connection tells the node at its other end all it knows.\<close>

lemma aware_hop:
  assumes "genuine_net K net" and "aware net a b" and "gn_nodes net c = Some ec" and "b \<noteq> c"
  shows "\<exists>net'. gossip_step\<^sup>*\<^sup>* net net' \<and> aware net' a c"
proof -
  obtain e where e: "gn_nodes net b = Some e" "b = a \<or> PeerManager_Get a (e_peers e) \<noteq> None"
    using assms(2) by (auto simp: aware_def)
  have gb: "genuine_node K b e" "genuine_node K c ec" "c \<in> dom K" "length c = 16" and fin: "finite (dom K)" "card (dom K) < 65535"
    using assms(1,3) e(1) by (auto simp: genuine_net_def genuine_node_def wf_Engine_def)
  let ?add = "\<lambda>order. AddDirectConnection 0 order (\<lambda>_. []) c 0 e"
  obtain e' where e': "fst (?add order) = e'" for order by (simp add: AddDirectConnection_def Let_def)
  then have add: "?add order = (e', snd (?add order))" for order by (metis prod.collapse)
  have ge: "genuine_node K b e'" by (rule genuine_AddDirectConnection(1) [OF gb(1) add gb(3) _ gb(4)]) simp
  obtain order where order: "range_order (pm_peers (e_peers e')) order" using genuine_orders(1) [OF ge fin] by blast
  obtain sig where acts: "snd (?add order) = [ControlWrite 0 (buildGossipPush order e' @ sig)]"
    using ge e' [of order] by (auto simp: genuine_node_def appends_signature_def AddDirectConnection_def Let_def)
  let ?net = "engine_does b (\<lambda>_. c) (e', snd (?add order)) net"
  have step: "gossip_step net ?net" using e(1) add assms(3) order by (intro gossip_step.connects) auto
  have flight: "gn_flight ?net = gn_flight net @ (b, c, buildGossipPush order e' @ sig) # []" "gn_nodes ?net c = Some ec"
    using assms(3,4) acts by (simp_all add: engine_does_def)
  obtain order' where order': "range_order (pm_peers (e_peers ec)) order'" using genuine_orders(1) [OF gb(2) fin] by blast
  have wf: "wf_Engine e'" "wf_Engine ec" "e_selfID e' = b" "e_selfID ec = c" using ge gb(2) by (simp_all add: genuine_node_def)
  from push_effect [OF wf(1,2) order genuine_orders(2) [OF ge fin order], of "\<lambda>_. 0" order' b sig] obtain e'' acts'' where
    msg: "HandleMessage (\<lambda>_. 0) order' b (buildGossipPush order e' @ sig) ec = Return (True, e'', acts'')"
    and known: "\<forall>nid. PeerManager_Get nid (e_peers e'') \<noteq> None \<longleftrightarrow> PeerManager_Get nid (e_peers ec) \<noteq> None \<or>
       nid \<noteq> e_selfID ec \<and> (nid = e_selfID e' \<or> PeerManager_Get nid (e_peers e') \<noteq> None)" by blast
  let ?net' = "engine_does c (\<lambda>_. c) (e'', acts'') (?net\<lparr>gn_flight := gn_flight net @ []\<rparr>)"
  have "gossip_step ?net ?net'" by (rule gossip_step.receives [OF flight(2,1) order' msg])
  with step have "gossip_step\<^sup>*\<^sup>* net ?net'" by (meson converse_rtranclp_into_rtranclp r_into_rtranclp)
  moreover have "PeerManager_Get a (e_peers e') \<noteq> None" if "b \<noteq> a"
    using that e(2) e' [of order] by (auto simp: AddDirectConnection_def Let_def Get_AddOrUpdate)
  then have "aware ?net' a c" using known wf(3,4) by (auto simp: aware_def engine_does_def simp del: not_None_eq)
  ultimately show ?thesis by blast
qed

lemma aware_path:
  assumes "genuine_net K net" and "aware net a b" and "\<forall>c\<in>set bs. gn_nodes net c \<noteq> None"
  shows "\<exists>net'. gossip_step\<^sup>*\<^sup>* net net' \<and> (\<forall>c\<in>set bs. aware net' a c)"
  using assms
proof (induction bs arbitrary: net b)
  case (Cons c bs)
  obtain ec where ec: "gn_nodes net c = Some ec" using Cons.prems(3) by auto
  obtain net1 where net1: "gossip_step\<^sup>*\<^sup>* net net1" "aware net1 a c"
    using aware_hop [OF Cons.prems(1,2) ec] Cons.prems(2) by (cases "b = c") blast+
  have genuine1: "genuine_net K net1"
    using net1(1) Cons.prems(1) by (induction rule: rtranclp_induct) (auto intro: genuine_step)
  then have "dom (gn_nodes net1) = dom (gn_nodes net)" using Cons.prems(1) by (simp add: genuine_net_def)
  then have "\<forall>d\<in>set bs. gn_nodes net1 d \<noteq> None" using Cons.prems(3) by (metis domIff list.set_intros(2))
  from Cons.IH [OF genuine1 net1(2) this] obtain net2 where net2: "gossip_step\<^sup>*\<^sup>* net1 net2" "\<forall>d\<in>set bs. aware net2 a d"
    by blast
  with aware_steps [OF net2(1) genuine1 net1(2)] net1(1) show ?case
    by (intro exI [of _ net2]) (auto intro: rtranclp_trans)
qed auto

subsection \<open>Properties\<close>

text \<open>
  C16: Among honest nodes what a node learns by gossip is true: in every reachable state, however
  messages are delayed, reordered, repeated by later pushes or lost, every peer a node knows is
  another node of the network, and the public key it has for it, if it has one, is that node's own
  key. So the messages of a known peer pass verification.
\<close>

theorem gossip_keys_genuine:
  assumes "gossip_initial net0" and "gossip_step\<^sup>*\<^sup>* net0 net" and "gn_nodes net b = Some e"
    and "PeerManager_Get nid (e_peers e) = Some p"
  shows "nid \<noteq> b \<and> (\<exists>peer. gn_nodes net nid = Some peer \<and> e_selfID peer = nid \<and>
    (pr_PubKey p = [] \<or> pr_PubKey p = e_pubKey peer))"
proof -
  note genuine = gossip.reachable_inv [OF assms(1,2)]
  then have e: "genuine_node (keys_of net) b e" using assms(3) by (simp add: genuine_net_def)
  then have "nid \<noteq> b" using assms(4) wf_peers_Get by (fastforce simp: genuine_node_def wf_Engine_def)
  moreover from e assms(4) have nid: "nid \<in> dom (keys_of net)" "pr_PubKey p = [] \<or> keys_of net nid = Some (pr_PubKey p)"
    by (simp_all add: genuine_node_def genuine_peers_def)
  then obtain peer where "gn_nodes net nid = Some peer" by (auto simp: keys_of_def)
  moreover from this genuine have "e_selfID peer = nid" by (simp add: genuine_net_def genuine_node_def)
  ultimately show ?thesis using nid(2) by (auto simp: keys_of_def)
qed

text \<open>Three nodes that do not know each other.\<close>

definition example_gossip :: gossip_net where
  "example_gossip = \<lparr>gn_nodes = [replicate 16 1 \<mapsto> example_engine 1, replicate 16 2 \<mapsto> example_engine 2,
     replicate 16 3 \<mapsto> example_engine 3], gn_flight = []\<rparr>"

lemma example_gossip_initial: "gossip_initial example_gossip"
proof -
  have "fresh_engine (replicate 16 b) (example_engine b)" for b
    by (simp add: fresh_engine_def example_engine_def NewEngine_def appends_signature_def signMsg_def)
  moreover have "card (dom (gn_nodes example_gossip)) < 65535"
    by (rule le_less_trans [OF card_mono [of "{replicate 16 1, replicate 16 2, replicate 16 3}"]])
       (auto simp: example_gossip_def card_insert_if)
  ultimately show ?thesis by (auto simp: gossip_initial_def) (auto simp: example_gossip_def split: if_splits)
qed



theorem gossip_keys_genuine_witness:
  "\<exists>net e p. gossip_step\<^sup>*\<^sup>* example_gossip net \<and> gn_nodes net (replicate 16 3) = Some e \<and>
     PeerManager_Get (replicate 16 1) (e_peers e) = Some p \<and>
     (\<exists>peer. gn_nodes net (replicate 16 1) = Some peer \<and> (pr_PubKey p = [] \<or> pr_PubKey p = e_pubKey peer))"
proof -
  have a: "aware example_gossip (replicate 16 1) (replicate 16 1)" by (auto simp: aware_def example_gossip_def)
  have "(replicate 16 1 :: NodeID) \<noteq> replicate 16 3" by code_simp
  moreover obtain net where net: "gossip_step\<^sup>*\<^sup>* example_gossip net" "\<forall>c\<in>set [replicate 16 3]. aware net (replicate 16 1) c"
    using aware_path [OF gossip.initial_inv [OF example_gossip_initial] a, of "[replicate 16 3]"]
    by (auto simp: example_gossip_def)
  ultimately obtain e p where e: "gn_nodes net (replicate 16 3) = Some e" "PeerManager_Get (replicate 16 1) (e_peers e) = Some p"
    by (auto simp: aware_def)
  from gossip_keys_genuine [OF example_gossip_initial net(1) e] net(1) e show ?thesis by blast
qed

end
