(* ===== verification/Node_Refines.thy ===== *)
theory Node_Refines
  imports Node_Safe Gossip_Network
begin

text \<open>
  The node implements its two protocols. The route propagator and the gossip engine are machines of
  their own (\<open>prop_step\<close>, \<open>engine_step\<close>); whatever a node does, its routes and its peers change only by
  the operations of the two (\<open>core_step\<close>), so what those operations keep, the node keeps.
\<close>

subsection \<open>The propagator and the engine as machines\<close>

text \<open>The route propagator as a machine of its own: its state and all that may happen to it.\<close>

inductive prop_step :: "Propagator \<Rightarrow> Propagator \<Rightarrow> bool" where
  handles: "prop_step p p'" if "HandleRouteUpdate peers now now' from data p = Return (p', acts)" "length from = 16"
| advertises: "prop_step p (fst (AdvertiseDirectNetworks clk p))"
| ticks: "prop_step p (fst (advertise_tick clk order p))"
| withdraws: "prop_step p (fst (WithdrawAllFromPeer order order' peer p))"
    if "range_order (rt_routes (p_table p)) order'"
| expires: "prop_step p (p\<lparr>p_table := snd (GC order now ttl (p_table p))\<rparr>)"
    if "range_order (rt_routes (p_table p)) order"

text \<open>The same for the gossip engine.\<close>

inductive engine_step :: "Engine \<Rightarrow> Engine \<Rightarrow> bool" where
  handles_message: "engine_step e e'" if "HandleMessage clk order from data e = Return (h, e', acts)"
| connects: "engine_step e (fst (AddDirectConnection now order remote peer c e))"
| disconnects: "engine_step e ((RemoveDirectConnection peer e)\<lparr>e_peers := MarkDead peer (e_peers (RemoveDirectConnection peer e))\<rparr>)"
| probes: "engine_step e (fst (snd (probeRandomPeer order fails rng e)))"
| times_out: "engine_step e (probe_timeout now target e)"

text \<open>What a node knows: the routes and the peers. A step of the node is any number of steps of the two.\<close>

definition core :: "Node \<Rightarrow> Propagator \<times> Engine" where
  "core n = (n_prop n, n_gossip n)"

inductive core_step :: "Propagator \<times> Engine \<Rightarrow> Propagator \<times> Engine \<Rightarrow> bool" where
  routing: "core_step (p, e) (p', e)" if "prop_step p p'"
| gossiping: "core_step (p, e) (p, e')" if "engine_step e e'"

lemma core_updates [simp]:
  "core (n\<lparr>n_prop := p\<rparr>) = (p, snd (core n))" "core (n\<lparr>n_gossip := e\<rparr>) = (fst (core n), e)"
  "core (n\<lparr>n_tasks := a\<rparr>) = core n" "core (n\<lparr>n_rng := r\<rparr>) = core n" "core (n\<lparr>n_stats := b\<rparr>) = core n"
  "core (n\<lparr>n_links := d\<rparr>) = core n" "core (n\<lparr>n_udpRelay := f\<rparr>) = core n" "core (n\<lparr>n_peerConns := g\<rparr>) = core n"
  "core (n\<lparr>n_ln := h\<rparr>) = core n" "core (n\<lparr>n_acceptLimiter := i\<rparr>) = core n" "core (n\<lparr>n_reconnecting := j\<rparr>) = core n"
  "core (n\<lparr>n_directOut := k\<rparr>) = core n" "core (n\<lparr>n_cancelled := l\<rparr>) = core n" "core (n\<lparr>n_udpLn := m\<rparr>) = core n"
  "core (n\<lparr>n_socks := s\<rparr>) = core n" "core (n\<lparr>n_peerUDPAddrs := t\<rparr>) = core n" "core (n\<lparr>n_udpOut := u\<rparr>) = core n"
  "core (n\<lparr>n_clientOut := v\<rparr>) = core n"
  by (simp_all add: core_def)

lemma core_moves:
  "prop_step (n_prop n) p \<Longrightarrow> core_step (core n) (p, snd (core n))"
  "engine_step (n_gossip n) e \<Longrightarrow> core_step (core n) (fst (core n), e)"
  by (simp_all add: core_def core_step.intros)

lemma core_parts: "core n' = core n \<Longrightarrow> n_prop n' = n_prop n \<and> n_gossip n' = n_gossip n"
  by (simp add: core_def)

lemma core_changes [simp]:
  "core (spawn t n) = core n" "core (set_conn c k n) = core n" "core (close_conn c n) = core n"
  "core (store_conn p c n) = core n" "core (unmarkDialing m n) = core n" "core (snd (add_link k r n)) = core n"
  "core (snd (tryMarkDialing m n)) = core n" "core (registerPeerUDPAddr lib p addr n) = core n"
  "core (udp_send p data n) = core n" "core (udp_deliver s data n) = core n"
  by (simp_all add: spawn_def set_conn_def close_conn_def store_conn_def unmarkDialing_def add_link_def tryMarkDialing_def
      registerPeerUDPAddr_def udp_send_def udp_deliver_def split: option.split prod.split)

lemma core_writes [simp]:
  "core (snd (control_write c msg n)) = core n" "core (snd (sendControlMsg lib p msg n)) = core n"
  "core (snd (streamConn_Write b sc n)) = core n" "core (snd (dial_peer p target n)) = core n"
proof -
  show w: "core (snd (control_write c msg n)) = core n" for c msg
    by (auto simp: control_write_def split: option.split prod.split)
  show "core (snd (sendControlMsg lib p msg n)) = core n"
    using w by (auto simp: sendControlMsg_def Let_def split: option.split prod.split outcome.split) (metis snd_conv)+
  show "core (snd (streamConn_Write b sc n)) = core n" by (simp add: streamConn_Write_def case_prod_beta)
  show "core (snd (dial_peer p target n)) = core n"
    by (auto simp: dial_peer_def split: option.split prod.split outcome.split)
qed

lemma core_relay [simp]: "core (relay_acts as n) = core n" "core (udp_forward clk hop sid target payload n) = core n"
proof -
  show r: "core (relay_acts as n) = core n" for as n by (induction as n rule: relay_acts.induct) simp_all
  show "core (udp_forward clk hop sid target payload n) = core n" by (simp add: udp_forward_def case_prod_beta r)
qed

text \<open>\<open>moves n m\<close>: the computation \<open>m\<close> changes the propagator and the engine of \<open>n\<close> by their own steps.\<close>

definition moves :: "Node \<Rightarrow> (unit, Node) outcome \<Rightarrow> bool" where
  "moves n m \<longleftrightarrow> (\<forall>n'. m = Return n' \<longrightarrow> core_step\<^sup>*\<^sup>* (core n) (core n'))"

lemma moves_Return [simp]: "moves n (Return n') \<longleftrightarrow> core_step\<^sup>*\<^sup>* (core n) (core n')"
  by (simp add: moves_def)

lemma moves_Panic [simp]: "moves n Panic"
  by (simp add: moves_def)

lemma moves_bind: "moves n m \<Longrightarrow> (\<And>n'. m = Return n' \<Longrightarrow> moves n' (f n')) \<Longrightarrow> moves n (go_bind m f)"
  by (cases m) (auto simp: moves_def intro: rtranclp_trans)

lemma moves_pure: "(\<And>x. m = Return x \<Longrightarrow> moves n (f x)) \<Longrightarrow> moves n (go_bind m f)"
  by (cases m) (auto simp: moves_def)

lemma moves_from: "core n' = core n \<Longrightarrow> moves n' m \<Longrightarrow> moves n m"
  by (simp add: moves_def)

lemma moves_after: "core_step (core n) (core n') \<Longrightarrow> moves n' m \<Longrightarrow> moves n m"
  by (auto simp: moves_def intro: converse_rtranclp_into_rtranclp)

lemma moves_logged: "core (snd r) = core n \<Longrightarrow> moves n (logged r)"
  by (cases r; cases "fst r") (auto simp: logged_def)

lemma moves_engine_acts: "moves n (engine_acts as n)"
proof (induction as arbitrary: n)
  case (Cons a as)
  have "moves n (engine_act a n)" by (cases a) (simp_all add: moves_logged)
  then show ?case by (auto intro: moves_bind Cons.IH)
qed simp

lemma moves_prop_acts: "moves n (prop_acts lib orders i as n)"
proof (induction as arbitrary: n i)
  case (Cons a as)
  show ?case
  proof (cases a)
    case (Send p msg)
    show ?thesis unfolding Send prop_acts.simps by (rule moves_bind [OF moves_logged Cons.IH]) simp
  next
    case (Broadcast msg)
    show ?thesis unfolding Broadcast prop_acts.simps by (rule moves_bind [OF moves_engine_acts Cons.IH])
  qed
qed simp

text \<open>A change of the propagator followed by what it asks for.\<close>

lemma moves_prop_step: "prop_step (n_prop n) (fst r) \<Longrightarrow> moves n (let (p, acts) = r in prop_acts lib orders i acts (n\<lparr>n_prop := p\<rparr>))"
  by (auto simp: case_prod_beta core_moves intro!: moves_after [OF _ moves_prop_acts])

lemma moves_engine_step: "engine_step (n_gossip n) e \<Longrightarrow> moves n (engine_acts acts (n\<lparr>n_gossip := e\<rparr>))"
  by (auto simp: core_moves intro!: moves_after [OF _ moves_engine_acts])

lemma moves_relay_incoming: "moves n (relay_incoming clk from data n)"
  unfolding relay_incoming_def by (rule moves_pure) (simp add: case_prod_beta)

lemma moves_udp_datagram: "moves n (udp_datagram clk order order' remote data n)"
  by (auto simp: udp_datagram_def intro: moves_relay_incoming moves_from [OF _ moves_relay_incoming] split: option.split)

lemma moves_dispatch:
  assumes "length from = 16"
  shows "moves n (dispatchControlMsg lib env from data n)"
proof -
  have route: "moves n (handle_route lib env from data n)" for n data
    unfolding handle_route_def
  proof (rule moves_pure)
    fix pa
    assume "HandleRouteUpdate (alive_ids (en_peers env 1) n) (en_clk env 0) (en_clk env 1) from data (n_prop n) = Return pa"
    then have "prop_step (n_prop n) (fst pa)" using assms by (intro prop_step.handles [where acts = "snd pa"]) simp_all
    from moves_prop_step [OF this] show "moves n (case pa of (p, acts) \<Rightarrow> prop_acts lib (en_conns env) 0 acts (n\<lparr>n_prop := p\<rparr>))"
      by simp
  qed
  have "moves n (handle_verified lib env from data n)" for data
    unfolding handle_verified_def
  proof (rule moves_pure, clarify)
    fix h e acts
    assume "HandleMessage (en_clk env) (en_peers env 0) from data (n_gossip n) = Return (h, e, acts)"
    then have e: "engine_step (n_gossip n) e" by (rule engine_step.handles_message)
    show "moves n (go_bind (engine_acts acts (n\<lparr>n_gossip := e\<rparr>)) (\<lambda>n.
       if h then Return n
       else go_bind (index_at data 0) (\<lambda>t.
         if t = MsgRouteUpdate then handle_route lib env from data n
         else if t = MsgTCPForward then Return n
         else if t = MsgUDPForward then relay_incoming (en_clk env) from data n
         else Return n)))"
      by (rule moves_bind [OF moves_engine_step [OF e]]) (auto intro!: moves_pure moves_relay_incoming route)
  qed
  then show ?thesis by (auto simp: dispatchControlMsg_def intro!: moves_pure split: option.split)
qed

lemma moves_add_direct: "moves n (add_direct env p c n)"
  by (auto simp: add_direct_def case_prod_beta intro!: moves_engine_step engine_step.connects)

lemma moves_advertise: "moves n (advertise lib env n)"
  unfolding advertise_def by (rule moves_prop_step) (rule prop_step.advertises)

lemma moves_withdraw: "range_order (rt_routes (p_table (n_prop n))) (en_routes env 1) \<Longrightarrow> moves n (withdraw_from lib env p n)"
  unfolding withdraw_from_def by (rule moves_prop_step) (rule prop_step.withdraws)

lemma moves_handleControl:
  assumes "length p = 16"
  shows "moves n (handleControlMessages lib env p c initial mark n)"
  unfolding handleControlMessages_def
  by (rule moves_bind) (auto intro: moves_dispatch assms split: option.split)

lemma moves_announce:
  assumes "length p = 16"
  shows "moves n (announce lib env p addr c mark n)"
  unfolding announce_def Let_def
  by (rule moves_from [where n' = "registerPeerUDPAddr lib p addr n"])
     (auto intro!: moves_bind moves_logged moves_add_direct moves_advertise moves_from [OF _ moves_handleControl [OF assms]])

lemma core_steps [simp]:
  "core (connectToPeer p addr n) = core n" "core (reconnect_head p mark b n) = core n"
  "core (reconnectPeer p n) = core n" "core (bootstrap_head addr b n) = core n"
  "core (bootstrap_retry env addr b n) = core n" "core (bootstrap n) = core n" "core (Node_Stop order n) = core n"
  "core (socks_udp clk dial_ok ev n) = core n" "core (snd (Node_Start lib se n)) = core n"
proof -
  show "core (connectToPeer p addr n) = core n" by (simp add: connectToPeer_def tryMarkDialing_def)
  show head: "core (reconnect_head p mark b n) = core n" for mark b n by (simp add: reconnect_head_def split: option.split)
  show "core (reconnectPeer p n) = core n" by (simp add: reconnectPeer_def tryMarkDialing_def head split: option.split)
  show "core (bootstrap_head addr b n) = core n" by (simp add: bootstrap_head_def)
  show "core (bootstrap_retry env addr b n) = core n" by (simp add: bootstrap_retry_def)
  have "core (fold (\<lambda>addr n. spawn (BootstrapPeer addr) n) as m) = core m" for as m by (induction as arbitrary: m) simp_all
  then show "core (bootstrap n) = core n" by (simp add: bootstrap_def)
  have "core (fold (\<lambda>key n. case n_peerConns n key of None \<Rightarrow> n | Some c \<Rightarrow> close_conn c n) order m) = core m" for m
    by (induction order arbitrary: m) (simp_all split: option.split)
  then show "core (Node_Stop order n) = core n" by (simp add: Node_Stop_def)
  show "core (socks_udp clk dial_ok ev n) = core n" by (cases ev) (simp_all add: udp_direct_def)
  show "core (snd (Node_Start lib se n)) = core n" by (simp add: Node_Start_def Let_def split: outcome.split)
qed

lemma core_read: "streamConn_Read k sc n = Some (res, n') \<Longrightarrow> core n' = core n"
  by (auto simp: streamConn_Read_def)

lemma core_accept: "acceptLoop env n = Some n' \<Longrightarrow> core n' = core n"
  by (auto simp: acceptLoop_def Let_def add_link_def case_prod_beta split: option.splits outcome.splits if_splits)

lemma core_streams: "handleIncomingStreams env p c n = Some n' \<Longrightarrow> core n' = core n"
  by (auto simp: handleIncomingStreams_def split: option.splits outcome.splits)

lemma core_slept:
  "reconnect_slept env p mark b d t n = Some n' \<Longrightarrow> core n' = core n"
  "bootstrap_slept env addr b d t n = Some n' \<Longrightarrow> core n' = core n"
  by (auto simp: reconnect_slept_def bootstrap_slept_def Let_def split: if_splits)

lemma moves_probe_timer: "probe_timer env target t n = Some n' \<Longrightarrow> moves n (Return n')"
  by (auto simp: probe_timer_def Let_def intro!: r_into_rtranclp core_moves engine_step.times_out split: if_splits)

lemma moves_connect_dialled:
  assumes "length p = 16"
  shows "moves n (connect_dialled lib env p addr n)"
  using moves_from [OF _ moves_announce [OF assms]] core_changes(6) [of _ "en_remote env" "unmarkDialing addr n"]
  by (auto simp: connect_dialled_def case_prod_beta Let_def split: outcome.split)

lemma moves_reconnect_dialled:
  assumes "length p = 16"
  shows "moves n (reconnect_dialled lib env p mark addr b n)"
  using moves_from [OF _ moves_announce [OF assms]] core_changes(6) [of _ "en_remote env" n]
  by (auto simp: reconnect_dialled_def case_prod_beta Let_def split: outcome.split)

lemma moves_connection_lost:
  assumes "range_order (rt_routes (p_table (n_prop n))) (en_routes env 1)"
  shows "moves n (connection_lost lib env p c mark n)"
proof -
  let ?n = "close_conn c (n\<lparr>n_peerConns := (n_peerConns n)(NodeID_String p := None)\<rparr>)"
  let ?e = "(RemoveDirectConnection p (n_gossip ?n))\<lparr>e_peers := MarkDead p (e_peers (RemoveDirectConnection p (n_gossip ?n)))\<rparr>"
  have same: "core ?n = core n" by simp
  have "moves ?n (withdraw_from lib env p (?n\<lparr>n_gossip := ?e\<rparr>))"
    using assms core_parts [OF same]
    by (intro moves_after [OF _ moves_withdraw]) (simp_all add: core_moves(2) engine_step.disconnects)
  from moves_from [OF same this] show ?thesis
    unfolding connection_lost_def Let_def by (intro moves_bind) (auto split: option.split)
qed

lemma moves_control_read:
  assumes "length p = 16" and "range_order (rt_routes (p_table (n_prop n))) (en_routes env 1)"
    and "control_read lib env p c s mark n = Some m"
  shows "moves n m"
proof -
  obtain res n' where rd: "streamConn_Read 65536 \<lparr>sc_conn = c, sc_stream = s\<rparr> n = Some (res, n')"
    using assms(3) by (cases "streamConn_Read 65536 \<lparr>sc_conn = c, sc_stream = s\<rparr> n") (auto simp: control_read_def)
  note same = core_read [OF rd]
  have "moves n' m"
    using assms rd core_parts [OF same] by (cases res) (auto simp: control_read_def intro: moves_connection_lost moves_bind [OF moves_dispatch])
  then show ?thesis by (rule moves_from [OF same])
qed

lemma moves_incoming_read:
  assumes "incoming_read lib env c s n = Some m"
  shows "moves n m"
proof -
  obtain res n' where rd: "streamConn_Read 65536 \<lparr>sc_conn = c, sc_stream = s\<rparr> n = Some (res, n')"
    using assms by (cases "streamConn_Read 65536 \<lparr>sc_conn = c, sc_stream = s\<rparr> n") (auto simp: incoming_read_def)
  have "moves n' (if NodeID_IsZero p then Return (close_conn c n') else go_bind (add_direct env p c
       (registerPeerUDPAddr lib p (remote_of n' c) (store_conn p c n'))) (\<lambda>n.
         handleControlMessages lib (env_shift 2 env) p c (Some data) None (spawn (StreamLoop p c) n)))"
    if "first_peer data = Return p" for data p
    using moves_from [OF _ moves_handleControl [OF first_peer_length [OF that]]]
    by (auto intro!: moves_bind [OF moves_from [OF _ moves_add_direct]])
  then have "moves n' m" using assms rd by (cases res) (auto simp: incoming_read_def intro!: moves_pure)
  then show ?thesis by (rule moves_from [OF core_read [OF rd]])
qed

lemma moves_bootstrap_read:
  assumes "bootstrap_read lib env addr c s b n = Some m"
  shows "moves n m"
proof -
  obtain res n' where rd: "streamConn_Read 65536 \<lparr>sc_conn = c, sc_stream = s\<rparr> n = Some (res, n')"
    using assms by (cases "streamConn_Read 65536 \<lparr>sc_conn = c, sc_stream = s\<rparr> n") (auto simp: bootstrap_read_def)
  have "moves n' (go_bind (add_direct env p c (store_conn p c n')) (\<lambda>n.
         handleControlMessages lib (env_shift 2 env) p c (Some data) None
           (spawn (StreamLoop p c) (registerPeerUDPAddr lib p addr n))))"
    if "first_peer data = Return p" for data p
    using moves_from [OF _ moves_handleControl [OF first_peer_length [OF that]]]
    by (auto intro!: moves_bind [OF moves_from [OF _ moves_add_direct]])
  then have "moves n' m" using assms rd by (cases res) (auto simp: bootstrap_read_def intro!: moves_pure)
  then show ?thesis by (rule moves_from [OF core_read [OF rd]])
qed

lemma moves_bootstrap_dialled: "moves n (bootstrap_dialled env addr b n)"
proof -
  have "moves n (go_bind (logged (streamConn_Write msg sc m)) (\<lambda>n. Return (spawn t n)))" if "core m = core n" for msg sc m t
    by (rule moves_bind [OF moves_logged]) (simp_all add: that)
  then show ?thesis
    using core_changes(6) [of _ "en_remote env" n]
    by (auto simp: bootstrap_dialled_def case_prod_beta Let_def split: outcome.split option.split)
qed

lemma moves_tick:
  assumes "valid_env env n"
  shows "moves n (tick lib env k n)"
proof (cases k)
  case PushTick
  then show ?thesis by (auto intro!: moves_pure moves_from [OF _ moves_engine_acts])
next
  case ProbeTick
  then show ?thesis
    by (auto simp: probe_tick_def Let_def case_prod_beta core_moves(2) engine_step.probes
        intro!: moves_bind [OF moves_after [OF _ moves_engine_acts]] split: option.split)
next
  case AdvertiseTick
  show ?thesis unfolding AdvertiseTick tick.simps by (rule moves_prop_step) (rule prop_step.ticks)
next
  case RouteGCTick
  have "prop_step (n_prop n) ((n_prop n)\<lparr>p_table := snd (GC (en_routes env 0) now ttl (p_table (n_prop n)))\<rparr>)" for now ttl
    using assms by (intro prop_step.expires) (simp add: valid_env_def)
  then show ?thesis using RouteGCTick by (auto intro!: r_into_rtranclp core_moves)
qed simp_all

lemma run_moves:
  assumes "wf_task n t" and env: "valid_env env n" and m: "run lib env t n = Some m"
  shows "moves n m"
proof (cases t)
  case (ControlLoop p c s mark)
  then show ?thesis using assms moves_control_read [of p n env] by (simp add: valid_env_def)
next
  case (Ticker k b)
  then show ?thesis
    using m moves_tick [OF env, of lib k] by (auto simp: ticker_loop_def intro!: moves_bind split: if_splits)
next
  case (RelayStream p c s)
  then show ?thesis using m by (auto simp: relay_stream_def split: option.splits prod.splits outcome.splits)
next
  case UdpReadLoop
  then show ?thesis
    using m by (auto simp: udpReadLoop_def intro!: moves_bind [OF moves_udp_datagram] split: option.splits prod.splits)
next
  case (IncomingConn c)
  then show ?thesis using m by (auto simp: handleIncomingConn_def split: option.splits)
qed (use assms in \<open>auto dest: core_accept core_streams core_slept
    intro: moves_probe_timer moves_incoming_read moves_connect_dialled moves_reconnect_dialled moves_bootstrap_dialled moves_bootstrap_read\<close>)

lemma step_moves: "node_step lib n n' \<Longrightarrow> wf_Node [] n \<Longrightarrow> core_step\<^sup>*\<^sup>* (core n) (core n')"
proof (induction rule: node_step.induct)
  case (runs i n env n')
  have "valid_env env (n\<lparr>n_tasks := without i (n_tasks n)\<rparr>)" using runs(2) by (simp add: valid_env_def)
  from run_moves [OF take_task(2) [OF runs(4,1)] this runs(3)] show ?case by simp
qed simp_all

lemma steps_move: "(node_step lib)\<^sup>*\<^sup>* n n' \<Longrightarrow> wf_Node [] n \<Longrightarrow> wf_Node [] n' \<and> core_step\<^sup>*\<^sup>* (core n) (core n')"
proof (induction rule: rtranclp_induct)
  case (step y z)
  from step.IH [OF step.prems] step(2) show ?case using step_moves wf_node_step by (auto intro: rtranclp_trans)
qed simp

text \<open>The steps of the pair are steps of its parts.\<close>

lemma core_paths: "core_step\<^sup>*\<^sup>* c c' \<Longrightarrow> prop_step\<^sup>*\<^sup>* (fst c) (fst c') \<and> engine_step\<^sup>*\<^sup>* (snd c) (snd c')"
proof (induction rule: rtranclp_induct)
  case (step y z)
  from step(2) step.IH show ?case by cases (auto intro: rtranclp.rtrancl_into_rtrancl)
qed simp

lemma node_moves:
  "(node_step lib)\<^sup>*\<^sup>* n n' \<Longrightarrow> wf_Node [] n \<Longrightarrow> prop_step\<^sup>*\<^sup>* (n_prop n) (n_prop n') \<and> engine_step\<^sup>*\<^sup>* (n_gossip n) (n_gossip n')"
  using steps_move [of lib n n'] core_paths [of "core n" "core n'"] by (simp add: core_def)

subsection \<open>What the machines keep\<close>

lemma wf_prop_step: "prop_step p p' \<Longrightarrow> wf_Propagator p \<Longrightarrow> wf_Propagator p'"
proof (induction rule: prop_step.induct)
  case (handles peers now now' "from" data p p' acts)
  then show ?case using wf_HandleRouteUpdate by blast
qed (simp_all add: AdvertiseDirectNetworks_def advertise_tick_def case_prod_beta Let_def advertise_nets_wf
    WithdrawAllFromPeer_def wf_Propagator_purge wf_Propagator_expire)

lemma advertise_nets_directNetworks:
  "rt_directNetworks (p_table (fst (advertise_nets clk i nets p))) = rt_directNetworks (p_table p)"
  by (induction nets arbitrary: i p) (simp_all add: Let_def case_prod_beta)

lemma prop_step_nets: "prop_step p p' \<Longrightarrow> rt_directNetworks (p_table p') = rt_directNetworks (p_table p)"
proof (induction rule: prop_step.induct)
  case (handles peers now now' "from" data p p' acts)
  then show ?case
    by (cases rule: HandleRouteUpdate_cases [of data peers now now' "from" p]) (auto dest!: arg_cong [of "AddRoute _ _ _ _" _ "\<lambda>x. rt_directNetworks (snd x)"])
next
  case (advertises p clk)
  then show ?case by (simp add: AdvertiseDirectNetworks_def advertise_nets_directNetworks)
next
  case (ticks p clk order)
  then show ?case by (simp add: advertise_tick_def AdvertiseDirectNetworks_def case_prod_beta Let_def advertise_nets_directNetworks)
next
  case (expires p order now ttl)
  then show ?case by simp
qed (simp add: WithdrawAllFromPeer_def Let_def)

definition fresh_propagator :: "Propagator \<Rightarrow> bool" where
  "fresh_propagator p \<longleftrightarrow> wf_Propagator p \<and> rt_routes (p_table p) = Map.empty"

interpretation propagator: invariant prop_step fresh_propagator wf_Propagator
  by unfold_locales (simp_all add: wf_prop_step fresh_propagator_def)

text \<open>An engine keeps its own identity, and forgets no peer.\<close>

definition knows :: "NodeID \<Rightarrow> Engine \<Rightarrow> bool" where
  "knows nid e \<longleftrightarrow> PeerManager_Get nid (e_peers e) \<noteq> None"

definition names_itself :: "Engine \<Rightarrow> bool" where
  "names_itself e \<longleftrightarrow> pm_selfID (e_peers e) = e_selfID e"

lemma engine_step_kept: "engine_step e e' \<Longrightarrow> self_of e' = self_of e"
proof (induction rule: engine_step.induct)
  case (handles_message clk order "from" data e h e' acts)
  then show ?case using engine_kept_message by (simp add: engine_kept_def)
next
  case (connects e now order remote peer c)
  then show ?case using engine_kept_direct by (simp add: engine_kept_def)
next
  case (probes e order fails rng)
  then show ?case by (auto simp: probeRandomPeer_def Let_def self_of_def split: option.split)
qed (auto simp: self_of_def RemoveDirectConnection_def probe_timeout_def split: option.split)

lemma names_message:
  assumes "HandleMessage clk order from data e = Return (h, e', acts)" and "names_itself e"
  shows "names_itself e'"
proof -
  have "names_itself (fst (handlePush clk 0 entries e))" for entries
    using assms(2) directory.self_reports by (simp add: handlePush_peers names_itself_def)
  then have "handlePush clk 0 entries e = (e'', acts') \<Longrightarrow> names_itself e''" for entries e'' acts'
    by (metis fst_conv)
  with assms show ?thesis
    by (auto simp: HandleMessage_def names_itself_def split: if_splits outcome.splits prod.splits)
qed

lemma engine_step_knows:
  "engine_step e e' \<Longrightarrow> names_itself e \<Longrightarrow> names_itself e' \<and> (knows nid e \<longrightarrow> knows nid e')"
proof (induction rule: engine_step.induct)
  case (handles_message clk order "from" data e h e' acts)
  then show ?case using names_message known_HandleMessage unfolding knows_def names_itself_def by blast
next
  case (connects e now order remote peer c)
  then show ?case
    by (auto simp: AddDirectConnection_def Let_def knows_def names_itself_def Get_AddOrUpdate)
next
  case (probes e order fails rng)
  then show ?case
    by (auto simp: probeRandomPeer_def Let_def knows_def names_itself_def Get_Mark split: option.split)
qed (auto simp: RemoveDirectConnection_def probe_timeout_def knows_def names_itself_def Get_Mark split: option.split)

lemma engine_steps_keep:
  "engine_step\<^sup>*\<^sup>* e e' \<Longrightarrow> names_itself e \<Longrightarrow> names_itself e' \<and> self_of e' = self_of e \<and> (knows nid e \<longrightarrow> knows nid e')"
proof (induction rule: rtranclp_induct)
  case (step y z)
  then show ?case using engine_step_kept engine_step_knows by metis
qed simp

subsection \<open>Properties\<close>



text \<open>
  C11: The node implements the gossip engine. It starts with an engine that knows no peer, carries the
  node's identifier and puts its signature behind its messages, which is how the engines of a gossip
  network start; and whatever the node does, with any interleaving of its goroutines, its peers change
  only by the engine's own operations: a message from a peer, a connection made or lost, a probe and the
  end of its time. So its identifier, key and address stay, and a peer that was known once is never
  forgotten.
\<close>

theorem node_refines_engine:
  assumes "Node_New lib now rng (fst (LoadOrCreate derive sha256 file random write_ok)) cfg = Return n0"
    and "length (nc_ListenAddr (cfg_Node cfg)) < 256" and "(node_step lib)\<^sup>*\<^sup>* (snd (Node_Start lib se n0)) n"
    and "(node_step lib)\<^sup>*\<^sup>* n n'"
  shows "fresh_engine (id_ID (n_identity n0)) (n_gossip n0) \<and> engine_step\<^sup>*\<^sup>* (n_gossip n0) (n_gossip n) \<and>
    e_selfID (n_gossip n) = id_ID (n_identity n0) \<and> e_pubKey (n_gossip n) = e_pubKey (n_gossip n0) \<and>
    e_selfAddr (n_gossip n) = nc_ListenAddr (cfg_Node cfg) \<and>
    (PeerManager_Get nid (e_peers (n_gossip n)) \<noteq> None \<longrightarrow> PeerManager_Get nid (e_peers (n_gossip n')) \<noteq> None)"
proof -
  have wf: "wf_Node [] n0" using wf_Node_New [OF assms(1,2)] by simp
  note start = okD(1) [OF ok_Node_Start [OF wf, of lib se]]
  note steps = node_moves [OF assms(3) start] node_moves [OF assms(4) conjunct1 [OF steps_move [OF assms(3) start]]]
  have fresh: "fresh_engine (id_ID (n_identity n0)) (n_gossip n0) \<and> e_selfAddr (n_gossip n0) = nc_ListenAddr (cfg_Node cfg)"
    using assms(1,2) LoadOrCreate_ID
    by (auto simp: Node_New_def wireCallbacks_def Let_def fresh_engine_def appends_signature_def signMsg_def SignMessage_def
        OnPeerDead_def OnPeerDiscovered_def SetSignFunc_def NewEngine_def split: outcome.splits sum.splits)
  have e: "engine_step\<^sup>*\<^sup>* (n_gossip n0) (n_gossip n)"
    using steps(1) core_parts [of "snd (Node_Start lib se n0)" n0] by simp
  have "names_itself (n_gossip n0)" using fresh by (simp add: names_itself_def fresh_engine_def)
  from engine_steps_keep [OF e this] have kept: "names_itself (n_gossip n)" "self_of (n_gossip n) = self_of (n_gossip n0)" by blast+
  from engine_steps_keep [OF conjunct2 [OF steps(2)] kept(1), of nid] kept(2) fresh e assms(2) show ?thesis
    by (simp add: self_of_def fresh_engine_def knows_def)
qed

theorem node_refines_engine_witness:
  "\<exists>n0. Node_New sample_library 0 1 (fst (LoadOrCreate (\<lambda>s. s) (\<lambda>b. b) (FileData (EncodeToString (replicate 32 5))) None True))
     sample_config = Return n0 \<and> fresh_engine (id_ID (n_identity n0)) (n_gossip n0) \<and>
     e_selfID (n_gossip (Node_Stop [] (snd (Node_Start sample_library sample_start n0)))) = id_ID (n_identity n0)"
proof -
  obtain n0 where n0: "Node_New sample_library 0 1 (fst (LoadOrCreate (\<lambda>s. s) (\<lambda>b. b) (FileData (EncodeToString (replicate 32 5))) None True))
      sample_config = Return n0"
    by (simp add: sample_loaded Node_New_def sample_config_def DefaultConfig_def)
  have cfg: "length (nc_ListenAddr (cfg_Node sample_config)) < 256" by (simp add: sample_config_def DefaultConfig_def)
  have "(node_step sample_library)\<^sup>*\<^sup>* (snd (Node_Start sample_library sample_start n0))
      (Node_Stop [] (snd (Node_Start sample_library sample_start n0)))"
    by (intro r_into_rtranclp node_step.stops)
  from node_refines_engine [OF n0 cfg this rtranclp.rtrancl_refl] n0 show ?thesis by blast
qed

end
