(* ===== verification/Node_Control.thy ===== *)
theory Node_Control
  imports Node_Refines
begin

text \<open>
  Control messages and the routes they carry. First, when the dispatcher panics: in a node whose
  connections all have their control stream, exactly on a signed message without content and on a
  route message the decoder panics on. Second, the node's own push is the gossip engine's. Last, a
  configuration that stops the node, and a lost connection that makes it forget a newer one.
\<close>

subsection \<open>Panics\<close>

lemma Stream_Write_no_panic: "fst (Stream_Write s b c) \<noteq> Panic"
proof -
  have "fst (writeFrame f c) \<noteq> Panic" for f
  proof (cases "WriteFrame raw_write (c_raw c) f")
    case (Pair res raw)
    from raw.WriteFrame_sink [OF this] show ?thesis using Pair by (cases res) (simp_all add: writeFrame_def)
  qed
  then show ?thesis by (auto simp: Stream_Write_def split: prod.split outcome.split) (metis fst_conv)
qed

definition streams_up :: "Node \<Rightarrow> bool" where
  "streams_up n \<longleftrightarrow> (\<forall>c<length (n_links n). ControlStream (conn_at n c) \<noteq> None)"

text \<open>Writing leaves the map of streams as it is.\<close>

lemma Stream_Write_streams: "c_streams (snd (Stream_Write s b c)) = c_streams c"
  by (auto simp: Stream_Write_def writeFrame_def split: prod.split outcome.split)

lemma streams_up_set_conn:
  "streams_up n \<Longrightarrow> c < length (n_links n) \<Longrightarrow> c_streams k = c_streams (conn_at n c) \<Longrightarrow> streams_up (set_conn c k n)"
  by (simp add: streams_up_def set_conn_def ControlStream_def conn_at_def nth_list_update)

lemma control_write_up:
  assumes "streams_up n" and "c < length (n_links n)"
  shows "fst (control_write c msg n) \<noteq> Panic" "streams_up (snd (control_write c msg n))"
    "n_peerConns (snd (control_write c msg n)) = n_peerConns n" "n_gossip (snd (control_write c msg n)) = n_gossip n"
    "length (n_links (snd (control_write c msg n))) = length (n_links n)"
proof -
  obtain s where s: "ControlStream (conn_at n c) = Some s" using assms by (auto simp: streams_up_def)
  then have w: "control_write c msg n = (fst (Stream_Write s msg (conn_at n c)), set_conn c (snd (Stream_Write s msg (conn_at n c))) n)"
    by (simp add: control_write_def case_prod_beta)
  show "fst (control_write c msg n) \<noteq> Panic" by (simp add: w Stream_Write_no_panic)
  show "streams_up (snd (control_write c msg n))"
    using assms by (simp add: w streams_up_set_conn Stream_Write_streams)
  show "n_peerConns (snd (control_write c msg n)) = n_peerConns n" "n_gossip (snd (control_write c msg n)) = n_gossip n"
    "length (n_links (snd (control_write c msg n))) = length (n_links n)"
    by (simp_all add: w set_conn_def)
qed

text \<open>\<open>ready n\<close>: every connection the maps refer to can be written to.\<close>

definition ready :: "Node \<Rightarrow> bool" where
  "ready n \<longleftrightarrow> streams_up n \<and> (\<forall>key c. n_peerConns n key = Some c \<longrightarrow> c < length (n_links n)) \<and>
     (\<forall>key c. e_conns (n_gossip n) key = Some c \<longrightarrow> c < length (n_links n))"

text \<open>The computation returns a node that is still ready and has as many connections.\<close>

definition proceeds :: "Node \<Rightarrow> (unit, Node) outcome \<Rightarrow> bool" where
  "proceeds n m \<longleftrightarrow> (\<exists>n'. m = Return n' \<and> ready n' \<and> length (n_links n') = length (n_links n))"

lemma proceeds_bind: "proceeds n m \<Longrightarrow> (\<And>n'. ready n' \<Longrightarrow> length (n_links n') = length (n_links n) \<Longrightarrow> proceeds n' (f n')) \<Longrightarrow>
    proceeds n (go_bind m f)"
  by (fastforce simp: proceeds_def)

lemma proceeds_write: "ready n \<Longrightarrow> c < length (n_links n) \<Longrightarrow> proceeds n (logged (control_write c msg n))"
  using control_write_up [of n c msg]
  by (cases "control_write c msg n"; cases "fst (control_write c msg n)") (auto simp: ready_def proceeds_def logged_def)

lemma proceeds_engine_act: "ready n \<Longrightarrow> wf_act n a \<Longrightarrow> proceeds n (engine_act a n)"
  by (cases a) (auto simp: proceeds_write, auto simp: proceeds_def ready_def streams_up_def spawn_def conn_at_def)

lemma proceeds_engine_acts: "ready n \<Longrightarrow> list_all (wf_act n) as \<Longrightarrow> proceeds n (engine_acts as n)"
proof (induction as arbitrary: n)
  case (Cons a as)
  have mono: "wf_act n' b" if "length (n_links n') = length (n_links n)" "wf_act n b" for n' b
    using that by (cases b) auto
  show ?case unfolding engine_acts.simps
    by (rule proceeds_bind [OF proceeds_engine_act])
       (use Cons mono in \<open>auto simp: list_all_iff\<close>)
qed (simp add: proceeds_def)

lemma proceeds_send: "ready n \<Longrightarrow> proceeds n (logged (sendControlMsg lib p msg n))"
proof (cases "getPeerConn p n")
  case (Some c)
  let ?msg = "SignMessage (lib_sign lib) msg (id_PrivKey (n_identity n))"
  assume "ready n"
  moreover from this Some have "c < length (n_links n)" by (auto simp: ready_def getPeerConn_def)
  ultimately have "proceeds n (logged (control_write c ?msg n))" by (rule proceeds_write)
  moreover have "logged (sendControlMsg lib p msg n) = logged (control_write c ?msg n)"
    using Some by (cases "control_write c ?msg n"; cases "fst (control_write c ?msg n)") (auto simp: sendControlMsg_def logged_def)
  ultimately show ?thesis by simp
qed (simp add: sendControlMsg_def logged_def proceeds_def)

lemma proceeds_prop_acts: "ready n \<Longrightarrow> proceeds n (prop_acts lib orders i as n)"
proof (induction as arbitrary: n i)
  case (Cons a as)
  have bc: "list_all (wf_act n) (Broadcast_all order msg (n_gossip n))" if "ready n" for n order msg
    using that by (auto simp: Broadcast_all_def Let_def list_all_iff List.map_filter_def ready_def)
  show ?case
  proof (cases a)
    case (Send p msg)
    show ?thesis unfolding Send prop_acts.simps by (rule proceeds_bind [OF proceeds_send [OF Cons.prems] Cons.IH])
  next
    case (Broadcast msg)
    show ?thesis unfolding Broadcast prop_acts.simps
      by (rule proceeds_bind [OF proceeds_engine_acts [OF Cons.prems bc [OF Cons.prems]] Cons.IH])
  qed
qed (simp add: proceeds_def)

lemma ready_component:
  "ready n \<Longrightarrow> ready (n\<lparr>n_prop := p\<rparr>)" "ready n \<Longrightarrow> e_conns e = e_conns (n_gossip n) \<Longrightarrow> ready (n\<lparr>n_gossip := e\<rparr>)"
  by (simp_all add: ready_def streams_up_def conn_at_def)

lemma handle_route_Panic:
  "ready n \<Longrightarrow> handle_route lib env from data n = Panic \<longleftrightarrow> DecodeRouteMessage data = Panic"
proof -
  assume n: "ready n"
  have p: "prop_acts lib orders i as (n\<lparr>n_prop := p\<rparr>) \<noteq> Panic" for orders i as p
    using proceeds_prop_acts [OF ready_component(1) [OF n, of p], of lib orders i as] by (auto simp: proceeds_def)
  show ?thesis
    by (cases rule: HandleRouteUpdate_cases [of data "alive_ids (en_peers env 1) n" "en_clk env 0" "en_clk env 1" "from" "n_prop n"])
       (auto simp: handle_route_def p)
qed

lemma relay_incoming_no_panic: "relay_incoming clk from data n \<noteq> Panic"
  using DecodeUDPForward_no_panic [of data]
  by (cases "DecodeUDPForward data") (auto simp: relay_incoming_def HandleIncoming_def Let_def case_prod_beta split: prod.split option.split)

lemma verified_no_panic:
  assumes "wf_Node hs n"
  shows "verified_msg lib from data n \<noteq> Panic"
proof (cases "PeerManager_Get from (e_peers (n_gossip n))")
  case (Some p)
  then have "key_ok p" using assms by (auto simp: wf_Node_def wf_parts_def wf_keys_def)
  then have "0 < length (pr_PubKey p) \<Longrightarrow> VerifyMessage (lib_verify lib) data (pr_PubKey p) \<noteq> Panic"
    by (auto simp: VerifyMessage_def key_ok_def Let_def)
  with Some show ?thesis by (auto simp: verified_msg_def split: outcome.split)
qed (simp add: verified_msg_def)

lemma HandleMessage_unhandled:
  assumes "HandleMessage clk order from data e = Return (False, e', acts)"
  shows "data = [] \<or> data ! 0 \<notin> {MsgGossipPush, MsgGossipPull, MsgPing, MsgPong}"
  using assms by (auto simp: HandleMessage_def split: if_splits outcome.splits prod.splits)

lemma handle_verified_Panic:
  assumes n: "wf_Node hs n" "streams_up n" and "length from = 16"
  shows "handle_verified lib env from msg n = Panic \<longleftrightarrow> msg = [] \<or> msg ! 0 = MsgRouteUpdate \<and> DecodeRouteMessage msg = Panic"
proof -
  obtain h e acts where hm: "HandleMessage (en_clk env) (en_peers env 0) from msg (n_gossip n) = Return (h, e, acts)"
    using HandleMessage_total [OF wf_NodeD(2) [OF n(1)]] by blast
  note acts = HandleMessage_acts [OF n(1) hm]
  have "ready n" using n by (auto simp: ready_def dest: wf_NodeD)
  then have r: "ready (n\<lparr>n_gossip := e\<rparr>)" using acts(3) by (rule ready_component)
  have "wf_act (n\<lparr>n_gossip := e\<rparr>) a = wf_act n a" for a by (cases a) simp_all
  with acts(2) have "list_all (wf_act (n\<lparr>n_gossip := e\<rparr>)) acts" by (simp add: list_all_iff)
  from proceeds_engine_acts [OF r this] obtain n' where n': "engine_acts acts (n\<lparr>n_gossip := e\<rparr>) = Return n'" "ready n'"
    by (auto simp: proceeds_def)
  have handled: "msg \<noteq> [] \<and> msg ! 0 \<noteq> MsgRouteUpdate" if h
    using hm that by (auto simp: HandleMessage_def split: if_splits)
  have unhandled: "msg = [] \<or> msg ! 0 \<notin> {MsgGossipPush, MsgGossipPull, MsgPing, MsgPong}" if "\<not> h"
    using HandleMessage_unhandled hm that by (cases h) auto
  show ?thesis
  proof (cases "h \<or> msg = []")
    case True
    with hm n' handled show ?thesis by (auto simp: handle_verified_def index_at_def)
  next
    case False
    with hm n' show ?thesis
      using handle_route_Panic [OF n'(2), of lib env "from" msg] relay_incoming_no_panic [of "en_clk env" "from" msg n']
      by (auto simp: handle_verified_def index_at_def)
  qed
qed

subsection \<open>The node's push\<close>

lemma self_push_eq:
  assumes "wf_Node hs n"
  shows "buildSelfGossipPush order n = buildGossipPush order (n_gossip n)"
proof -
  have "speaks_for (n_identity n) (n_cfg n) (n_gossip n)" using assms by (simp add: wf_Node_def wf_parts_def)
  moreover have "(if length k = 32 then copy_array 32 k else z) = (if length k = 32 then k else z)" for k z by simp
  ultimately show ?thesis
    by (simp add: buildSelfGossipPush_def buildGossipPush_def self_entry_def peer_entry_def [abs_def] speaks_for_def self_of_def)
qed

subsection \<open>Intervals\<close>

text \<open>
  A configuration without an advertisement interval is valid, but the interval is then zero, and
  making its ticker stops the program.
\<close>

lemma empty_interval_panics:
  "Validate frac (DefaultConfig\<lparr>cfg_Routing := (cfg_Routing DefaultConfig)\<lparr>rc_RouteAdvertisementIntervalS := []\<rparr>\<rparr>) = None"
  "n_cfg n = DefaultConfig\<lparr>cfg_Routing := (cfg_Routing DefaultConfig)\<lparr>rc_RouteAdvertisementIntervalS := []\<rparr>\<rparr> \<Longrightarrow>
     ticker_loop lib env RouteGCTick False n = Some Panic"
proof -
  let ?cfg = "DefaultConfig\<lparr>cfg_Routing := (cfg_Routing DefaultConfig)\<lparr>rc_RouteAdvertisementIntervalS := []\<rparr>\<rparr>"
  have "valid_config frac ?cfg"
    using DefaultConfig_valid [of frac] by (auto simp: valid_config_def duration_fields_def)
  then show "Validate frac ?cfg = None" by (simp add: Validate_valid)
  have "ParseDuration (lib_frac lib) [] = None" by (simp add: ParseDuration_def)
  then show "n_cfg n = ?cfg \<Longrightarrow> ticker_loop lib env RouteGCTick False n = Some Panic"
    by (simp add: ticker_loop_def RouteAdvertisementInterval_def parseDuration_def)
qed

subsection \<open>Lost connections\<close>

lemma engine_acts_maps:
  "engine_acts as n = Return n' \<Longrightarrow> n_peerConns n' = n_peerConns n \<and> n_gossip n' = n_gossip n"
proof (induction as arbitrary: n)
  case (Cons a as)
  have act: "n_peerConns m = n_peerConns n \<and> n_gossip m = n_gossip n" if "engine_act a n = Return m" for m
    using that by (cases a) (auto simp: logged_def control_write_def set_conn_def spawn_def split: option.splits prod.splits outcome.splits)
  from Cons.prems obtain m where "engine_act a n = Return m" "engine_acts as m = Return n'" by (auto simp: go_outcome)
  with act Cons.IH show ?case by metis
qed simp

lemma prop_acts_maps:
  "prop_acts lib orders i as n = Return n' \<Longrightarrow> n_peerConns n' = n_peerConns n \<and> n_gossip n' = n_gossip n"
proof (induction as arbitrary: n i)
  case (Cons a as)
  have send: "n_peerConns m = n_peerConns n \<and> n_gossip m = n_gossip n" if "logged (sendControlMsg lib p msg n) = Return m" for m p msg
    using that by (auto simp: logged_def sendControlMsg_def control_write_def set_conn_def Let_def
        split: option.splits prod.splits outcome.splits)
  show ?case
  proof (cases a)
    case (Send p msg)
    with Cons.prems obtain m where "logged (sendControlMsg lib p msg n) = Return m" "prop_acts lib orders (i + 1) as m = Return n'"
      by (auto simp: go_outcome)
    with send Cons.IH show ?thesis by metis
  next
    case (Broadcast msg)
    with Cons.prems obtain m where "engine_acts (Broadcast_all (orders i) msg (n_gossip n)) n = Return m"
      "prop_acts lib orders (i + 1) as m = Return n'" by (auto simp: go_outcome)
    with engine_acts_maps Cons.IH show ?thesis by metis
  qed
qed simp

text \<open>
  When a connection ends, the peer is forgotten, even if the maps by then hold another, newer
  connection to it: that one stays open, but nothing is sent on it any more.
\<close>

lemma lost_connection_forgets_newer:
  assumes "connection_lost lib env p c None n = Return n'" and "n_peerConns n (NodeID_String p) = Some c'" and "c' \<noteq> c"
  shows "n_peerConns n' (NodeID_String p) = None \<and> e_conns (n_gossip n') (NodeID_String p) = None"
proof -
  let ?n = "(close_conn c (n\<lparr>n_peerConns := (n_peerConns n)(NodeID_String p := None)\<rparr>))"
  let ?m = "?n\<lparr>n_gossip := (RemoveDirectConnection p (n_gossip ?n))\<lparr>e_peers :=
    MarkDead p (e_peers (RemoveDirectConnection p (n_gossip ?n)))\<rparr>\<rparr>"
  obtain m acts q where m: "prop_acts lib (en_conns env) 0 acts (?m\<lparr>n_prop := q\<rparr>) = Return m" "n' = spawn (ReconnectPeer p) m"
    using assms(1) by (auto simp: connection_lost_def withdraw_from_def Let_def case_prod_beta go_outcome)
  have "n_peerConns (?m\<lparr>n_prop := q\<rparr>) (NodeID_String p) = None" "e_conns (n_gossip (?m\<lparr>n_prop := q\<rparr>)) (NodeID_String p) = None"
    by (simp_all add: close_conn_def set_conn_def RemoveDirectConnection_def)
  with prop_acts_maps [OF m(1)] m(2) show ?thesis by (simp add: spawn_def)
qed

subsection \<open>Properties\<close>

text \<open>
  C12: What can stop a node: while its connections have their control streams, the dispatcher of
  control messages panics exactly on a message whose content, after the check of the signature, is
  empty, and on a route message on which the decoder panics. A peer whose key is known brings a
  node down with its signature of the empty message.
\<close>

theorem dispatch_Panic_iff:
  assumes "wf_Node hs n" and "streams_up n" and "length from = 16"
  shows "dispatchControlMsg lib env from data n = Panic \<longleftrightarrow>
    data \<noteq> [] \<and> (\<exists>msg. verified_msg lib from data n = Return (Some msg) \<and>
      (msg = [] \<or> msg ! 0 = MsgRouteUpdate \<and> DecodeRouteMessage msg = Panic))"
  using verified_no_panic [OF assms(1), of lib "from" data] handle_verified_Panic [OF assms, of lib env]
  by (cases "verified_msg lib from data n") (auto simp: dispatchControlMsg_def split: option.split)

definition sample_node :: Node where
  "sample_node = (case Node_New sample_library 0 1 (Return (fromKeypair (\<lambda>b. b) (replicate 32 5) (replicate 64 5))) sample_config of
     Return n \<Rightarrow> n\<lparr>n_gossip := (n_gossip n)\<lparr>e_peers := snd (AddOrUpdate 0 \<lparr>pr_ID = replicate 16 9, pr_PubKey = replicate 32 9,
       pr_Addr = ''192.0.2.9:9443'', pr_State = PeerAlive, pr_Version = 1, pr_LastSeen = 0, pr_DirectNets = []\<rparr> (e_peers (n_gossip n)))\<rparr>\<rparr>)"

lemma wf_sample_node: "wf_Node [] sample_node" "n_links sample_node = []"
    "\<exists>p. PeerManager_Get (replicate 16 9) (e_peers (n_gossip sample_node)) = Some p \<and> pr_PubKey p = replicate 32 9"
proof -
  let ?p = "\<lparr>pr_ID = replicate 16 9, pr_PubKey = replicate 32 9, pr_Addr = ''192.0.2.9:9443'', pr_State = PeerAlive,
    pr_Version = 1, pr_LastSeen = 0, pr_DirectNets = []\<rparr>"
  obtain n where n: "Node_New sample_library 0 1 (Return (fromKeypair (\<lambda>b. b) (replicate 32 5) (replicate 64 5))) sample_config = Return n"
    and links: "n_links n = []" and peers: "e_peers (n_gossip n) = NewPeerManager (replicate 16 5)"
    by (simp add: Node_New_def sample_config_def DefaultConfig_def wireCallbacks_def NewEngine_def OnPeerDead_def
        OnPeerDiscovered_def SetSignFunc_def fromKeypair_def Let_def)
  have "length (nc_ListenAddr (cfg_Node sample_config)) < 256" by (simp add: sample_config_def DefaultConfig_def)
  from wf_Node_New [OF n [folded sample_loaded] this] have wf: "wf_Node [] n" by simp
  have sample: "sample_node = n\<lparr>n_gossip := (n_gossip n)\<lparr>e_peers := snd (AddOrUpdate 0 ?p (e_peers (n_gossip n)))\<rparr>\<rparr>"
    by (simp add: sample_node_def n)
  have "engine_kept (n_gossip n) ((n_gossip n)\<lparr>e_peers := snd (AddOrUpdate 0 ?p (e_peers (n_gossip n)))\<rparr>)"
    using wf_keys_add [of "n_gossip n" ?p 0] by (simp add: engine_kept_def self_of_def key_ok_def)
  then have "ok [] n sample_node"
    unfolding sample
    by (intro ok_gossip wf wf_Engine_add) (use wf_NodeD(2,7) [OF wf] in simp_all)
  then show "wf_Node [] sample_node" by (rule okD)
  show "n_links sample_node = []" by (simp add: sample links)
  show "\<exists>p. PeerManager_Get (replicate 16 9) (e_peers (n_gossip sample_node)) = Some p \<and> pr_PubKey p = replicate 32 9"
    by (simp add: sample peers Get_AddOrUpdate merge_peer_def)
qed

theorem dispatch_Panic_iff_witness:
  "dispatchControlMsg sample_library sample_env (replicate 16 9) (replicate 64 7) sample_node = Panic"
proof -
  have "verified_msg sample_library (replicate 16 9) (replicate 64 7) sample_node = Return (Some [])"
    using wf_sample_node(3) by (auto simp: verified_msg_def VerifyMessage_def sample_library_def)
  with dispatch_Panic_iff [OF wf_sample_node(1), of "replicate 16 9" sample_library sample_env "replicate 64 7"]
  show ?thesis by (auto simp: streams_up_def wf_sample_node(2))
qed

text \<open>
  C28: The two builders of gossip pushes agree: in every reachable state, the push a node sends on a
  new connection is the one its gossip engine builds.
\<close>

theorem self_push_is_engine_push:
  assumes "Node_New lib now rng (fst (LoadOrCreate derive sha256 file random write_ok)) cfg = Return n0"
    and "length (nc_ListenAddr (cfg_Node cfg)) < 256" and "(node_step lib)\<^sup>*\<^sup>* (snd (Node_Start lib se n0)) n"
  shows "buildSelfGossipPush order n = buildGossipPush order (n_gossip n)"
proof -
  have "started lib (snd (Node_Start lib se n0))" using assms(1,2) unfolding started_def by blast
  from self_push_eq [OF running.reachable_inv [OF this assms(3)]] show ?thesis .
qed

theorem self_push_is_engine_push_witness:
  "\<exists>n0. Node_New sample_library 0 1 (fst (LoadOrCreate (\<lambda>s. s) (\<lambda>b. b) (FileData (EncodeToString (replicate 32 5))) None True))
     sample_config = Return n0 \<and>
     buildSelfGossipPush [] (snd (Node_Start sample_library sample_start n0)) =
     buildGossipPush [] (n_gossip (snd (Node_Start sample_library sample_start n0)))"
proof -
  obtain n0 where n0: "Node_New sample_library 0 1 (fst (LoadOrCreate (\<lambda>s. s) (\<lambda>b. b) (FileData (EncodeToString (replicate 32 5))) None True))
      sample_config = Return n0"
    by (simp add: sample_loaded Node_New_def sample_config_def DefaultConfig_def)
  have "length (nc_ListenAddr (cfg_Node sample_config)) < 256" by (simp add: sample_config_def DefaultConfig_def)
  from n0 self_push_is_engine_push [OF n0 this rtranclp.rtrancl_refl, of "[]" sample_start] show ?thesis by blast
qed

end
