(* ===== verification/Node_Shutdown.thy ===== *)
theory Node_Shutdown
  imports Node_Control
begin

text \<open>
  The life of the program: \<open>main\<close> of cmd/magictun/main.go from its arguments to its end, with the wait at
  the end of \<open>Stop\<close>, node/node.go. The goroutines \<open>Stop\<close> waits for are those of the wait group
  (\<open>wait_group\<close>). Shown: none of them starts more work once the node is stopped, and the shutdown can
  complete from every state in which the listener still works and no goroutine waits for the first
  message of a bootstrap peer; what happens in those two states, too.

  The lemmas say that all other goroutines leave alone what matters here (\<open>watch\<close>): the wait group, the
  cancellation, the configuration and the listener.
\<close>

subsection \<open>The program\<close>

text \<open>The goroutines that \<open>Start\<close> and \<open>bootstrap\<close> add to the wait group.\<close>

fun tracked :: "task \<Rightarrow> bool" where
  "tracked AcceptLoop = True"
| "tracked UdpReadLoop = True"
| "tracked (Ticker k made) = (k = SessionGCTick \<or> k = RouteGCTick \<or> k = StatsTick)"
| "tracked Bootstrap = True"
| "tracked (BootstrapPeer addr) = True"
| "tracked (BootstrapDial addr backoff) = True"
| "tracked (BootstrapSleep addr backoff delay begun) = True"
| "tracked (BootstrapRead addr c s backoff) = True"
| "tracked _ = False"

definition wait_group :: "Node \<Rightarrow> task list" where
  "wait_group n = filter tracked (n_tasks n)"

text \<open>The wait at the end of \<open>Stop\<close>; \<open>pick\<close> decides when both channels are ready.\<close>

datatype shutdown = ShutdownComplete | ShutdownTimedOut

definition stop_wait :: "bool \<Rightarrow> duration \<Rightarrow> Node \<Rightarrow> shutdown option" where
  "stop_wait pick waited n =
     (if wait_group n = [] \<and> (pick \<or> waited < 5 * second) then Some ShutdownComplete
      else if 5 * second \<le> waited then Some ShutdownTimedOut
      else None)"

text \<open>
  \<open>main\<close> up to the wait for a signal: the node, or the code the program exits with. Package flag exits
  with 0 when help was asked for and with 2 on an error, \<open>log.Fatalf\<close> exits with 1, a panic with 2.
\<close>

definition main_start ::
  "library \<Rightarrow> (bytes \<Rightarrow> Config \<Rightarrow> Config option) \<Rightarrow> (string \<Rightarrow> bytes option) \<Rightarrow>
   (string \<Rightarrow> (keyfile_error, Identity) outcome) \<Rightarrow> go_time \<Rightarrow> uint32 \<Rightarrow> start_env \<Rightarrow> string list \<Rightarrow> nat + Node" where
  "main_start lib unmarshal readFile load now rng se args =
     (case flag_Parse args default_flags of
        Inl HelpRequested \<Rightarrow> Inl 0
      | Inl _ \<Rightarrow> Inl 2
      | Inr (fl, _) \<Rightarrow>
          (case node_main lib unmarshal readFile load now rng se fl of
             Return n \<Rightarrow> Inr n
           | Error _ \<Rightarrow> Inl 1
           | Panic \<Rightarrow> Inl 2))"

text \<open>\<open>main\<close> from there on: a signal, the call of \<open>Stop\<close>, and its return.\<close>

datatype phase = Serving | Stopping go_time | Ended shutdown

inductive main_step :: "library \<Rightarrow> phase \<times> Node \<Rightarrow> phase \<times> Node \<Rightarrow> bool" for lib where
  serves: "main_step lib (Serving, n) (Serving, n')"
    if "node_step lib n n'" "n_cancelled n' = n_cancelled n"
| signalled: "main_step lib (Serving, n) (Stopping now, Node_Stop order n)"
    if "range_order (n_peerConns n) order"
| winds_down: "main_step lib (Stopping t, n) (Stopping t, n')"
    if "node_step lib n n'"
| returns: "main_step lib (Stopping t, n) (Ended r, n)"
    if "stop_wait pick (now - t) n = Some r"

subsection \<open>What the other goroutines leave alone\<close>

definition watch :: "Node \<Rightarrow> task list \<times> bool \<times> Config \<times> Listener option" where
  "watch n = (wait_group n, n_cancelled n, n_cfg n, n_ln n)"

lemma watch_parts:
  "watch n' = watch n \<longleftrightarrow> wait_group n' = wait_group n \<and> n_cancelled n' = n_cancelled n \<and> n_cfg n' = n_cfg n \<and> n_ln n' = n_ln n"
  by (simp add: watch_def)

lemma watch_updates [simp]:
  "watch (n\<lparr>n_prop := p\<rparr>) = watch n" "watch (n\<lparr>n_gossip := e\<rparr>) = watch n" "watch (n\<lparr>n_rng := r\<rparr>) = watch n"
  "watch (n\<lparr>n_stats := b\<rparr>) = watch n" "watch (n\<lparr>n_links := d\<rparr>) = watch n" "watch (n\<lparr>n_udpRelay := f\<rparr>) = watch n"
  "watch (n\<lparr>n_peerConns := g\<rparr>) = watch n" "watch (n\<lparr>n_acceptLimiter := i\<rparr>) = watch n"
  "watch (n\<lparr>n_reconnecting := j\<rparr>) = watch n" "watch (n\<lparr>n_directOut := k\<rparr>) = watch n" "watch (n\<lparr>n_udpLn := m\<rparr>) = watch n"
  "watch (n\<lparr>n_socks := s\<rparr>) = watch n" "watch (n\<lparr>n_peerUDPAddrs := t\<rparr>) = watch n" "watch (n\<lparr>n_udpOut := u\<rparr>) = watch n"
  "watch (n\<lparr>n_clientOut := v\<rparr>) = watch n"
  by (simp_all add: watch_def wait_group_def)

lemma watch_spawn [simp]: "\<not> tracked t \<Longrightarrow> watch (spawn t n) = watch n"
  by (simp add: watch_def wait_group_def spawn_def)

lemma wait_group_spawn: "wait_group (spawn t n) = wait_group n @ (if tracked t then [t] else [])"
  by (simp add: wait_group_def spawn_def)

lemma spawn_fields [simp]:
  "n_cancelled (spawn t n) = n_cancelled n" "n_cfg (spawn t n) = n_cfg n" "n_ln (spawn t n) = n_ln n"
  by (simp_all add: spawn_def)

lemma watch_changes [simp]:
  "watch (set_conn c k n) = watch n" "watch (close_conn c n) = watch n" "watch (store_conn p c n) = watch n"
  "watch (unmarkDialing m n) = watch n" "watch (snd (add_link k r n)) = watch n" "watch (snd (tryMarkDialing m n)) = watch n"
  "watch (registerPeerUDPAddr lib p addr n) = watch n" "watch (udp_send p data n) = watch n" "watch (udp_deliver s data n) = watch n"
  by (simp_all add: set_conn_def close_conn_def store_conn_def unmarkDialing_def add_link_def tryMarkDialing_def
      registerPeerUDPAddr_def udp_send_def udp_deliver_def split: option.split prod.split)

lemma watch_writes [simp]:
  "watch (snd (control_write c msg n)) = watch n" "watch (snd (sendControlMsg lib p msg n)) = watch n"
  "watch (snd (streamConn_Write b sc n)) = watch n" "watch (snd (dial_peer p target n)) = watch n"
proof -
  show w: "watch (snd (control_write c msg n)) = watch n" for c msg
    by (auto simp: control_write_def split: option.split prod.split)
  show "watch (snd (sendControlMsg lib p msg n)) = watch n"
    using w by (auto simp: sendControlMsg_def Let_def split: option.split prod.split outcome.split) (metis snd_conv)+
  show "watch (snd (streamConn_Write b sc n)) = watch n" by (simp add: streamConn_Write_def case_prod_beta)
  show "watch (snd (dial_peer p target n)) = watch n"
    by (auto simp: dial_peer_def split: option.split prod.split outcome.split)
qed

lemma watch_relay [simp]: "watch (relay_acts as n) = watch n" "watch (udp_forward clk hop sid target payload n) = watch n"
proof -
  show r: "watch (relay_acts as n) = watch n" for as n by (induction as n rule: relay_acts.induct) simp_all
  show "watch (udp_forward clk hop sid target payload n) = watch n" by (simp add: udp_forward_def case_prod_beta r)
qed

text \<open>\<open>keeps n m\<close>: the computation \<open>m\<close>, started in \<open>n\<close>, leaves it alone.\<close>

definition keeps :: "Node \<Rightarrow> (unit, Node) outcome \<Rightarrow> bool" where
  "keeps n m \<longleftrightarrow> (\<forall>n'. m = Return n' \<longrightarrow> watch n' = watch n)"

lemma keeps_Return [simp]: "keeps n (Return n') \<longleftrightarrow> watch n' = watch n"
  by (simp add: keeps_def)

lemma keeps_Panic [simp]: "keeps n Panic"
  by (simp add: keeps_def)

lemma keeps_bind: "keeps n m \<Longrightarrow> (\<And>n'. keeps n' (f n')) \<Longrightarrow> keeps n (go_bind m f)"
  by (cases m) (auto simp: keeps_def)

lemma keeps_pure: "(\<And>x. m = Return x \<Longrightarrow> keeps n (f x)) \<Longrightarrow> keeps n (go_bind m f)"
  by (cases m) (auto simp: keeps_def)

lemma keeps_from: "watch n' = watch n \<Longrightarrow> keeps n' m \<Longrightarrow> keeps n m"
  by (simp add: keeps_def)

lemma keeps_logged: "watch (snd r) = watch n \<Longrightarrow> keeps n (logged r)"
  by (cases r; cases "fst r") (auto simp: logged_def)

lemma keeps_engine_acts: "watch n' = watch n \<Longrightarrow> keeps n (engine_acts as n')"
proof (induction as arbitrary: n n')
  case (Cons a as)
  have "keeps n' (engine_act a n')" by (cases a) (simp_all add: keeps_logged)
  then show ?case using Cons by (auto intro: keeps_from keeps_bind)
qed simp

lemma keeps_prop_acts: "watch n' = watch n \<Longrightarrow> keeps n (prop_acts lib orders i as n')"
proof (induction as arbitrary: n n' i)
  case (Cons a as)
  then show ?case
    by (cases a) (auto intro!: keeps_bind [OF keeps_logged] keeps_bind [OF keeps_engine_acts])
qed simp

lemma keeps_relay_incoming: "watch n' = watch n \<Longrightarrow> keeps n (relay_incoming clk from data n')"
  unfolding relay_incoming_def by (rule keeps_pure) (simp add: case_prod_beta)

lemma keeps_dispatch: "keeps n (dispatchControlMsg lib env from data n)"
proof -
  have route: "keeps n (handle_route lib env from data n)" for n data
    unfolding handle_route_def by (auto intro!: keeps_pure keeps_prop_acts)
  have "keeps n (handle_verified lib env from data n)" for data
    unfolding handle_verified_def
    by (rule keeps_pure, clarify, rule keeps_bind [OF keeps_engine_acts])
       (auto intro!: keeps_pure keeps_relay_incoming route)
  then show ?thesis by (auto simp: dispatchControlMsg_def intro!: keeps_pure split: option.split)
qed

lemma keeps_connection:
  "watch n' = watch n \<Longrightarrow> keeps n (add_direct env p c n')" "keeps n (advertise lib env n)" "keeps n (withdraw_from lib env p n)"
  by (auto simp: add_direct_def advertise_def withdraw_from_def case_prod_beta intro!: keeps_engine_acts keeps_prop_acts)

lemma keeps_handleControl: "watch n' = watch n \<Longrightarrow> keeps n (handleControlMessages lib env p c initial mark n')"
  unfolding handleControlMessages_def
  by (rule keeps_from, assumption, rule keeps_bind) (auto intro: keeps_dispatch split: option.split)

lemma keeps_announce: "watch n' = watch n \<Longrightarrow> keeps n (announce lib env p addr c mark n')"
  unfolding announce_def Let_def
  by (rule keeps_from [where n' = "registerPeerUDPAddr lib p addr n'"])
     (auto intro!: keeps_bind keeps_logged keeps_connection keeps_handleControl)

lemma watch_steps [simp]:
  "watch (connectToPeer p addr n) = watch n" "watch (reconnect_head p mark b n) = watch n"
  "watch (reconnectPeer p n) = watch n" "watch (socks_udp clk dial_ok ev n) = watch n"
proof -
  show "watch (connectToPeer p addr n) = watch n" by (simp add: connectToPeer_def tryMarkDialing_def)
  show head: "watch (reconnect_head p mark b n) = watch n" for mark b n by (simp add: reconnect_head_def split: option.split)
  show "watch (reconnectPeer p n) = watch n" by (simp add: reconnectPeer_def tryMarkDialing_def head split: option.split)
  show "watch (socks_udp clk dial_ok ev n) = watch n" by (cases ev) (simp_all add: udp_direct_def)
qed

lemma watch_read: "streamConn_Read k sc n = Some (res, n') \<Longrightarrow> watch n' = watch n"
  by (auto simp: streamConn_Read_def)

lemma keeps_connection_lost: "watch n' = watch n \<Longrightarrow> keeps n (connection_lost lib env p c mark n')"
  unfolding connection_lost_def Let_def
  by (rule keeps_from [rotated], rule keeps_bind, rule keeps_connection) (auto split: option.split)

lemma keeps_dialled: "keeps n (connect_dialled lib env p addr n)" "keeps n (reconnect_dialled lib env p mark addr b n)"
  using keeps_announce watch_changes(5) [of _ "en_remote env" "unmarkDialing addr n"] watch_changes(5) [of _ "en_remote env" n]
  by (auto simp: connect_dialled_def reconnect_dialled_def case_prod_beta Let_def split: outcome.split)

lemma keeps_control_read:
  assumes "control_read lib env p c s mark n = Some m"
  shows "keeps n m"
proof -
  obtain res n' where rd: "streamConn_Read 65536 \<lparr>sc_conn = c, sc_stream = s\<rparr> n = Some (res, n')"
    using assms by (cases "streamConn_Read 65536 \<lparr>sc_conn = c, sc_stream = s\<rparr> n") (auto simp: control_read_def)
  show ?thesis
    using assms rd watch_read [OF rd]
    by (cases res) (auto simp: control_read_def intro: keeps_connection_lost keeps_from [OF _ keeps_bind [OF keeps_dispatch]])
qed

text \<open>What follows when the peer at the other end is known.\<close>

lemma keeps_identified:
  assumes "watch n' = watch n"
  shows "keeps n (go_bind (add_direct env p c n') (\<lambda>n. handleControlMessages lib env' p c initial mark (spawn (StreamLoop p c) n)))"
    "keeps n (go_bind (add_direct env p c n') (\<lambda>n.
       handleControlMessages lib env' p c initial mark (spawn (StreamLoop p c) (registerPeerUDPAddr lib p addr n))))"
  by (auto intro!: keeps_bind [OF keeps_connection(1)] keeps_handleControl assms)

lemma keeps_incoming_read:
  assumes "incoming_read lib env c s n = Some m"
  shows "keeps n m"
proof -
  obtain res n' where rd: "streamConn_Read 65536 \<lparr>sc_conn = c, sc_stream = s\<rparr> n = Some (res, n')"
    using assms by (cases "streamConn_Read 65536 \<lparr>sc_conn = c, sc_stream = s\<rparr> n") (auto simp: incoming_read_def)
  show ?thesis
    using assms rd watch_read [OF rd]
    by (cases res) (auto simp: incoming_read_def intro!: keeps_pure keeps_identified)
qed

lemma keeps_tick: "keeps n (tick lib env k n)"
proof (cases k)
  case PushTick
  then show ?thesis by (auto intro!: keeps_pure keeps_engine_acts)
next
  case ProbeTick
  then show ?thesis
    by (auto simp: probe_tick_def Let_def case_prod_beta intro!: keeps_bind [OF keeps_engine_acts] split: option.split)
next
  case AdvertiseTick
  then show ?thesis by (auto simp: case_prod_beta intro!: keeps_prop_acts)
qed simp_all

lemma keeps_udp_datagram: "keeps n (udp_datagram clk order order' remote data n)"
  by (auto simp: udp_datagram_def intro: keeps_relay_incoming split: option.split)

text \<open>A goroutine outside the wait group.\<close>

lemma keeps_run:
  assumes "\<not> tracked t" and "run lib env t n = Some m"
  shows "keeps n m"
proof (cases t)
  case (Ticker k b)
  then show ?thesis
    using assms by (auto simp: ticker_loop_def intro!: keeps_bind keeps_tick split: if_splits)
next
  case (RelayStream p c s)
  then show ?thesis using assms by (auto simp: relay_stream_def split: option.splits prod.splits outcome.splits)
next
  case (IncomingConn c)
  then show ?thesis using assms by (auto simp: handleIncomingConn_def split: option.splits)
next
  case (StreamLoop p c)
  then show ?thesis using assms by (auto simp: handleIncomingStreams_def split: option.splits outcome.splits)
next
  case (ReconnectSleep p mark b d s)
  then show ?thesis using assms by (auto simp: reconnect_slept_def split: if_splits)
next
  case (ProbeTimer target s)
  then show ?thesis using assms by (auto simp: probe_timer_def Let_def split: if_splits)
qed (use assms in \<open>auto intro: keeps_dialled keeps_control_read keeps_incoming_read\<close>)

subsection \<open>The goroutines of the wait group\<close>

text \<open>What one of them goes on as, from one point where it waits to the next.\<close>

fun next_of :: "Node \<Rightarrow> task \<Rightarrow> task list set" where
  "next_of n AcceptLoop = {[], [AcceptLoop]}"
| "next_of n UdpReadLoop = {[], [UdpReadLoop]}"
| "next_of n (Ticker k made) = {[Ticker k True]} \<union> (if made \<and> n_cancelled n then {[]} else {})"
| "next_of n Bootstrap = {map BootstrapPeer (gs_BootstrapPeers (cfg_Gossip (n_cfg n)))}"
| "next_of n (BootstrapPeer addr) = {if n_cancelled n then [] else [BootstrapDial addr (1 * second)]}"
| "next_of n (BootstrapDial addr b) = range (\<lambda>(d, t). [BootstrapSleep addr b d t]) \<union> range (\<lambda>(c, s). [BootstrapRead addr c s b])"
| "next_of n (BootstrapSleep addr b d t) = {if n_cancelled n then [] else [BootstrapDial addr (next_backoff (30 * second) b)]}"
| "next_of n (BootstrapRead addr c s b) = {[]} \<union> range (\<lambda>(d, t). [BootstrapSleep addr b d t])"
| "next_of n t = {[]}"

text \<open>\<open>becomes t n ts n'\<close>: a run of \<open>t\<close> in \<open>n\<close> puts \<open>ts\<close> back.\<close>

definition becomes :: "task \<Rightarrow> Node \<Rightarrow> task list \<Rightarrow> Node \<Rightarrow> bool" where
  "becomes t n ts n' \<longleftrightarrow> wait_group n' = wait_group n @ ts \<and> n_cancelled n' = n_cancelled n \<and> n_cfg n' = n_cfg n \<and>
     (t \<noteq> AcceptLoop \<longrightarrow> n_ln n' = n_ln n)"

lemma becomes_watch: "watch n' = watch n \<Longrightarrow> becomes t n [] n'"
  by (simp add: becomes_def watch_def)

lemma becomes_spawn: "watch n' = watch n \<Longrightarrow> tracked t' \<Longrightarrow> becomes t n [t'] (spawn t' n')"
  by (simp add: becomes_def watch_def wait_group_spawn)

lemma becomes_bind: "go_bind m f = Return n' \<Longrightarrow> keeps n m \<Longrightarrow> \<exists>n1. watch n1 = watch n \<and> f n1 = Return n'"
  by (cases m) (auto simp: keeps_def)

lemma becomes_bootstrap:
  "becomes Bootstrap n (map BootstrapPeer (gs_BootstrapPeers (cfg_Gossip (n_cfg n)))) (bootstrap n)"
proof -
  have "becomes Bootstrap n (map BootstrapPeer as) (fold (\<lambda>addr n. spawn (BootstrapPeer addr) n) as n)" for as n
    by (induction as arbitrary: n) (auto simp: becomes_def wait_group_spawn)
  then show ?thesis by (simp add: bootstrap_def)
qed

lemma becomes_accept:
  assumes "acceptLoop env n = Some n'"
  shows "\<exists>ts\<in>{[], [AcceptLoop]}. becomes AcceptLoop n ts n'"
proof -
  obtain l res l' where l: "n_ln n = Some l" "Listener_Accept (en_pick env) l = Some (res, l')"
    using assms by (auto simp: acceptLoop_def split: option.splits)
  have "\<exists>m. watch m = watch (n\<lparr>n_ln := Some l'\<rparr>) \<and> (n' = m \<or> n' = spawn AcceptLoop m)"
  proof (cases res)
    case (Return k)
    let ?n = "snd (add_link k (en_remote env) (n\<lparr>n_ln := Some l'\<rparr>))"
    obtain m where "n' = spawn AcceptLoop m" "watch m = watch ?n"
      using assms l Return by (auto simp: acceptLoop_def Let_def case_prod_beta split: if_splits)
    then show ?thesis by (auto simp: add_link_def)
  qed (use assms l in \<open>auto simp: acceptLoop_def Let_def split: if_splits\<close>)
  moreover have "wait_group (n\<lparr>n_ln := Some l'\<rparr>) = wait_group n" by (simp add: wait_group_def)
  ultimately show ?thesis by (auto simp: becomes_def watch_def wait_group_spawn)
qed

lemma sleep_cancelled: "sleepWithContext cancelled pick d elapsed = Some False \<Longrightarrow> cancelled"
  by (auto simp: sleepWithContext_def split: if_splits)

lemma becomes_retry:
  "watch n' = watch n \<Longrightarrow> becomes t n [BootstrapSleep addr b (jitterDuration (en_rnd env) b) (en_clk env 0)] (bootstrap_retry env addr b n')"
  by (simp add: bootstrap_retry_def becomes_spawn)

lemma becomes_dialled:
  assumes "bootstrap_dialled env addr b n = Return n'"
  shows "(\<exists>d s. becomes t n [BootstrapSleep addr b d s] n') \<or> (\<exists>c s. becomes t n [BootstrapRead addr c s b] n')"
proof (cases "node_dial env addr")
  case (Return k)
  let ?c = "fst (add_link k (en_remote env) n)" and ?n = "snd (add_link k (en_remote env) n)"
  obtain s where s: "ControlStream (conn_at ?n ?c) = Some s"
    using assms Return by (auto simp: bootstrap_dialled_def case_prod_beta Let_def split: option.splits)
  then have "go_bind (logged (streamConn_Write (buildSelfGossipPush (en_peers env 0) ?n) \<lparr>sc_conn = ?c, sc_stream = s\<rparr> ?n))
      (\<lambda>n. Return (spawn (BootstrapRead addr ?c s b) n)) = Return n'"
    using assms Return by (simp add: bootstrap_dialled_def case_prod_beta Let_def)
  from becomes_bind [OF this keeps_logged, of n] obtain n1 where "watch n1 = watch n" "n' = spawn (BootstrapRead addr ?c s b) n1" by auto
  then have "becomes t n [BootstrapRead addr ?c s b] n'" by (simp add: becomes_spawn)
  then show ?thesis by blast
next
  case (Error e)
  then have "n' = bootstrap_retry env addr b n" using assms by (simp add: bootstrap_dialled_def)
  with becomes_retry [of n n t addr b env] show ?thesis by metis
qed (use assms in \<open>simp add: bootstrap_dialled_def\<close>)

lemma becomes_bootstrap_read:
  assumes "bootstrap_read lib env addr c s b n = Some (Return n')"
  shows "becomes t n [] n' \<or> (\<exists>d u. becomes t n [BootstrapSleep addr b d u] n')"
proof -
  obtain res n1 where rd: "streamConn_Read 65536 \<lparr>sc_conn = c, sc_stream = s\<rparr> n = Some (res, n1)"
    using assms by (cases "streamConn_Read 65536 \<lparr>sc_conn = c, sc_stream = s\<rparr> n") (auto simp: bootstrap_read_def)
  have retry: "\<exists>d u. becomes t n [BootstrapSleep addr b d u] (bootstrap_retry env addr b (close_conn c n1))"
    by (rule exI, rule exI, rule becomes_retry) (simp add: watch_read [OF rd])
  show ?thesis
  proof (cases res)
    case (Return data)
    then obtain p where p: "first_peer data = Return p" using assms rd by (cases "first_peer data") (simp_all add: bootstrap_read_def)
    consider "NodeID_IsZero p" | "\<not> NodeID_IsZero p" "live_conn p n1 \<noteq> None" | "\<not> NodeID_IsZero p" "live_conn p n1 = None" by blast
    then show ?thesis
    proof cases
      case 3
      then have "go_bind (add_direct env p c (store_conn p c n1)) (\<lambda>n. handleControlMessages lib (env_shift 2 env) p c (Some data) None
          (spawn (StreamLoop p c) (registerPeerUDPAddr lib p addr n))) = Return n'"
        using assms rd Return p by (simp add: bootstrap_read_def)
      with keeps_identified(2) [of "store_conn p c n1" n] watch_read [OF rd] have "watch n' = watch n" unfolding keeps_def by simp
      then show ?thesis by (simp add: becomes_watch)
    qed (use assms rd Return p retry watch_read [OF rd] in \<open>auto simp: bootstrap_read_def becomes_watch\<close>)
  qed (use assms rd retry in \<open>auto simp: bootstrap_read_def\<close>)
qed

lemma run_tracked:
  assumes "tracked t" and "run lib env t n = Some (Return n')"
  shows "\<exists>ts\<in>next_of n t. becomes t n ts n'"
proof (cases t)
  case AcceptLoop
  then show ?thesis using assms becomes_accept [of env n n'] by simp
next
  case Bootstrap
  then show ?thesis using assms becomes_bootstrap [of n] by simp
next
  case UdpReadLoop
  then show ?thesis
    using assms
    by (auto simp: udpReadLoop_def becomes_watch becomes_spawn split: option.splits if_splits
        dest!: becomes_bind [OF _ keeps_udp_datagram])
next
  case (Ticker k made)
  then show ?thesis
    using assms
    by (auto simp: ticker_loop_def becomes_watch becomes_spawn split: if_splits dest!: becomes_bind [OF _ keeps_tick])
next
  case (BootstrapPeer addr)
  then show ?thesis using assms by (auto simp: bootstrap_head_def becomes_watch becomes_spawn)
next
  case (BootstrapSleep addr b d s)
  then obtain slept where "sleepWithContext (n_cancelled n) (en_pick env) d (en_clk env 0 - s) = Some slept"
    "n' = (if slept then bootstrap_head addr (next_backoff (30 * second) b) n else n)"
    using assms by (auto simp: bootstrap_slept_def)
  with BootstrapSleep show ?thesis
    by (cases slept) (auto simp: bootstrap_head_def becomes_watch becomes_spawn dest: sleep_cancelled)
next
  case (BootstrapDial addr b)
  then show ?thesis using assms becomes_dialled [of env addr b n n' t] by (auto simp: bex_Un)
next
  case (BootstrapRead addr c s b)
  then show ?thesis using assms becomes_bootstrap_read [of lib env addr c s b n n' t] by auto
qed (use assms in simp_all)

text \<open>How many more steps a goroutine of the wait group can take in a stopped node at most, a timer or a datagram apart.\<close>

fun weight :: "Config \<Rightarrow> task \<Rightarrow> nat" where
  "weight cfg AcceptLoop = 1"
| "weight cfg UdpReadLoop = 1"
| "weight cfg (Ticker k made) = (if \<not> tracked (Ticker k made) then 0 else if made then 1 else 2)"
| "weight cfg Bootstrap = 1 + length (gs_BootstrapPeers (cfg_Gossip cfg))"
| "weight cfg (BootstrapPeer addr) = 1"
| "weight cfg (BootstrapDial addr b) = 3"
| "weight cfg (BootstrapSleep addr b d t) = 1"
| "weight cfg (BootstrapRead addr c s b) = 2"
| "weight cfg t = 0"

definition weights :: "Config \<Rightarrow> task list \<Rightarrow> nat" where
  "weights cfg ts = sum_list (map (weight cfg) ts)"

definition work_left :: "Node \<Rightarrow> nat" where
  "work_left n = weights (n_cfg n) (wait_group n)"

lemma weights_simps [simp]: "weights cfg [] = 0" "weights cfg (t # ts) = weight cfg t + weights cfg ts"
  "weights cfg (ts @ us) = weights cfg ts + weights cfg us"
  by (simp_all add: weights_def)

lemma weights_peers [simp]: "weights cfg (map BootstrapPeer as) = length as"
  by (induction as) simp_all

lemma weight_pos: "0 < weight cfg t \<longleftrightarrow> tracked t"
  by (cases t) auto

lemma wait_group_length: "length (wait_group n) \<le> work_left n"
proof -
  have "length ts \<le> weights cfg ts" if "list_all tracked ts" for ts cfg
    using that
  proof (induction ts)
    case (Cons t ts)
    then have "0 < weight cfg t" by (simp add: weight_pos)
    with Cons show ?case by simp
  qed simp
  then show ?thesis by (simp add: work_left_def wait_group_def list_all_iff)
qed

lemma work_left_0: "work_left n = 0 \<longleftrightarrow> wait_group n = []"
  using wait_group_length [of n] by (auto simp: work_left_def)

lemma weights_next: "ts \<in> next_of n t \<Longrightarrow> n_cancelled n \<Longrightarrow> weights (n_cfg n) ts \<le> weight (n_cfg n) t"
  by (cases t) (auto split: if_splits)

text \<open>A step of the node as the wait group sees it.\<close>

lemma node_step_group:
  assumes "node_step lib n n'"
  shows "n_cfg n' = n_cfg n \<and> (n_cancelled n \<longrightarrow> n_cancelled n') \<and>
    (wait_group n' = wait_group n \<or>
     (\<exists>as t bs. \<exists>ts\<in>next_of n t. wait_group n = as @ t # bs \<and> wait_group n' = as @ bs @ ts \<and> n_cancelled n' = n_cancelled n))"
  using assms
proof (induction rule: node_step.induct)
  case (runs i n env n')
  let ?t = "n_tasks n ! i" and ?n = "n\<lparr>n_tasks := without i (n_tasks n)\<rparr>"
  obtain as bs where split: "n_tasks n = as @ ?t # bs" "without i (n_tasks n) = as @ bs" using without_split [OF runs(1)] by blast
  have "next_of ?n ?t = next_of n ?t" by (cases ?t) simp_all
  moreover have group: "wait_group n = filter tracked as @ (if tracked ?t then [?t] else []) @ filter tracked bs"
    by (subst wait_group_def, subst split(1)) simp
  moreover have "wait_group ?n = filter tracked as @ filter tracked bs" by (simp add: wait_group_def split(2))
  ultimately show ?case
    using run_tracked [OF _ runs(3)] keeps_run [OF _ runs(3)] by (cases "tracked ?t") (fastforce simp: becomes_def watch_def)+
next
  case (stops n order)
  have "watch (fold (\<lambda>key n. case n_peerConns n key of None \<Rightarrow> n | Some c \<Rightarrow> close_conn c n) order m) = watch m" for m
    by (induction order arbitrary: m) (simp_all split: option.split)
  then show ?case by (simp add: Node_Stop_def watch_def wait_group_def)
next
  case (socks_tcp n p target)
  show ?case using watch_writes(4) [of p target n] by (simp add: watch_def)
next
  case (socks_datagram n clk dial_ok ev)
  show ?case using watch_steps(4) [of clk dial_ok ev n] by (simp add: watch_def)
qed (simp_all add: wait_group_def)

lemma work_left_step: "node_step lib n n' \<Longrightarrow> n_cancelled n \<Longrightarrow> n_cancelled n' \<and> work_left n' \<le> work_left n"
  using node_step_group [of lib n n'] weights_next [of _ n] by (fastforce simp: work_left_def)

lemma work_left_steps: "(node_step lib)\<^sup>*\<^sup>* n n' \<Longrightarrow> n_cancelled n \<Longrightarrow> n_cancelled n' \<and> work_left n' \<le> work_left n"
proof (induction rule: rtranclp_induct)
  case (step y z)
  then show ?case using work_left_step [of lib y z] by fastforce
qed simp

text \<open>There is one accept loop.\<close>

definition one_accept :: "Node \<Rightarrow> bool" where
  "one_accept n \<longleftrightarrow> count_list (wait_group n) AcceptLoop \<le> 1"

lemma count_next: "ts \<in> next_of n t \<Longrightarrow> count_list ts AcceptLoop \<le> (if t = AcceptLoop then 1 else 0)"
  by (cases t) (auto simp: count_list_0_iff split: if_splits)

lemma one_accept_step: "node_step lib n n' \<Longrightarrow> one_accept n \<Longrightarrow> one_accept n'"
  using node_step_group [of lib n n'] count_next [of _ n] unfolding one_accept_def by (fastforce split: if_splits)

subsection \<open>Winding down\<close>

text \<open>The routing table stays finite, so that its removals can visit all of it.\<close>

definition finite_table :: "Propagator \<Rightarrow> bool" where
  "finite_table p \<longleftrightarrow> finite (dom (rt_routes (p_table p)))"

lemma finite_AddRoute: "finite (dom (rt_routes rt)) \<Longrightarrow> finite (dom (rt_routes (snd (AddRoute now now' r rt))))"
  by (auto simp: AddRoute_def Let_def split: option.split)

lemma finite_sweep: "finite (dom m) \<Longrightarrow> finite (dom (fold (sweep_key keep) order m))"
  by (induction order arbitrary: m) (auto simp: sweep_key_def Let_def split: option.split)

lemma finite_advertise: "finite_table p \<Longrightarrow> finite_table (fst (advertise_nets clk i nets p))"
  by (induction nets arbitrary: i p) (simp_all add: Let_def case_prod_beta finite_table_def finite_AddRoute)

lemma finite_prop_step: "prop_step p p' \<Longrightarrow> finite_table p \<Longrightarrow> finite_table p'"
proof (induction rule: prop_step.induct)
  case (handles peers now now' "from" data p p' acts)
  then show ?case
    using finite_AddRoute [of "p_table p" now now']
    by (cases rule: HandleRouteUpdate_cases [of data peers now now' "from" p])
       (auto simp: finite_table_def RemoveRoute_def Let_def split: option.split, metis snd_conv)
next
  case (expires p order now ttl)
  then show ?case by (simp add: finite_table_def GC_eq range_order_def finite_sweep)
qed (simp_all add: AdvertiseDirectNetworks_def advertise_tick_def case_prod_beta Let_def finite_advertise [unfolded finite_table_def]
    WithdrawAllFromPeer_def RemoveAllFromOrigin_def finite_table_def finite_sweep)

definition orderly :: "Node \<Rightarrow> bool" where
  "orderly n \<longleftrightarrow> wf_Node [] n \<and> finite_table (n_prop n) \<and> one_accept n"

lemma orderly_step: "node_step lib n n' \<Longrightarrow> orderly n \<Longrightarrow> orderly n'"
proof -
  assume step: "node_step lib n n'" and n: "orderly n"
  have "finite_table p'" if "prop_step\<^sup>*\<^sup>* (n_prop n) p'" for p'
    using that n by (induction rule: rtranclp_induct) (auto simp: orderly_def finite_prop_step)
  moreover have "prop_step\<^sup>*\<^sup>* (n_prop n) (n_prop n')" using node_moves [of lib n n'] step n by (auto simp: orderly_def)
  ultimately show ?thesis using wf_node_step [OF step] one_accept_step [OF step] n by (simp add: orderly_def)
qed

text \<open>What a goroutine meets in a node that is stopped: a closed socket, no connections, no timers.\<close>

definition quiet :: "env \<Rightarrow> bool" where
  "quiet env \<longleftrightarrow> en_udp env = Some None \<and> \<not> en_fired env \<and> en_dial env = None"

lemma quiet_env: "orderly n \<Longrightarrow> \<exists>env. quiet env \<and> en_pick env = pick \<and> valid_env env n"
proof -
  assume "orderly n"
  then obtain keys sids where "range_order (rt_routes (p_table (n_prop n))) keys"
    "range_order (st_sessions (ur_sessions (n_udpRelay n))) sids"
    using finite_distinct_list [of "dom (rt_routes (p_table (n_prop n)))"]
      finite_distinct_list [of "dom (st_sessions (ur_sessions (n_udpRelay n)))"]
    by (auto simp: orderly_def finite_table_def range_order_def)
  then show ?thesis
    by (intro exI [of _ "sample_env\<lparr>en_clk := \<lambda>_. rl_last (n_acceptLimiter n), en_routes := \<lambda>_. keys, en_sessions := sids,
          en_udp := Some None, en_pick := pick\<rparr>"])
       (simp add: quiet_def valid_env_def sample_env_def)
qed

fun reading :: "task \<Rightarrow> bool" where
  "reading (BootstrapRead addr c s b) = True"
| "reading t = False"

lemma reading_iff: "reading t \<longleftrightarrow> (\<exists>addr c s b. t = BootstrapRead addr c s b)"
  by (cases t) auto

definition winding_down :: "library \<Rightarrow> Node \<Rightarrow> bool" where
  "winding_down lib n \<longleftrightarrow> orderly n \<and> n_cancelled n \<and> list_all (\<lambda>t. \<not> reading t) (wait_group n) \<and>
     0 < SessionGCInterval (lib_frac lib) (n_cfg n) \<and> 0 < RouteAdvertisementInterval (lib_frac lib) (n_cfg n)"

lemma quiet_run:
  assumes "tracked t" and "t \<noteq> AcceptLoop" and "\<not> reading t" and "n_cancelled n" and "quiet env" and "en_pick env"
    and "0 < SessionGCInterval (lib_frac lib) (n_cfg n)" and "0 < RouteAdvertisementInterval (lib_frac lib) (n_cfg n)"
  shows "\<exists>n' ts. run lib env t n = Some (Return n') \<and> becomes t n ts n' \<and> weights (n_cfg n) ts < weight (n_cfg n) t \<and>
    list_all (\<lambda>t. \<not> reading t) ts"
proof (cases t)
  case Bootstrap
  then show ?thesis
    using becomes_bootstrap [of n]
    by (intro exI [of _ "bootstrap n"] exI [of _ "map BootstrapPeer (gs_BootstrapPeers (cfg_Gossip (n_cfg n)))"]) (simp add: list_all_iff)
next
  case (BootstrapDial addr b)
  then have "run lib env t n = Some (Return (bootstrap_retry env addr b n))"
    using assms by (simp add: bootstrap_dialled_def node_dial_def Transport_Dial_def quiet_def)
  with becomes_retry [of n n t addr b env] BootstrapDial show ?thesis by fastforce
next
  case (Ticker k made)
  then show ?thesis
    using assms becomes_spawn [of n n "Ticker k True" t] becomes_watch [of n n t]
    by (auto simp: ticker_loop_def quiet_def second_def intro!: exI)
next
  case (BootstrapSleep addr b d s)
  then show ?thesis
    using assms becomes_watch [of n n t] by (auto simp: bootstrap_slept_def sleepWithContext_def quiet_def intro!: exI [of _ "[]"])
qed (use assms becomes_watch [of n n t] in \<open>auto simp: udpReadLoop_def bootstrap_head_def quiet_def intro!: exI [of _ "[]"]\<close>)

text \<open>A goroutine of the wait group is one of the tasks.\<close>

lemma group_task:
  assumes "t \<in> set (wait_group n)"
  obtains i as bs where "i < length (n_tasks n)" "n_tasks n ! i = t" "wait_group n = as @ t # bs"
    "wait_group (n\<lparr>n_tasks := without i (n_tasks n)\<rparr>) = as @ bs"
proof -
  from assms obtain i where i: "i < length (n_tasks n)" "n_tasks n ! i = t" "tracked t"
    by (auto simp: wait_group_def in_set_conv_nth)
  obtain as bs where split: "n_tasks n = as @ t # bs" "without i (n_tasks n) = as @ bs" using without_split [OF i(1)] i(2) by blast
  have "wait_group n = filter tracked as @ t # filter tracked bs" by (simp add: wait_group_def split(1) i(3))
  moreover have "wait_group (n\<lparr>n_tasks := without i (n_tasks n)\<rparr>) = filter tracked as @ filter tracked bs"
    by (simp add: wait_group_def split(2))
  ultimately show thesis by (rule that [OF i(1,2)])
qed

lemma group_step:
  assumes "t \<in> set (wait_group n)" and "valid_env env n"
    and "\<And>n1. n_cfg n1 = n_cfg n \<Longrightarrow> n_ln n1 = n_ln n \<Longrightarrow> n_cancelled n1 = n_cancelled n \<Longrightarrow>
      \<exists>n' ts. run lib env t n1 = Some (Return n') \<and> becomes t n1 ts n' \<and> P ts n'"
  shows "\<exists>n' as bs ts. node_step lib n n' \<and> wait_group n = as @ t # bs \<and> wait_group n' = as @ bs @ ts \<and> n_cfg n' = n_cfg n \<and>
    n_cancelled n' = n_cancelled n \<and> (t \<noteq> AcceptLoop \<longrightarrow> n_ln n' = n_ln n) \<and> P ts n'"
proof -
  obtain i as bs where i: "i < length (n_tasks n)" "n_tasks n ! i = t" "wait_group n = as @ t # bs"
    "wait_group (n\<lparr>n_tasks := without i (n_tasks n)\<rparr>) = as @ bs"
    by (rule group_task [OF assms(1)])
  obtain n' ts where run: "run lib env t (n\<lparr>n_tasks := without i (n_tasks n)\<rparr>) = Some (Return n')"
    and r: "becomes t (n\<lparr>n_tasks := without i (n_tasks n)\<rparr>) ts n'" "P ts n'"
    using assms(3) [of "n\<lparr>n_tasks := without i (n_tasks n)\<rparr>"] by auto
  have "node_step lib n n'" by (rule node_step.runs [OF i(1) assms(2)]) (simp add: i(2) run)
  then show ?thesis using r i(3,4) by (auto simp: becomes_def)
qed

text \<open>All but the accept loop end first.\<close>

lemma winding_down_step:
  assumes "winding_down lib n" and "t \<in> set (wait_group n)" and "t \<noteq> AcceptLoop"
  shows "\<exists>n'. node_step lib n n' \<and> winding_down lib n' \<and> work_left n' < work_left n \<and> n_ln n' = n_ln n"
proof -
  obtain env where env: "quiet env" "en_pick env" "valid_env env n" using quiet_env [of n True] assms(1) by (auto simp: winding_down_def)
  have t: "tracked t" "\<not> reading t" using assms(1,2) by (auto simp: winding_down_def list_all_iff wait_group_def)
  have "\<exists>n' as bs ts. node_step lib n n' \<and> wait_group n = as @ t # bs \<and> wait_group n' = as @ bs @ ts \<and> n_cfg n' = n_cfg n \<and>
      n_cancelled n' = n_cancelled n \<and> (t \<noteq> AcceptLoop \<longrightarrow> n_ln n' = n_ln n) \<and>
      (weights (n_cfg n) ts < weight (n_cfg n) t \<and> list_all (\<lambda>t. \<not> reading t) ts)"
    by (rule group_step [OF assms(2) env(3)])
       (use quiet_run [OF t(1) assms(3) t(2) _ env(1,2)] assms(1) in \<open>fastforce simp: winding_down_def\<close>)
  then obtain n' as bs ts where "node_step lib n n'" "wait_group n = as @ t # bs" "wait_group n' = as @ bs @ ts" "n_cfg n' = n_cfg n"
    "n_cancelled n' = n_cancelled n" "n_ln n' = n_ln n" "weights (n_cfg n) ts < weight (n_cfg n) t" "list_all (\<lambda>t. \<not> reading t) ts"
    using assms(3) by blast
  then show ?thesis using assms(1) orderly_step by (fastforce simp: winding_down_def work_left_def)
qed

lemma winding_down_drains:
  "winding_down lib n \<Longrightarrow> \<exists>n'. (node_step lib)\<^sup>*\<^sup>* n n' \<and> winding_down lib n' \<and> n_ln n' = n_ln n \<and> set (wait_group n') \<subseteq> {AcceptLoop}"
proof (induction "work_left n" arbitrary: n rule: less_induct)
  case less
  show ?case
  proof (cases "set (wait_group n) \<subseteq> {AcceptLoop}")
    case False
    then obtain t where "t \<in> set (wait_group n)" "t \<noteq> AcceptLoop" by auto
    from winding_down_step [OF less.prems this] less.hyps show ?thesis by (metis converse_rtranclp_into_rtranclp)
  qed (use less.prems in blast)
qed

text \<open>The accept loop ends with the error of the closed listener.\<close>

definition listens :: "Listener \<Rightarrow> bool" where
  "listens l \<longleftrightarrow> \<not> l_stopped l \<or> l_errCh l"

lemma accept_ends:
  assumes "orderly n" and "n_cancelled n" and "wait_group n = [AcceptLoop]" and "n_ln n = Some l" and "l_errCh l"
  shows "\<exists>n'. node_step lib n n' \<and> wait_group n' = []"
proof -
  obtain env where env: "\<not> en_pick env" "valid_env env n" using quiet_env [OF assms(1), of False] by auto
  have "\<exists>n' as bs ts. node_step lib n n' \<and> wait_group n = as @ AcceptLoop # bs \<and> wait_group n' = as @ bs @ ts \<and> n_cfg n' = n_cfg n \<and>
      n_cancelled n' = n_cancelled n \<and> (AcceptLoop \<noteq> AcceptLoop \<longrightarrow> n_ln n' = n_ln n) \<and> ts = []"
    by (rule group_step [OF _ env(2)])
       (use assms env in \<open>auto simp: acceptLoop_def Listener_Accept_def becomes_def wait_group_def\<close>)
  then show ?thesis using assms(3) by (auto simp: Cons_eq_append_conv)
qed

lemma accept_takes:
  assumes "orderly n" and "wait_group n = [AcceptLoop]" and "n_ln n = Some l" and "\<not> l_errCh l" and "l_connCh l \<noteq> []"
  shows "\<exists>n'. node_step lib n n' \<and> wait_group n' = [AcceptLoop] \<and> n_cancelled n' = n_cancelled n \<and>
    n_ln n' = Some (l\<lparr>l_connCh := tl (l_connCh l)\<rparr>)"
proof -
  let ?l = "l\<lparr>l_connCh := tl (l_connCh l)\<rparr>"
  obtain env where env: "valid_env env n" using quiet_env [OF assms(1)] by blast
  have "\<exists>n' ts. run lib env AcceptLoop n1 = Some (Return n') \<and> becomes AcceptLoop n1 ts n' \<and> (ts = [AcceptLoop] \<and> n_ln n' = Some ?l)"
    if "n_ln n1 = n_ln n" for n1
  proof -
    let ?add = "add_link (newConn (hd (l_connCh l))) (en_remote env) (n1\<lparr>n_ln := Some ?l\<rparr>)"
    let ?a = "allow (en_clk env 0) (n_acceptLimiter (snd ?add))"
    let ?n = "(snd ?add)\<lparr>n_acceptLimiter := snd ?a\<rparr>"
    let ?m = "if fst ?a then spawn (IncomingConn (fst ?add)) ?n else close_conn (fst ?add) ?n"
    have "Listener_Accept (en_pick env) l = Some (Return (newConn (hd (l_connCh l))), ?l)" "n_ln n1 = Some l"
      using that assms(3-5) by (simp_all add: Listener_Accept_def)
    then have "acceptLoop env n1 = Some (spawn AcceptLoop ?m)" by (simp add: acceptLoop_def Let_def case_prod_beta)
    moreover have "watch ?m = watch (snd ?add)" by simp
    ultimately obtain m where "acceptLoop env n1 = Some (spawn AcceptLoop m)" "watch m = watch (snd ?add)" by blast
    then show ?thesis
      by (intro exI [of _ "spawn AcceptLoop m"] exI [of _ "[AcceptLoop]"])
         (simp add: becomes_def watch_def wait_group_spawn, simp add: wait_group_def add_link_def)
  qed
  with group_step [of AcceptLoop n env lib "\<lambda>ts n'. ts = [AcceptLoop] \<and> n_ln n' = Some ?l"] env assms(2) show ?thesis
    by (auto simp: Cons_eq_append_conv)
qed

lemma listener_step:
  "n_ln n = Some l \<Longrightarrow> accept_step l l' \<Longrightarrow> node_step lib n (n\<lparr>n_ln := Some l'\<rparr>)" "wait_group (n\<lparr>n_ln := Some l'\<rparr>) = wait_group n"
  by (simp_all add: node_step.listening wait_group_def)

lemma accept_drains:
  assumes "orderly n" and "n_cancelled n" and "wait_group n = [AcceptLoop]" and "n_ln n = Some l" and "listens l"
  shows "\<exists>n'. (node_step lib)\<^sup>*\<^sup>* n n' \<and> wait_group n' = []"
  using assms
proof (induction "length (l_connCh l)" arbitrary: n l rule: less_induct)
  case less
  have fails: "\<exists>n'. (node_step lib)\<^sup>*\<^sup>* m n' \<and> wait_group n' = []"
    if "(node_step lib)\<^sup>*\<^sup>* n m" "orderly m" "n_cancelled m" "wait_group m = [AcceptLoop]" "n_ln m = Some k" "listens k" "l_held k = None" for m k
  proof (cases "l_errCh k")
    case True
    then show ?thesis using accept_ends [OF that(2-5)] by blast
  next
    case False
    then have step: "node_step lib m (m\<lparr>n_ln := Some (k\<lparr>l_errCh := True, l_stopped := True\<rparr>)\<rparr>)"
      by (intro listener_step(1) [OF that(5)] accept_step.accept_failed) (use that(6,7) False in \<open>auto simp: listens_def\<close>)
    from accept_ends [of "m\<lparr>n_ln := Some (k\<lparr>l_errCh := True, l_stopped := True\<rparr>)\<rparr>" _ lib] orderly_step [OF step that(2)] that
    show ?thesis using step by (auto simp: listener_step(2) intro: converse_rtranclp_into_rtranclp)
  qed
  consider "l_errCh l \<or> l_held l = None" | raw where "\<not> l_errCh l" "l_held l = Some raw" "length (l_connCh l) < 8"
    | "\<not> l_errCh l" "8 \<le> length (l_connCh l)" by force
  then show ?case
  proof cases
    case 1
    then show ?thesis using fails [of n l] accept_ends [of n l lib] less.prems by blast
  next
    case 2
    let ?k = "l\<lparr>l_connCh := l_connCh l @ [raw], l_held := None\<rparr>"
    have step: "node_step lib n (n\<lparr>n_ln := Some ?k\<rparr>)"
      by (rule listener_step(1) [OF less.prems(4) accept_step.passed_on [OF 2(2,3)]])
    from fails [of "n\<lparr>n_ln := Some ?k\<rparr>" ?k] step orderly_step [OF step less.prems(1)] less.prems show ?thesis
      by (auto simp: listener_step(2) listens_def intro: converse_rtranclp_into_rtranclp)
  next
    case 3
    then have "l_connCh l \<noteq> []" by auto
    from accept_takes [OF less.prems(1,3,4) 3(1) this, of lib] obtain n' where n': "node_step lib n n'" "wait_group n' = [AcceptLoop]"
      "n_cancelled n' = n_cancelled n" "n_ln n' = Some (l\<lparr>l_connCh := tl (l_connCh l)\<rparr>)" by blast
    with less.hyps [of "l\<lparr>l_connCh := tl (l_connCh l)\<rparr>" n'] \<open>l_connCh l \<noteq> []\<close> orderly_step [OF n'(1) less.prems(1)] less.prems
    show ?thesis by (auto simp: listens_def intro: converse_rtranclp_into_rtranclp)
  qed
qed

lemma winding_down_ends:
  assumes "winding_down lib n" and "n_ln n = Some l" and "listens l"
  shows "\<exists>n'. (node_step lib)\<^sup>*\<^sup>* n n' \<and> wait_group n' = []"
proof -
  obtain m where m: "(node_step lib)\<^sup>*\<^sup>* n m" "winding_down lib m" "n_ln m = n_ln n" "set (wait_group m) \<subseteq> {AcceptLoop}"
    using winding_down_drains [OF assms(1)] by blast
  have "count_list (wait_group m) AcceptLoop \<le> 1" using m(2) by (simp add: winding_down_def orderly_def one_accept_def)
  with m(4) have "wait_group m = [] \<or> wait_group m = [AcceptLoop]"
    by (cases "wait_group m"; cases "tl (wait_group m)") auto
  then show ?thesis
    using accept_drains [of m l lib] m assms(2,3) by (auto simp: winding_down_def intro: rtranclp_trans)
qed

subsection \<open>The main program\<close>

lemma orderly_start:
  assumes "Node_New lib now rng (fst (LoadOrCreate derive sha256 file random write_ok)) cfg = Return n"
    and "length (nc_ListenAddr (cfg_Node cfg)) < 256"
  shows "orderly (snd (Node_Start lib se n)) \<and> n_cfg n = cfg"
proof -
  have new: "rt_routes (p_table (n_prop n)) = Map.empty" "n_tasks n = []" "n_cfg n = cfg"
    using assms(1) by (auto simp: Node_New_def wireCallbacks_def Let_def SetPeersFunc_def SetBroadcaster_def SetSender_def
        NewPropagator_def SetDirectNetworks_def NewRoutingTable_def split: outcome.splits sum.splits)
  have "wf_Node [] (snd (Node_Start lib se n))" using ok_Node_Start [OF conjunct1 [OF wf_Node_New [OF assms]]] by (simp add: ok_def)
  moreover have "finite_table (n_prop (snd (Node_Start lib se n)))"
    using new core_parts [of "snd (Node_Start lib se n)" n] by (simp add: finite_table_def)
  moreover have "one_accept (snd (Node_Start lib se n))"
    using new by (simp add: one_accept_def wait_group_def Node_Start_def Let_def spawn_def split: outcome.split)
  ultimately show ?thesis using new by (simp add: orderly_def)
qed

lemma Node_Start_cfg: "n_cfg (snd (Node_Start lib se n)) = n_cfg n"
  by (simp add: Node_Start_def Let_def split: outcome.split)

lemma main_start_orderly:
  assumes "main_start lib unmarshal readFile (\<lambda>name. fst (LoadOrCreate derive sha256 (disk name) random write_ok)) now rng se args = Inr n"
    and "length (nc_ListenAddr (cfg_Node (n_cfg n))) < 256"
  shows "orderly n"
proof -
  obtain fl rest cfg n0 where "main_config (lib_frac lib) unmarshal readFile fl = Inr cfg"
    and n0: "Node_New lib now rng (fst (LoadOrCreate derive sha256 (disk (nc_IdentityFile (cfg_Node cfg))) random write_ok)) cfg = Return n0"
    and n: "n = snd (Node_Start lib se n0)"
    using assms(1) by (auto simp: main_start_def node_main_def split: sum.splits flag_error.splits prod.splits outcome.splits)
  have "n_cfg n0 = cfg" using n0 by (auto simp: Node_New_def wireCallbacks_def Let_def split: outcome.splits sum.splits)
  then show ?thesis using orderly_start [OF n0, of se] assms(2) n Node_Start_cfg [of lib se n0] by simp
qed

lemma Node_Stop_cancelled: "n_cancelled (Node_Stop order n)"
proof -
  have "n_cancelled (fold (\<lambda>key n. case n_peerConns n key of None \<Rightarrow> n | Some c \<Rightarrow> close_conn c n) order m) = n_cancelled m" for m
    by (induction order arbitrary: m) (simp_all add: close_conn_def set_conn_def split: option.split)
  then show ?thesis by (simp add: Node_Stop_def)
qed

lemma main_steps:
  "(main_step lib)\<^sup>*\<^sup>* (ph, n) (ph', n') \<Longrightarrow> (node_step lib)\<^sup>*\<^sup>* n n' \<and>
     ((ph = Serving \<or> n_cancelled n) \<longrightarrow> ph' = Serving \<or> n_cancelled n')"
proof (induction rule: rtranclp_induct2)
  case (step ph1 n1 ph2 n2)
  from step(2) show ?case
  proof cases
    case (signalled order now)
    then show ?thesis
      using step(3) node_step.stops [of lib n1 order] Node_Stop_cancelled by (auto intro: rtranclp.rtrancl_into_rtrancl)
  qed (use step(3) work_left_step [of lib n1 n2] in \<open>auto intro: rtranclp.rtrancl_into_rtrancl\<close>)
qed simp

lemma main_winds_down: "(node_step lib)\<^sup>*\<^sup>* n n' \<Longrightarrow> (main_step lib)\<^sup>*\<^sup>* (Stopping t, n) (Stopping t, n')"
proof (induction rule: rtranclp_induct)
  case (step y z)
  then show ?case using main_step.winds_down by (auto intro: rtranclp.rtrancl_into_rtrancl)
qed simp

lemma node_steps_cfg: "(node_step lib)\<^sup>*\<^sup>* n n' \<Longrightarrow> n_cfg n' = n_cfg n"
  by (induction rule: rtranclp_induct) (auto dest: node_step_group)

lemma orderly_steps: "(node_step lib)\<^sup>*\<^sup>* n n' \<Longrightarrow> orderly n \<Longrightarrow> orderly n'"
  by (induction rule: rtranclp_induct) (auto dest: orderly_step)

subsection \<open>What holds a shutdown up\<close>

text \<open>
  A listener that has failed while the node ran: the error has been logged, and its goroutine has ended.
  The accept loop goes on waiting for a connection or an error, and neither ever comes.
\<close>

definition deaf :: "Listener \<Rightarrow> bool" where
  "deaf l \<longleftrightarrow> l_stopped l \<and> \<not> l_errCh l \<and> l_connCh l = [] \<and> l_held l = None"

lemma deaf_step:
  assumes "node_step lib n n'" and "n_ln n = Some l" and "deaf l" and "AcceptLoop \<in> set (wait_group n)"
  shows "n_ln n' = Some l \<and> AcceptLoop \<in> set (wait_group n')"
  using assms
proof (induction rule: node_step.induct)
  case (runs i n env n')
  let ?t = "n_tasks n ! i" and ?n = "n\<lparr>n_tasks := without i (n_tasks n)\<rparr>"
  have t: "?t \<noteq> AcceptLoop" using runs(3-5) by (auto simp: acceptLoop_def Listener_Accept_def deaf_def)
  obtain as bs where split: "n_tasks n = as @ ?t # bs" "without i (n_tasks n) = as @ bs" using without_split [OF runs(1)] by blast
  have "AcceptLoop \<in> set (n_tasks n)" using runs(6) by (simp add: wait_group_def)
  then have "AcceptLoop \<in> set (as @ bs)" using t by (subst (asm) split(1)) auto
  then have stays: "AcceptLoop \<in> set (wait_group ?n)" by (auto simp: wait_group_def split(2))
  show ?case
    using run_tracked [OF _ runs(3)] keeps_run [OF _ runs(3)] t stays runs(4)
    by (cases "tracked ?t") (auto simp: becomes_def watch_def)
next
  case (listening n l1 l2)
  from listening(2) have False using listening(1,3,4) by cases (auto simp: deaf_def)
  then show ?case ..
next
  case (stops n order)
  have "watch (fold (\<lambda>key n. case n_peerConns n key of None \<Rightarrow> n | Some c \<Rightarrow> close_conn c n) order m) = watch m" for m
    by (induction order arbitrary: m) (simp_all split: option.split)
  then show ?case using stops by (simp add: Node_Stop_def watch_def wait_group_def)
next
  case (socks_tcp n p target)
  then show ?case using watch_writes(4) [of p target n] by (simp add: watch_def)
next
  case (socks_datagram n clk dial_ok ev)
  then show ?case using watch_steps(4) [of clk dial_ok ev n] by (simp add: watch_def)
qed (simp_all add: wait_group_def)

text \<open>So \<open>Stop\<close> waits its five seconds in full.\<close>

lemma deaf_listener_times_out:
  assumes "n_ln n = Some l" and "deaf l" and "AcceptLoop \<in> set (wait_group n)"
    and "(main_step lib)\<^sup>*\<^sup>* (ph, n) (Ended r, n')" and "ph \<noteq> Ended r"
  shows "r = ShutdownTimedOut"
proof -
  have stays: "n_ln m' = Some l \<and> AcceptLoop \<in> set (wait_group m')" if "(node_step lib)\<^sup>*\<^sup>* n m'" for m'
    using that assms(1,3) by (induction rule: rtranclp_induct) (auto dest: deaf_step [OF _ _ assms(2)])
  obtain ph1 n1 where "(main_step lib)\<^sup>*\<^sup>* (ph, n) (ph1, n1)" and last: "main_step lib (ph1, n1) (Ended r, n')"
    using assms(4,5) by (cases rule: rtranclp.cases) auto
  then have "AcceptLoop \<in> set (wait_group n1)" using stays main_steps by blast
  then have "wait_group n1 \<noteq> []" by auto
  from last this show ?thesis by cases (auto simp: stop_wait_def split: if_splits)
qed

text \<open>
  The connection on which a bootstrapping goroutine waits for the first message is in no map, so \<open>Stop\<close>
  does not close it, and the goroutine goes on waiting.
\<close>

lemma bootstrap_read_waits:
  assumes "\<forall>key. n_peerConns n key \<noteq> Some c" and "Stream_Read 65536 (c_objs (conn_at n c) ! s) = None"
  shows "bootstrap_read lib env addr c s b (Node_Stop order n) = None"
proof -
  let ?close = "\<lambda>key n. case n_peerConns n key of None \<Rightarrow> n | Some c \<Rightarrow> close_conn c n"
  have "conn_at (fold ?close order m) c = conn_at m c" if "n_peerConns m = n_peerConns n" for m
    using that
  proof (induction order arbitrary: m)
    case (Cons key order)
    have other: "conn_at (close_conn k m) c = conn_at m c" if "k \<noteq> c" for k
      using that by (simp add: close_conn_def set_conn_def conn_at_def)
    have "n_peerConns (?close key m) = n_peerConns n" using Cons.prems by (auto simp: close_conn_def set_conn_def split: option.split)
    moreover have "conn_at (?close key m) c = conn_at m c" using Cons.prems assms(1) by (auto intro: other split: option.split)
    ultimately show ?case using Cons.IH [of "?close key m"] by simp
  qed simp
  then have "conn_at (Node_Stop order n) c = conn_at n c" by (simp add: Node_Stop_def conn_at_def)
  then show ?thesis using assms(2) by (simp add: bootstrap_read_def streamConn_Read_def)
qed

subsection \<open>Properties\<close>



end
