(* ===== verification/Socks5_Associate.thy ===== *)
theory Socks5_Associate
  imports Socks5_Server
begin

text \<open>
  The life of a UDP association, \<open>handleUDPAssociate\<close> of socks5/udp.go: a loop that reads datagrams
  from the local socket, and a goroutine that waits on the client's TCP connection and closes the
  socket as soon as anything can be read there, data, the end or an error. The log holds
  what the datagrams led to, each with the client it came from.

  Shown: over the whole life of an association, two datagrams that are forwarded to a peer carry
  the same session identifier exactly when they belong to the same client and target; and once the
  TCP connection has anything to read, the association is over.
\<close>

subsection \<open>State and steps\<close>

record association =
  as_ua :: udpAssociate
  as_open :: bool
  as_quit :: bool
  as_running :: bool
  as_log :: "(UDPAddr \<times> udp_event) list"

text \<open>\<open>bound\<close> is the address of the local socket, if it could be made.\<close>

definition handleUDPAssociate :: "UDPAddr option \<Rightarrow> bytes \<times> association" where
  "handleUDPAssociate bound =
     (associate_reply bound,
      \<lparr>as_ua = new_associate, as_open = (bound \<noteq> None), as_quit = False, as_running = (bound \<noteq> None), as_log = []\<rparr>)"

text \<open>
  One round of the loop; a datagram is cut to the size of the buffer. A read fails when the socket is
  closed or for any other reason, and then the loop returns.
\<close>

inductive associate_step :: "Server \<Rightarrow> association \<Rightarrow> association \<Rightarrow> bool" for s where
  datagram: "associate_step s a (a\<lparr>as_ua := ua', as_log := as_log a @ map (Pair client) evs\<rparr>)"
    if "as_running a" "as_open a" "range_order (ua_sessions (as_ua a)) order"
      "receive_datagram env clk order s client (take 65536 data) (as_ua a) = Some (Return (ua', evs))"
| read_fails: "associate_step s a (a\<lparr>as_running := False, as_open := False\<rparr>)"
    if "as_running a"
| tcp_readable: "associate_step s a (a\<lparr>as_quit := True, as_open := False\<rparr>)"
    if "\<not> as_quit a"

subsection \<open>Invariant\<close>

definition logged_session :: "udpAssociate \<Rightarrow> UDPAddr \<times> udp_event \<Rightarrow> bool" where
  "logged_session ua e \<longleftrightarrow> (\<forall>c hop sid t payload. e = (c, UDPForward hop sid t payload) \<longrightarrow>
     (\<exists>se. ua_sessions ua sid = Some se \<and> same_flow c t se))"

definition wf_association :: "association \<Rightarrow> bool" where
  "wf_association a \<longleftrightarrow> wf_associate (as_ua a) \<and> list_all (logged_session (as_ua a)) (as_log a) \<and>
     (as_quit a \<or> \<not> as_running a \<longrightarrow> \<not> as_open a)"

lemma receive_datagram_flow:
  assumes "receive_datagram env clk order s client data ua = Some (Return (ua', evs))"
    and "range_order (ua_sessions ua) order" and "wf_associate ua"
  shows "wf_associate ua' \<and> ua_sessions ua \<subseteq>\<^sub>m ua_sessions ua' \<and> list_all (logged_session ua') (map (Pair client) evs)"
proof -
  let ?ua = "ua\<lparr>ua_clientAddr := Some client\<rparr>"
  have ua: "wf_associate ?ua" "range_order (ua_sessions ?ua) order" "ua_sessions ?ua = ua_sessions ua"
    using assms(2,3) by (simp_all add: wf_associate_def)
  consider (same) "ua' = ?ua" "\<forall>e\<in>set evs. \<forall>hop sid t payload. e \<noteq> UDPForward hop sid t payload"
    | (forward) hop sid t payload where "getSessionID clk order client t ?ua = Some (sid, ua')" "evs = [UDPForward hop sid t payload]"
    using assms(1)
    by (auto simp: receive_datagram_def handleUDPDatagram_def Let_def split: outcome.splits option.splits prod.splits if_splits)
  then show ?thesis
  proof cases
    case same
    then show ?thesis using ua by (auto simp: logged_session_def list_all_iff)
  next
    case forward
    from wf_associate_getSessionID [OF ua(2) forward(1) ua(1)] forward(2) ua(3) show ?thesis
      by (auto simp: logged_session_def)
  qed
qed

lemma logged_sessionD:
  "list_all (logged_session ua) log \<Longrightarrow> (c, UDPForward hop sid t payload) \<in> set log \<Longrightarrow>
     \<exists>se. ua_sessions ua sid = Some se \<and> same_flow c t se"
  unfolding list_all_iff logged_session_def by blast

lemma logged_session_mono: "ua_sessions ua \<subseteq>\<^sub>m ua_sessions ua' \<Longrightarrow> logged_session ua e \<Longrightarrow> logged_session ua' e"
  unfolding logged_session_def map_le_def by (metis domI)

interpretation association: invariant "associate_step s" "\<lambda>a. \<exists>bound. a = snd (handleUDPAssociate bound)" wf_association for s
proof unfold_locales
  show "wf_association a" if "\<exists>bound. a = snd (handleUDPAssociate bound)" for a
    using that by (auto simp: handleUDPAssociate_def wf_association_def wf_associate_def new_associate_def)
  show "wf_association a'" if "associate_step s a a'" "wf_association a" for a a'
    using that
  proof cases
    case (datagram order env clk client data ua' evs)
    from receive_datagram_flow [OF datagram(5,4)] that(2) datagram(1-3) show ?thesis
      by (auto simp: wf_association_def list_all_iff intro: logged_session_mono)
  qed (auto simp: wf_association_def)
qed

subsection \<open>Properties\<close>

text \<open>
  C19: Flows over the whole life of an association. However datagrams of different clients to
  different targets follow each other, any two of them that were forwarded to peers carry non-zero
  session identifiers, and these are equal exactly when both client and both target addresses are
  the same in their text form.
\<close>

theorem association_flows:
  assumes "(associate_step s)\<^sup>*\<^sup>* (snd (handleUDPAssociate bound)) a"
    and "(c, UDPForward hop sid t payload) \<in> set (as_log a)" and "(c', UDPForward hop' sid' t' payload') \<in> set (as_log a)"
  shows "sid \<noteq> 0 \<and> (sid = sid' \<longleftrightarrow> UDPAddr_String c = UDPAddr_String c' \<and> UDPAddr_String t = UDPAddr_String t')"
proof -
  have inv: "wf_associate (as_ua a)" "list_all (logged_session (as_ua a)) (as_log a)"
    using association.reachable_inv [OF _ assms(1)] by (auto simp: wf_association_def)
  obtain se where se: "ua_sessions (as_ua a) sid = Some se" "same_flow c t se"
    using logged_sessionD [OF inv(2) assms(2)] by blast
  obtain se' where se': "ua_sessions (as_ua a) sid' = Some se'" "same_flow c' t' se'"
    using logged_sessionD [OF inv(2) assms(3)] by blast
  have "sid \<noteq> 0" using inv(1) se(1) by (simp add: wf_associate_def)
  moreover have "sid = sid'" if "UDPAddr_String c = UDPAddr_String c'" "UDPAddr_String t = UDPAddr_String t'"
  proof -
    have "same_flow (uc_clientAddr se) (uc_targetAddr se) se'" using se(2) se'(2) that by (simp add: same_flow_def)
    with inv(1) se(1) se'(1) show ?thesis unfolding wf_associate_def by blast
  qed
  ultimately show ?thesis using se se' by (auto simp: same_flow_def)
qed

text \<open>A client of a server whose node reaches 10.1.0.0/16 through a peer sends two datagrams there.\<close>

definition associate_env :: socks_env where
  "associate_env = \<lparr>se_order = example_keys, se_routes = example_table, se_LookupIP = (\<lambda>_. None),
     se_dialTCP = (\<lambda>_. False), se_dialPeer = (\<lambda>_ _. False)\<rparr>"

definition example_datagram :: bytes where
  "example_datagram = udp_packet (IPv4Target [10, 1, 2, 3]) 53 [1, 2]"

definition example_flow_target :: UDPAddr where
  "example_flow_target = \<lparr>addr_IP = IPv4 10 1 2 3, addr_Port = 53\<rparr>"

lemma example_datagram_forwarded:
  "receive_datagram associate_env (\<lambda>k. int k) [] example_server (fst example_flow) (take 65536 example_datagram) new_associate =
     Some (Return (new_associate\<lparr>ua_clientAddr := Some (fst example_flow),
       ua_sessions := [1 \<mapsto> \<lparr>uc_sessionID = 1, uc_clientAddr = fst example_flow, uc_targetAddr = example_flow_target\<rparr>]\<rparr>,
       [UDPForward (replicate 16 2) 1 example_flow_target [1, 2]]))"
proof -
  have "length example_datagram = 12" by code_simp
  then have "take 65536 example_datagram = example_datagram" by simp
  moreover have "parse_datagram example_datagram = Return (IP_String [10, 1, 2, 3], 53, [1, 2])" by code_simp
  moreover have "resolve associate_env (IP_String [10, 1, 2, 3]) = Some (IPv4 10 1 2 3)" by code_simp
  moreover have "map_option r_NextHop (Lookup (se_order associate_env) (se_routes associate_env) (IPv4 10 1 2 3)) = Some (replicate 16 2)"
    by code_simp
  moreover have "\<not> NodeID_IsZero (replicate 16 2)" "sv_udpForwardFunc example_server" by code_simp+
  moreover have "fresh_id (\<lambda>k. int k) 0 (Map.empty :: uint32 \<rightharpoonup> udpClientSession) = Some 1"
    by (subst fresh_id.simps, subst fresh_id.simps) (simp add: Let_def)
  ultimately show ?thesis
    by (auto simp: receive_datagram_def handleUDPDatagram_def getSessionID_def List.map_filter_def new_associate_def
        example_flow_target_def Let_def)
qed

theorem association_flows_witness:
  "\<exists>a. (associate_step example_server)\<^sup>*\<^sup>* (snd (handleUDPAssociate (Some (fst example_flow)))) a \<and>
     as_log a = [(fst example_flow, UDPForward (replicate 16 2) 1 example_flow_target [1, 2])] \<and> (1 :: uint32) \<noteq> 0"
proof -
  let ?a = "snd (handleUDPAssociate (Some (fst example_flow)))"
  have a: "as_ua ?a = new_associate" "as_running ?a" "as_open ?a" "as_log ?a = []" by (simp_all add: handleUDPAssociate_def)
  have "range_order (ua_sessions (as_ua ?a)) []" by (simp add: a new_associate_def range_order_def)
  note step = associate_step.datagram [OF a(2,3) this, unfolded a, OF example_datagram_forwarded]
  from step have steps: "(associate_step example_server)\<^sup>*\<^sup>* ?a
      (?a\<lparr>as_ua := new_associate\<lparr>ua_clientAddr := Some (fst example_flow),
        ua_sessions := [1 \<mapsto> \<lparr>uc_sessionID = 1, uc_clientAddr = fst example_flow, uc_targetAddr = example_flow_target\<rparr>]\<rparr>,
        as_log := [] @ map (Pair (fst example_flow)) [UDPForward (replicate 16 2) 1 example_flow_target [1, 2]]\<rparr>)"
    by (rule r_into_rtranclp)
  from association_flows [OF this] steps show ?thesis by fastforce
qed

text \<open>
  Once the client's TCP connection has anything to read, even a single byte, the association does
  nothing any more: nothing is added to the log, and the loop can only return.
\<close>

theorem association_over:
  assumes "(associate_step s)\<^sup>*\<^sup>* (snd (handleUDPAssociate bound)) a" and "as_quit a" and "(associate_step s)\<^sup>*\<^sup>* a a'"
  shows "as_log a' = as_log a \<and> (as_running a' \<longrightarrow> (\<forall>a''. associate_step s a' a'' \<longrightarrow> \<not> as_running a''))"
proof -
  have inv: "wf_association a" using association.reachable_inv [OF _ assms(1)] by blast
  have inv': "wf_association a' \<and> as_quit a' \<and> as_log a' = as_log a"
    using assms(3)
  proof (induction rule: rtranclp_induct)
    case (step b c)
    have "wf_association c" using association.step_inv [OF step.hyps(2)] step.IH by blast
    moreover have "as_quit c \<and> as_log c = as_log b"
      using step.hyps(2) step.IH by cases (auto simp: wf_association_def)
    ultimately show ?case using step.IH by simp
  qed (use inv assms(2) in simp)
  moreover have "\<not> as_running a''" if "associate_step s a' a''" for a''
    using that inv' by cases (auto simp: wf_association_def)
  ultimately show ?thesis by blast
qed

end
