(* ===== verification/Health_Server.thy ===== *)
theory Health_Server
  imports Node_Safe
begin

text \<open>
  The HTTP server of obs/health.go around the two handlers: its construction, start, shutdown and
  the dispatch of a request by the path. A request path is taken to be in the cleaned form that
  the standard library's multiplexer redirects every other path to.

  Shown: a server answers exactly between its start and its stop; and whatever happens to a node,
  the health endpoint never reports it unhealthy, because nothing ever clears the flag it looks at.
\<close>

subsection \<open>Server\<close>

text \<open>\<open>hs_serving\<close>: the goroutine that serves the listener runs; \<open>hs_shut\<close>: the server was shut down, after which
  \<open>Serve\<close> returns at once.\<close>

record HealthServer =
  hs_Addr :: string
  hs_serving :: bool
  hs_shut :: bool

definition NewHealthServer :: "string \<Rightarrow> HealthServer" where
  "NewHealthServer addr = \<lparr>hs_Addr = addr, hs_serving = False, hs_shut = False\<rparr>"

text \<open>\<open>listen\<close> tells on which addresses the listener can be made.\<close>

definition HealthServer_Start :: "(string \<Rightarrow> bool) \<Rightarrow> HealthServer \<Rightarrow> (unit, unit) outcome \<times> HealthServer" where
  "HealthServer_Start listen hs =
     (if \<not> listen (hs_Addr hs) then (Error (), hs)
      else (Return (), hs\<lparr>hs_serving := hs_serving hs \<or> \<not> hs_shut hs\<rparr>))"

definition HealthServer_Stop :: "HealthServer \<Rightarrow> HealthServer" where
  "HealthServer_Stop hs = hs\<lparr>hs_serving := False, hs_shut := True\<rparr>"

definition health_mux :: "go_time \<Rightarrow> Stats \<Rightarrow> string \<Rightarrow> nat \<times> health_field list" where
  "health_mux now stats path =
     (if path = ''/health'' then handleHealth now stats
      else if path = ''/metrics'' then handleMetrics now stats
      else (404, []))"

definition serve_http :: "go_time \<Rightarrow> Stats \<Rightarrow> string \<Rightarrow> HealthServer \<Rightarrow> (nat \<times> health_field list) option" where
  "serve_http now stats path hs = (if hs_serving hs then Some (health_mux now stats path) else None)"

subsection \<open>Lemmas\<close>

text \<open>A server answers between its start and its stop, and a stopped one cannot be started again.\<close>

lemma health_server_life:
  assumes "HealthServer_Start listen (NewHealthServer addr) = (r, hs)"
  shows "serve_http now stats path (NewHealthServer addr) = None"
    and "serve_http now stats path hs = (if listen addr then Some (health_mux now stats path) else None)"
    and "serve_http now stats path (snd (HealthServer_Start listen (HealthServer_Stop hs))) = None"
  using assms by (auto simp: HealthServer_Start_def HealthServer_Stop_def NewHealthServer_def serve_http_def split: if_splits)

text \<open>In every state that a node can reach the endpoint says that the node is healthy: without a peer,
  with all its connections lost, and after its goroutines were told to stop.\<close>

theorem always_healthy:
  assumes "started lib n0" and "(node_step lib)\<^sup>*\<^sup>* n0 n"
    and "serve_http now (n_stats n) ''/health'' hs = Some reply"
  shows "reply = (200, [Status ''healthy'', Uptime (now - stat_Uptime (n_stats n))])"
proof -
  have "stat_Connected (n_stats n)" using running.reachable_inv [OF assms(1,2)] by (simp add: wf_Node_def wf_parts_def)
  then show ?thesis using assms(3) by (auto simp: serve_http_def health_mux_def handleHealth_def split: if_splits)
qed

end
