(* ===== verification/Transport_TLS.thy ===== *)
theory Transport_TLS
  imports Transport_Listener
begin

text \<open>
  The TLS configuration of transport/tls.go and what it means for a connection between two nodes.
  Key generation, the encoding of certificates and keys and the loading of a key pair are the
  standard library's cryptography and are arguments, \<open>tls_library\<close>; \<open>tls_library_ok\<close> collects what
  their documentation promises: a key pair written in PEM form is read back, and a certificate
  holds the public key it was made for.

  Shown: the configuration is made exactly when the four calls that can fail succeed, and an error
  names the first that failed; two nodes with such configurations always connect, whatever the
  time and the certificates; and the certificate of a node changes when the node is restarted, so
  that a client that pins certificates refuses it.
\<close>

subsection \<open>Configuration\<close>

datatype ExtKeyUsage = ExtKeyUsageClientAuth | ExtKeyUsageServerAuth

datatype KeyUsage = KeyUsageDigitalSignature

record x509_template =
  xt_SerialNumber :: int
  xt_NotBefore :: go_time
  xt_NotAfter :: go_time
  xt_KeyUsage :: KeyUsage
  xt_ExtKeyUsage :: "ExtKeyUsage list"

definition VersionTLS13 :: uint16 where "VersionTLS13 = 0x0304"

text \<open>A certificate of a configuration is its DER form with the private key.\<close>

record 'key tls_Config =
  tc_Certificates :: "(bytes \<times> 'key) list"
  tc_InsecureSkipVerify :: bool
  tc_NextProtos :: "string list"
  tc_MinVersion :: uint16

record 'key tls_library =
  tl_GenerateKey :: "bytes \<Rightarrow> 'key option"
  tl_PublicKey :: "'key \<Rightarrow> bytes"
  tl_CreateCertificate :: "bytes \<Rightarrow> x509_template \<Rightarrow> x509_template \<Rightarrow> bytes \<Rightarrow> 'key \<Rightarrow> bytes option"
  tl_EncodeToMemory :: "string \<Rightarrow> bytes \<Rightarrow> bytes"
  tl_MarshalPKCS8PrivateKey :: "'key \<Rightarrow> bytes option"
  tl_X509KeyPair :: "bytes \<Rightarrow> bytes \<Rightarrow> (bytes \<times> 'key) option"

datatype tls_error = GenerateKeyFailed | CreateCertificateFailed | MarshalKeyFailed | LoadKeypairFailed

text \<open>One hour and 365 days, in nanoseconds. The clock is read twice, \<open>now\<close> and \<open>now'\<close>; \<open>seed\<close> and \<open>seed'\<close>
  are what the random source gives to the two calls that read it.\<close>

definition tls_template :: "go_time \<Rightarrow> go_time \<Rightarrow> x509_template" where
  "tls_template now now' =
     \<lparr>xt_SerialNumber = 1, xt_NotBefore = now - 3600 * 1000000000, xt_NotAfter = now' + 365 * 24 * 3600 * 1000000000,
      xt_KeyUsage = KeyUsageDigitalSignature, xt_ExtKeyUsage = [ExtKeyUsageClientAuth, ExtKeyUsageServerAuth]\<rparr>"

definition GenerateTLSConfig ::
  "'key tls_library \<Rightarrow> bytes \<Rightarrow> bytes \<Rightarrow> go_time \<Rightarrow> go_time \<Rightarrow> (tls_error, 'key tls_Config) outcome" where
  "GenerateTLSConfig lib seed seed' now now' =
     (case tl_GenerateKey lib seed of
        None \<Rightarrow> Error GenerateKeyFailed
      | Some key \<Rightarrow>
          (let template = tls_template now now'
           in case tl_CreateCertificate lib seed' template template (tl_PublicKey lib key) key of
                None \<Rightarrow> Error CreateCertificateFailed
              | Some certDER \<Rightarrow>
                  (let certPEM = tl_EncodeToMemory lib ''CERTIFICATE'' certDER
                   in case tl_MarshalPKCS8PrivateKey lib key of
                        None \<Rightarrow> Error MarshalKeyFailed
                      | Some keyBytes \<Rightarrow>
                          (let keyPEM = tl_EncodeToMemory lib ''PRIVATE KEY'' keyBytes
                           in case tl_X509KeyPair lib certPEM keyPEM of
                                None \<Rightarrow> Error LoadKeypairFailed
                              | Some cert \<Rightarrow>
                                  Return \<lparr>tc_Certificates = [cert], tc_InsecureSkipVerify = True,
                                    tc_NextProtos = [''magictun''], tc_MinVersion = VersionTLS13\<rparr>))))"

subsection \<open>Handshake\<close>

text \<open>
  What \<open>tls.Dial\<close> makes of the two configurations: the server shows its first certificate, both ends
  agree on a version, of which 1.3 is the highest, and on a protocol if both name some, and the client
  has the certificate verified unless it skips that. The result is the argument of \<open>Transport_Dial\<close>;
  \<open>spki\<close> is the public key of a certificate.
\<close>

definition tls_handshake ::
  "(bytes \<Rightarrow> bytes) \<Rightarrow> (bytes \<Rightarrow> bool) \<Rightarrow> 'key tls_Config \<Rightarrow> 'key tls_Config \<Rightarrow> raw_conn \<Rightarrow> (raw_conn \<times> bytes list) option" where
  "tls_handshake spki verify client server raw =
     (case tc_Certificates server of
        [] \<Rightarrow> None
      | (cert, _) # _ \<Rightarrow>
          if tc_MinVersion client > VersionTLS13 \<or> tc_MinVersion server > VersionTLS13 then None
          else if tc_NextProtos client \<noteq> [] \<and> tc_NextProtos server \<noteq> [] \<and>
            \<not> list_ex (\<lambda>p. p \<in> set (tc_NextProtos server)) (tc_NextProtos client) then None
          else if \<not> tc_InsecureSkipVerify client \<and> \<not> verify cert then None
          else Some (raw, [spki cert]))"

definition tls_library_ok :: "'key tls_library \<Rightarrow> (bytes \<Rightarrow> bytes) \<Rightarrow> bool" where
  "tls_library_ok lib spki \<longleftrightarrow>
     (\<forall>seed t pub key der kb. tl_CreateCertificate lib seed t t pub key = Some der \<longrightarrow> spki der = pub \<and>
        (pub = tl_PublicKey lib key \<and> tl_MarshalPKCS8PrivateKey lib key = Some kb \<longrightarrow>
           tl_X509KeyPair lib (tl_EncodeToMemory lib ''CERTIFICATE'' der) (tl_EncodeToMemory lib ''PRIVATE KEY'' kb) =
             Some (der, key)))"

subsection \<open>Lemmas\<close>

lemma GenerateTLSConfig_Return:
  assumes "tls_library_ok lib spki" and "GenerateTLSConfig lib seed seed' now now' = Return cfg"
  obtains key der where "tl_GenerateKey lib seed = Some key" "tc_Certificates cfg = [(der, key)]"
    "spki der = tl_PublicKey lib key" "tc_InsecureSkipVerify cfg" "tc_NextProtos cfg = [''magictun'']"
    "tc_MinVersion cfg = VersionTLS13"
    "tl_CreateCertificate lib seed' (tls_template now now') (tls_template now now') (tl_PublicKey lib key) key = Some der"
proof -
  let ?t = "tls_template now now'"
  from assms(2) obtain key der kb cert where calls: "tl_GenerateKey lib seed = Some key"
    "tl_CreateCertificate lib seed' ?t ?t (tl_PublicKey lib key) key = Some der" "tl_MarshalPKCS8PrivateKey lib key = Some kb"
    "tl_X509KeyPair lib (tl_EncodeToMemory lib ''CERTIFICATE'' der) (tl_EncodeToMemory lib ''PRIVATE KEY'' kb) = Some cert"
    and cfg: "cfg = \<lparr>tc_Certificates = [cert], tc_InsecureSkipVerify = True, tc_NextProtos = [''magictun''], tc_MinVersion = VersionTLS13\<rparr>"
    by (auto simp: GenerateTLSConfig_def Let_def split: option.splits)
  from assms(1) calls(2-4) have "spki der = tl_PublicKey lib key" "cert = (der, key)"
    unfolding tls_library_ok_def by force+
  with calls(1,2) cfg show thesis by (intro that) simp_all
qed

text \<open>Which call failed, and no panic.\<close>

lemma GenerateTLSConfig_result:
  "(\<exists>cfg. GenerateTLSConfig lib seed seed' now now' = Return cfg) \<longleftrightarrow>
     (\<exists>key der kb. tl_GenerateKey lib seed = Some key \<and>
        tl_CreateCertificate lib seed' (tls_template now now') (tls_template now now') (tl_PublicKey lib key) key = Some der \<and>
        tl_MarshalPKCS8PrivateKey lib key = Some kb \<and>
        tl_X509KeyPair lib (tl_EncodeToMemory lib ''CERTIFICATE'' der) (tl_EncodeToMemory lib ''PRIVATE KEY'' kb) \<noteq> None)"
  "GenerateTLSConfig lib seed seed' now now' \<noteq> Panic"
  by (auto simp: GenerateTLSConfig_def Let_def split: option.splits)

subsection \<open>Properties\<close>

text \<open>
  C27: Nodes connect by TLS without authenticating each other by it. Two nodes whose configurations were
  generated at any times get a connection when one dials the other, whatever a verification of the
  certificate would say, an expired one included. A client that pins certificates accepts the server at
  its first connection, and again as long as the server has the same key; once the server has
  generated its configuration anew, with a key of another hash, the dial fails with a pin mismatch
  and the pins stay as they were.
\<close>

theorem tls_connects_and_pins:
  assumes "tls_library_ok lib spki" and "\<And>b. length (sha256 b) = 32" and "pins addr = None"
    and "GenerateTLSConfig lib seed1 seed1' t1 t1' = Return client" and "GenerateTLSConfig lib seed2 seed2' t2 t2' = Return server"
    and "GenerateTLSConfig lib seed3 seed3' t3 t3' = Return restarted"
    and "map_option (\<lambda>key. sha256 (tl_PublicKey lib key)) (tl_GenerateKey lib seed2) \<noteq>
      map_option (\<lambda>key. sha256 (tl_PublicKey lib key)) (tl_GenerateKey lib seed3)"
  shows "fst (Transport_Dial sha256 ok addr (tls_handshake spki verify client server raw) None) = Return (newConn raw) \<and>
    (\<exists>pins' mismatch. Transport_Dial sha256 True addr (tls_handshake spki verify client server raw) (Some pins) =
        (Return (newConn raw), Some pins') \<and>
      Transport_Dial sha256 ok addr (tls_handshake spki verify client server raw') (Some pins') =
        (Return (newConn raw'), Some pins') \<and>
      Transport_Dial sha256 ok addr (tls_handshake spki verify client restarted raw') (Some pins') =
        (Error (PinCheck mismatch), Some pins'))"
proof -
  obtain k2 der2 where k2: "tl_GenerateKey lib seed2 = Some k2" "tc_Certificates server = [(der2, k2)]"
    "spki der2 = tl_PublicKey lib k2" "tc_NextProtos server = [''magictun'']" "tc_MinVersion server = VersionTLS13"
    using GenerateTLSConfig_Return [OF assms(1,5)] by metis
  obtain k3 der3 where k3: "tl_GenerateKey lib seed3 = Some k3" "tc_Certificates restarted = [(der3, k3)]"
    "spki der3 = tl_PublicKey lib k3" "tc_NextProtos restarted = [''magictun'']" "tc_MinVersion restarted = VersionTLS13"
    using GenerateTLSConfig_Return [OF assms(1,6)] by metis
  have c: "tc_InsecureSkipVerify client" "tc_NextProtos client = [''magictun'']" "tc_MinVersion client = VersionTLS13"
    using GenerateTLSConfig_Return [OF assms(1,4)] by metis+
  have dials: "tls_handshake spki verify client server r = Some (r, [tl_PublicKey lib k2])"
    "tls_handshake spki verify client restarted r = Some (r, [tl_PublicKey lib k3])" for r
    using c k2 k3 by (simp_all add: tls_handshake_def)
  have "sha256 (tl_PublicKey lib k2) \<noteq> sha256 (tl_PublicKey lib k3)" using assms(7) k2(1) k3(1) by simp
  then show ?thesis
    using assms(2,3) unfolding dials
    by (auto simp: Transport_Dial_def PinStore_Check_def certSPKIHash_def Let_def slice_of_Return)
qed

text \<open>A library in which a key is a byte and a certificate its public key.\<close>

definition plain_library :: "byte tls_library" where
  "plain_library = \<lparr>tl_GenerateKey = (\<lambda>seed. case seed of [] \<Rightarrow> None | k # _ \<Rightarrow> Some k), tl_PublicKey = (\<lambda>k. [k]),
     tl_CreateCertificate = (\<lambda>_ _ _ pub _. Some pub), tl_EncodeToMemory = (\<lambda>_ b. b),
     tl_MarshalPKCS8PrivateKey = (\<lambda>k. Some [k]), tl_X509KeyPair = (\<lambda>der kb. if kb = [] then None else Some (der, hd kb))\<rparr>"

lemma plain_library_ok: "tls_library_ok plain_library (\<lambda>der. der)"
  by (simp add: tls_library_ok_def plain_library_def)

lemma plain_config: "\<exists>cfg. GenerateTLSConfig plain_library [k] [] t t' = Return cfg"
  by (simp add: GenerateTLSConfig_def plain_library_def Let_def)

theorem tls_connects_and_pins_witness:
  "\<exists>client server restarted pins' mismatch. GenerateTLSConfig plain_library [1] [] 0 1 = Return client \<and>
     GenerateTLSConfig plain_library [2] [] 5 6 = Return server \<and> GenerateTLSConfig plain_library [3] [] 9 10 = Return restarted \<and>
     Transport_Dial (copy_array 32) True ''peer:9443'' (tls_handshake (\<lambda>der. der) (\<lambda>_. False) client server \<lparr>raw_sent = [], raw_plan = []\<rparr>)
       (Some Map.empty) = (Return (newConn \<lparr>raw_sent = [], raw_plan = []\<rparr>), Some pins') \<and>
     Transport_Dial (copy_array 32) True ''peer:9443'' (tls_handshake (\<lambda>der. der) (\<lambda>_. False) client restarted \<lparr>raw_sent = [], raw_plan = []\<rparr>)
       (Some pins') = (Error (PinCheck mismatch), Some pins')"
proof -
  obtain client server restarted where g: "GenerateTLSConfig plain_library [1] [] 0 1 = Return client"
    "GenerateTLSConfig plain_library [2] [] 5 6 = Return server" "GenerateTLSConfig plain_library [3] [] 9 10 = Return restarted"
    using plain_config by meson
  have len: "length (copy_array 32 b) = 32" for b :: bytes by simp
  have "map_option (\<lambda>key. copy_array 32 (tl_PublicKey plain_library key)) (tl_GenerateKey plain_library [2]) \<noteq>
      map_option (\<lambda>key. copy_array 32 (tl_PublicKey plain_library key)) (tl_GenerateKey plain_library [3])"
    by (simp add: plain_library_def copy_array_def)
  from tls_connects_and_pins [THEN conjunct2, OF plain_library_ok len _ g this, of Map.empty] g show ?thesis by blast
qed

end
