(* ===== verification/Transport_UDP.thy ===== *)
theory Transport_UDP
  imports Forward_Session
begin

text \<open>
  The UDP socket wrapper of transport/udp.go over a model of the sockets of one network: each has
  its local address, for a connected one the remote address, and the datagrams that wait to be read.
  Whether the network loses a datagram is an argument of each send; a read with nothing to read
  blocks, which is \<open>None\<close>.

  Shown: what one end sends reaches the socket bound to the address and no other, cut to the
  reader's buffer and with the sender's address; and a connected socket takes datagrams of its peer only.
\<close>

subsection \<open>Sockets\<close>

record udp_socket =
  us_local :: UDPAddr
  us_remote :: "UDPAddr option"
  us_queue :: "(UDPAddr \<times> bytes) list"
  us_open :: bool

type_synonym udp_world = "udp_socket list"

datatype udp_error = UdpResolve | UdpBind | UdpClosed | WriteToConnected | DestinationRequired

definition takes_datagram :: "UDPAddr \<Rightarrow> UDPAddr \<Rightarrow> udp_socket \<Rightarrow> bool" where
  "takes_datagram src dst s \<longleftrightarrow> us_open s \<and> us_local s = dst \<and> (us_remote s = None \<or> us_remote s = Some src)"

definition udp_deliver_to :: "UDPAddr \<Rightarrow> UDPAddr \<Rightarrow> bytes \<Rightarrow> udp_world \<Rightarrow> udp_world" where
  "udp_deliver_to src dst b w =
     map (\<lambda>s. if takes_datagram src dst s then s\<lparr>us_queue := us_queue s @ [(src, b)]\<rparr> else s) w"

subsection \<open>The wrapper\<close>

text \<open>The wrapper holds its socket only; \<open>bind\<close> is the local address the system gives, if it gives one.\<close>

record UDPConn =
  udp_conn :: nat

definition ListenUDP ::
  "(string \<Rightarrow> UDPAddr option) \<Rightarrow> (UDPAddr \<Rightarrow> UDPAddr option) \<Rightarrow> string \<Rightarrow> udp_world \<Rightarrow> (udp_error, UDPConn) outcome \<times> udp_world" where
  "ListenUDP ResolveUDPAddr bind addr w =
     (case ResolveUDPAddr addr of
        None \<Rightarrow> (Error UdpResolve, w)
      | Some udpAddr \<Rightarrow>
          (case bind udpAddr of
             None \<Rightarrow> (Error UdpBind, w)
           | Some local \<Rightarrow>
               (Return \<lparr>udp_conn = length w\<rparr>, w @ [\<lparr>us_local = local, us_remote = None, us_queue = [], us_open = True\<rparr>])))"

definition DialUDP ::
  "(string \<Rightarrow> UDPAddr option) \<Rightarrow> UDPAddr option \<Rightarrow> string \<Rightarrow> udp_world \<Rightarrow> (udp_error, UDPConn) outcome \<times> udp_world" where
  "DialUDP ResolveUDPAddr bind addr w =
     (case ResolveUDPAddr addr of
        None \<Rightarrow> (Error UdpResolve, w)
      | Some udpAddr \<Rightarrow>
          (case bind of
             None \<Rightarrow> (Error UdpBind, w)
           | Some local \<Rightarrow>
               (Return \<lparr>udp_conn = length w\<rparr>,
                w @ [\<lparr>us_local = local, us_remote = Some udpAddr, us_queue = [], us_open = True\<rparr>])))"

definition UDPConn_ReadFrom :: "nat \<Rightarrow> UDPConn \<Rightarrow> udp_world \<Rightarrow> ((udp_error, bytes \<times> UDPAddr) outcome \<times> udp_world) option" where
  "UDPConn_ReadFrom n u w =
     (let i = udp_conn u; s = w ! i
      in if \<not> us_open s then Some (Error UdpClosed, w)
         else case us_queue s of
                [] \<Rightarrow> None
              | (src, b) # q \<Rightarrow> Some (Return (take n b, src), w[i := s\<lparr>us_queue := q\<rparr>]))"

definition UDPConn_Read :: "nat \<Rightarrow> UDPConn \<Rightarrow> udp_world \<Rightarrow> ((udp_error, bytes) outcome \<times> udp_world) option" where
  "UDPConn_Read n u w =
     (let i = udp_conn u; s = w ! i
      in if \<not> us_open s then Some (Error UdpClosed, w)
         else case us_queue s of
                [] \<Rightarrow> None
              | (_, b) # q \<Rightarrow> Some (Return (take n b), w[i := s\<lparr>us_queue := q\<rparr>]))"

definition UDPConn_WriteTo :: "bool \<Rightarrow> bytes \<Rightarrow> UDPAddr \<Rightarrow> UDPConn \<Rightarrow> udp_world \<Rightarrow> (udp_error, nat) outcome \<times> udp_world" where
  "UDPConn_WriteTo lost b addr u w =
     (let s = w ! udp_conn u
      in if \<not> us_open s then (Error UdpClosed, w)
         else if us_remote s \<noteq> None then (Error WriteToConnected, w)
         else (Return (length b), if lost then w else udp_deliver_to (us_local s) addr b w))"

definition UDPConn_Write :: "bool \<Rightarrow> bytes \<Rightarrow> UDPConn \<Rightarrow> udp_world \<Rightarrow> (udp_error, nat) outcome \<times> udp_world" where
  "UDPConn_Write lost b u w =
     (let s = w ! udp_conn u
      in if \<not> us_open s then (Error UdpClosed, w)
         else case us_remote s of
                None \<Rightarrow> (Error DestinationRequired, w)
              | Some addr \<Rightarrow> (Return (length b), if lost then w else udp_deliver_to (us_local s) addr b w))"

definition UDPConn_Close :: "UDPConn \<Rightarrow> udp_world \<Rightarrow> (udp_error, unit) outcome \<times> udp_world" where
  "UDPConn_Close u w =
     (let i = udp_conn u
      in if us_open (w ! i) then (Return (), w[i := (w ! i)\<lparr>us_open := False\<rparr>]) else (Error UdpClosed, w))"

definition UDPConn_LocalAddr :: "UDPConn \<Rightarrow> udp_world \<Rightarrow> UDPAddr" where
  "UDPConn_LocalAddr u w = us_local (w ! udp_conn u)"

definition UDPConn_RemoteAddr :: "UDPConn \<Rightarrow> udp_world \<Rightarrow> UDPAddr option" where
  "UDPConn_RemoteAddr u w = us_remote (w ! udp_conn u)"

subsection \<open>Delivery\<close>

lemma length_udp_deliver_to [simp]: "length (udp_deliver_to src dst b w) = length w"
  by (simp add: udp_deliver_to_def)

lemma nth_udp_deliver_to [simp]:
  "i < length w \<Longrightarrow> udp_deliver_to src dst b w ! i =
     (if takes_datagram src dst (w ! i) then (w ! i)\<lparr>us_queue := us_queue (w ! i) @ [(src, b)]\<rparr> else w ! i)"
  by (simp add: udp_deliver_to_def)

text \<open>A datagram that is not lost is read at the socket it was sent to, and the sockets bound elsewhere
  are as before.\<close>

theorem datagram_delivered:
  assumes "udp_conn u < length w" "us_open (w ! udp_conn u)" "us_remote (w ! udp_conn u) = None"
    and "udp_conn v < length w" "us_open (w ! udp_conn v)" "us_queue (w ! udp_conn v) = []"
    and "us_remote (w ! udp_conn v) = None \<or> us_remote (w ! udp_conn v) = Some (UDPConn_LocalAddr u w)"
    and "UDPConn_WriteTo False b (UDPConn_LocalAddr v w) u w = (r, w')"
  shows "r = Return (length b) \<and>
    map_option fst (UDPConn_ReadFrom n v w') = Some (Return (take n b, UDPConn_LocalAddr u w)) \<and>
    (\<forall>i<length w. us_local (w ! i) \<noteq> UDPConn_LocalAddr v w \<longrightarrow> w' ! i = w ! i)"
  using assms
  by (auto simp: UDPConn_WriteTo_def UDPConn_ReadFrom_def UDPConn_LocalAddr_def takes_datagram_def Let_def)

text \<open>A connected socket that answers the server it dialled: the server reads the client's address, and
  what it writes there is what the client reads.\<close>

theorem udp_request_answer:
  assumes "ListenUDP resolve (\<lambda>a. Some a) saddr w0 = (Return server, w1)"
    and "DialUDP resolve (Some caddr) saddr w1 = (Return client, w2)"
    and "UDPConn_Write False req client w2 = (r1, w3)"
    and "UDPConn_ReadFrom n server w3 = Some (Return (req', from), w4)"
    and "UDPConn_WriteTo False ans from server w4 = (r2, w5)" and "resolve saddr \<noteq> Some caddr"
  shows "req' = take n req \<and> from = caddr \<and> map_option fst (UDPConn_Read m client w5) = Some (Return (take m ans))"
proof -
  obtain sa where sa: "resolve saddr = Some sa" "sa \<noteq> caddr" using assms(1,6) by (auto simp: ListenUDP_def split: option.splits)
  let ?s = "length w0" and ?c = "Suc (length w0)"
  have ends: "udp_conn server = ?s" "udp_conn client = ?c" "length w2 = Suc ?c"
    and w2: "w2 ! ?s = \<lparr>us_local = sa, us_remote = None, us_queue = [], us_open = True\<rparr>"
      "w2 ! ?c = \<lparr>us_local = caddr, us_remote = Some sa, us_queue = [], us_open = True\<rparr>"
    using assms(1,2) sa(1) by (auto simp: ListenUDP_def DialUDP_def nth_append)
  have "w3 = udp_deliver_to caddr sa req w2" using assms(3) w2 by (simp add: UDPConn_Write_def ends Let_def)
  then have w3: "w3 ! ?s = \<lparr>us_local = sa, us_remote = None, us_queue = [(caddr, req)], us_open = True\<rparr>"
      "w3 ! ?c = w2 ! ?c" "length w3 = Suc ?c"
    using sa(2) ends w2 by (simp_all add: takes_datagram_def)
  then have answer: "req' = take n req" "from = caddr" and "w4 = w3[?s := w2 ! ?s]"
    using assms(4) w2 by (auto simp: UDPConn_ReadFrom_def ends Let_def)
  then have w4: "w4 ! ?s = w2 ! ?s" "w4 ! ?c = w2 ! ?c" "length w4 = Suc ?c" using w3 by simp_all
  have "w5 = udp_deliver_to sa caddr ans w4" using assms(5) w4 w2 answer by (simp add: UDPConn_WriteTo_def ends Let_def)
  then have "w5 ! ?c = \<lparr>us_local = caddr, us_remote = Some sa, us_queue = [(sa, ans)], us_open = True\<rparr>"
    using w4 w2 by (simp add: takes_datagram_def)
  with answer show ?thesis by (simp add: UDPConn_Read_def ends Let_def)
qed

end
