(* ===== verification/Spec2Isabelle.thy ===== *)
theory Spec2Isabelle
  imports Network_Spread Network_Expire Node_Messages Node_Shutdown Socks5_Associate Health_Server Transport_TLS Transport_UDP
begin

text \<open>
  MagicTUN is an overlay network: nodes connect to each other over TLS, learn of one another by
  gossip, exchange routes for the networks they are attached to in the manner of a path-vector
  protocol, and relay TCP connections and UDP datagrams along those routes, which clients reach
  through a SOCKS5 proxy. This library models the Go sources under src/ and proves what makes
  their parts correct, and where they are not, what exactly goes wrong.

  \<^bold>\<open>How the parts interact.\<close> A node (node/) owns one gossip engine, one route propagator with its
  routing table, the relays, the SOCKS5 server and the connections, and runs goroutines that read
  from connections, accept streams, tick and reconnect. Bytes of a control stream go through the
  frames of transport/, the signatures and decoders of wire/ and the dispatcher of the node to the
  engine, the propagator or the UDP relay, whose actions are messages to other connections. A
  client's request goes through the handshake of socks5/ and the routing table to a dial, or to a
  stream of a connection at whose other end forward/ dials the target.

  \<^bold>\<open>The language.\<close>

  \<^item> \<open>Go_Prelude\<close>: what the program uses of Go. \<open>outcome\<close> is a Go result: a value, an error or a
    panic; indexing and slicing panic out of range; machine integers are words; big-endian
    encoding; the filling of a buffer by an encoder; the order of a range loop over a map as an
    argument (\<open>range_order\<close>). It holds the locales \<open>range_update\<close> (loops over a map that change
    the entry they visit) and \<open>invariant\<close> (step relations), and the collections \<open>go_outcome\<close>,
    \<open>go_read\<close> and \<open>go_write\<close> that carry the codec proofs.
  \<^item> \<open>Go_Net\<close>, \<open>Go_Addr\<close>: addresses, masks and prefixes of package net, with their text forms and parsers.

  \<^bold>\<open>The components.\<close> Each theory opens with what it holds.

  \<^item> \<open>Identity\<close>: identity/: node identifiers, the key file, the pin store. The hash, the key
    derivation and the file system are arguments.
  \<^item> \<open>Wire_Codec\<close>, \<open>Wire_Route\<close>, \<open>Wire_Gossip\<close>, \<open>Wire_Forward\<close>: wire/. The locale \<open>codec\<close> is the
    contract of an encoder with its decoder; every message format interprets it. Signing takes
    ed25519 as arguments.
  \<^item> \<open>Route_Path\<close>, \<open>Route_Table\<close>: route/path.go and route/table.go. The table's state is the
    record \<open>RoutingTable\<close>; its specification is the set \<open>routes_of\<close> of its routes, in terms of
    which every operation is characterised. The locales \<open>selector\<close> and \<open>weighted_selector\<close> are
    what a scan for the best route needs of a comparison; \<open>route_store\<close> is the table as the
    propagator sees it.
  \<^item> \<open>Route_Propagation\<close>: route/propagation.go, on top of the table and of the route codec.
  \<^item> \<open>Gossip_Peer\<close>, \<open>Gossip_Engine\<close>: gossip/. The locale \<open>peer_directory\<close> is the peer manager as
    the engine sees it.
  \<^item> \<open>Forward_Session\<close>, \<open>Forward_Relay\<close>, \<open>Forward_TCP\<close>: forward/: UDP sessions, the UDP relay, the TCP
    relay and the splicing of two connections as a step relation over both directions.
  \<^item> \<open>Transport_Frame\<close>, \<open>Transport_Conn\<close>, \<open>Transport_Listener\<close>: transport/frame.go, conn.go and
    listener.go. The locale \<open>io_writer\<close> is the contract of a Go writer. The read loop of a connection
    is the step relation \<open>read_step\<close>, interleaved with the operations of other goroutines in
    \<open>conn_step\<close>; the listener's goroutine is \<open>accept_step\<close>.
  \<^item> \<open>Transport_TLS\<close>, \<open>Transport_UDP\<close>: transport/tls.go, with the cryptography as an argument, and the
    socket wrapper of transport/udp.go.
  \<^item> \<open>Config\<close>, \<open>Command_Line\<close>: config/ and the flags of cmd/magictun/main.go with their parsing; durations
    are parsed as the program parses them, the decoding of the file is an argument.
  \<^item> \<open>Socks5_Handshake\<close>, \<open>Socks5_Server\<close>, \<open>Socks5_Associate\<close>: socks5/: the handshake on every input, a
    connection from its handshake to its last event, and a UDP association as a step relation.
  \<^item> \<open>Node_Parts\<close>, \<open>Node\<close>, \<open>Node_Run\<close>: node/node.go. The state is the record \<open>Node\<close> with all goroutines as
    tasks; \<open>run\<close> is one step of a goroutine and \<open>node_step\<close> any step of the node, of the network around it
    or of its clients.
  \<^item> \<open>Node_Shutdown\<close>: \<open>main\<close> of cmd/magictun/main.go from its arguments to its end (\<open>main_start\<close>, \<open>main_step\<close>),
    and the wait at the end of \<open>Stop\<close>.
  \<^item> \<open>Health_Server\<close>: the HTTP endpoint of obs/health.go.

  \<^bold>\<open>Theorems on compositions.\<close>

  \<^item> \<open>Node_Safe\<close>: the invariant \<open>wf_Node\<close> of every reachable state of a node.
  \<^item> \<open>Node_Refines\<close>: the node implements the propagator and the engine: a step of the node is any number
    of steps of the two abstract machines \<open>prop_step\<close> and \<open>engine_step\<close>.
  \<^item> \<open>Node_Control\<close>, \<open>Node_Messages\<close>: on which messages the dispatcher panics; a control message from one
    node to the handler of another, through signature, frames and read loop.
  \<^item> \<open>Network\<close>, \<open>Network_Spread\<close>: a network of propagators that exchange, lose and reorder messages: what
    is stored is genuine and free of loops, and an advertisement reaches every node along every path.
  \<^item> \<open>Network_Expire\<close>: the same network when a node has gone: routes to it may circulate for a while, but
    with every round of expiry they get longer, and after 31 rounds none is left.
  \<^item> \<open>Node_Shutdown\<close>: once stopped, a node takes on no more work, and its shutdown can complete.
  \<^item> \<open>Gossip_Network\<close>: the same for engines: keys are genuine, and news reaches every node and stays.
  \<^item> This theory: a client's TCP connection from the SOCKS5 request to the dial at the node that serves
    the target, and why UDP does not get there.

  \<^bold>\<open>How code becomes definitions.\<close> A struct is a record, a method a function that takes the
  record last and returns it updated. A lock that is held for a whole method makes the method one
  step; locks have no other trace. A callback is a flag that says whether it is set, and the
  calls made to it are the handler's list of actions, in order. Clocks, random generator state,
  iteration orders and the results of the network are arguments, and theorems hold for all of
  them. A nil slice is the empty list, a nil pointer is \<open>None\<close>, except that a nil AS path is the
  empty one. Times are unbounded integers in nanoseconds. A goroutine is a task of the node; one step
  of it runs from one blocking call to the next, and \<open>node_step\<close> interleaves the steps of all tasks in
  every order. The environment of \<open>node_step\<close> may do more than a real one: it chooses every clock value,
  and the bytes that arrive on every connection.

  \<^bold>\<open>Bounds.\<close> No definition takes fuel. Loops are structural recursion or functions with a termination
  measure (the length of what is left to write or to read), with one exception: the search of the
  SOCKS5 server for a free session identifier ends only if the clock moves on, and is a
  \<open>partial_function\<close> whose termination \<open>fresh_id_terminates\<close> shows under that condition. \<open>OpenStream\<close> has the
  thousand attempts of the source, and \<open>OpenStream_succeeds\<close> shows when they are enough. Peers
  are assumed to be fewer than 65535 where a push must carry all of them, because the format
  counts them in two bytes, and the listen address of a node shorter than 256 bytes, for the same reason.

  \<^bold>\<open>What is shown.\<close> Messages and frames survive the wire, and decoders are safe on any input, with
  two exceptions that are characterised exactly. The routing table keeps its invariant, its
  lookup is optimal in every iteration order, and its removals remove what they should. Routes
  are learnt and passed on with this node in their path. Gossip spreads knowledge and never
  replaces an entry by an older one; the random choice of peers is a sample without repetition. Connections keep
  their invariant under all interleavings and deliver in order. Relays pass datagrams on unchanged.
  The SOCKS5 server accepts exactly the requests of the protocol it supports and tells the client of every
  failure. A node keeps its invariant whatever its peers send, marks every address it dials once, and
  its rate limiter and its backoff keep to their bounds. The command line means what it says, and a
  stopped node can end.
  A group of theorems states defects of the source: decoders that panic, a default route that is never
  used, withdrawals that circulate, dead peers that stay dead, keys replaced by gossip, sessions
  overwritten, UDP forwarding that loses every datagram, streams of both ends that collide, answers cut off
  by a half-closed connection, messages cut by a read buffer, a health check that cannot fail, and the
  ways in which a connection or a shutdown gets stuck.

  \<^bold>\<open>Not modelled.\<close> The cryptography, the file system, name resolution and the decoding of JSON are arguments.
  HTTP below the dispatch by path, the deadlines of sockets, which the program never sets, TCP keep-alive and
  the log leave no trace in the model. The contexts of the node, of the engine and of the SOCKS5 server and the
  channel that stops the propagator are one flag, because only \<open>Stop\<close> ends them, all at once; that the listener
  is closed then is the failing accept of \<open>accept_step\<close>. A panic of a goroutine ends the program: it is a result
  of \<open>run\<close> from which \<open>node_step\<close> does not go on.
\<close>

subsection \<open>From client to target\<close>

text \<open>The header a node sends for a target, and that it fits into a frame.\<close>

lemma forward_header_target:
  assumes "wf_target ip"
  shows "forward_header (JoinHostPort (IP_String ip) (itoa (unat port))) sid = EncodeTCPForwardHeader (target_header sid ip port)"
  using assms ParseIP_String [of ip]
  by (simp add: forward_header_def SplitHostPort_target Sscanf_port wf_target_def target_header_def)

definition forward_frame :: "uint32 \<Rightarrow> IP \<Rightarrow> uint16 \<Rightarrow> Frame" where
  "forward_frame sid ip port =
     \<lparr>f_Type = FrameData, f_StreamID = sid, f_Payload = EncodeTCPForwardHeader (target_header sid ip port)\<rparr>"

lemma length_forward_header:
  assumes "wf_target ip"
  shows "0 < length (EncodeTCPForwardHeader (target_header sid ip port))"
    "length (EncodeTCPForwardHeader (target_header sid ip port)) \<le> 32768"
  using assms wf_To16 [OF assms] target_len_cases [of "To16 ip"] length_canon_target [of "To16 ip"]
  by (auto simp: EncodeTCPForwardHeader_layout target_header_def target_layout_def)

lemma wf_forward_frame: "wf_target ip \<Longrightarrow> wf_Frame (forward_frame sid ip port)"
  using length_forward_header(2) [of ip sid port] by (simp add: wf_Frame_def forward_frame_def maxFrameSize_def)

lemma dial_peer_sends:
  assumes "getPeerConn hop n = Some c" and "c < length (n_links n)" and "wf_Conn (conn_at n c)"
    and "\<not> c_closed (conn_at n c)" and "card (dom (c_streams (conn_at n c))) < 1000"
    and "raw_plan (c_raw (conn_at n c)) = []" and "wf_target ip"
  shows "\<exists>sid s n'. dial_peer hop (JoinHostPort (IP_String ip) (itoa (unat port))) n = (Return \<lparr>sc_conn = c, sc_stream = s\<rparr>, n') \<and>
    c_streams (conn_at n c) sid = None \<and> c_streams (conn_at n' c) sid = Some s \<and>
    raw_sent (c_raw (conn_at n' c)) = raw_sent (c_raw (conn_at n c)) @ encode_frame (forward_frame sid ip port)"
proof -
  let ?k = "conn_at n c"
  obtain i where i: "i < 1000" "c_streams ?k (candidate (c_nextID ?k) i) = None"
    using free_candidate [OF assms(5)] by auto
  have "odd (c_nextID ?k)" using assms(3) by (simp add: wf_Conn_def)
  from open_attempts_finds [OF this i] obtain j where
    j: "c_streams ?k (candidate (c_nextID ?k) j) = None"
      "OpenStream ?k = (Return (length (c_objs ?k)), opened (candidate (c_nextID ?k) j) ?k)"
    using assms(4) by (auto simp: OpenStream_def)
  define sid where "sid = candidate (c_nextID ?k) j"
  define k where "k = opened sid ?k"
  have k: "c_objs k ! length (c_objs ?k) = new_stream sid 16" "c_raw k = c_raw ?k" "c_streams k sid = Some (length (c_objs ?k))"
    by (simp_all add: k_def opened_def)
  have "writeFrame (forward_frame sid ip port) k =
      (Return (), k\<lparr>c_raw := (c_raw k)\<lparr>raw_sent := raw_sent (c_raw k) @ encode_frame (forward_frame sid ip port)\<rparr>\<rparr>)"
    using assms(6) k(2) by (intro writeFrame_free wf_forward_frame assms(7)) simp
  moreover define k' where "k' = k\<lparr>c_raw := (c_raw k)\<lparr>raw_sent := raw_sent (c_raw k) @ encode_frame (forward_frame sid ip port)\<rparr>\<rparr>"
  ultimately have "Stream_Write (length (c_objs ?k)) (forward_header (JoinHostPort (IP_String ip) (itoa (unat port))) sid) k =
      (Return (length (f_Payload (forward_frame sid ip port))), k')"
    by (simp add: Stream_Write_def k(1) new_stream_def forward_header_target [OF assms(7)] forward_frame_def)
  moreover have "OpenStream ?k = (Return (length (c_objs ?k)), k)" using j(2) by (simp add: k_def sid_def)
  ultimately have "dial_peer hop (JoinHostPort (IP_String ip) (itoa (unat port))) n =
      (Return \<lparr>sc_conn = c, sc_stream = length (c_objs ?k)\<rparr>, set_conn c k' n)"
    using assms(1) k(1) by (simp add: dial_peer_def new_stream_def)
  moreover have "conn_at (set_conn c k' n) c = k'" using assms(2) by (simp add: set_conn_def conn_at_def)
  ultimately show ?thesis using j(1) k(2,3) by (intro exI [of _ sid]) (simp add: sid_def k'_def)
qed

text \<open>
  The read loop of a connection takes a frame for a stream that does not exist yet: the stream is
  made, offered to the accepting goroutine, and the payload queued on it.
\<close>

definition takes_new :: "Frame \<Rightarrow> Conn \<Rightarrow> nat \<Rightarrow> Conn \<Rightarrow> bool" where
  "takes_new f c s c' \<longleftrightarrow> (\<exists>c1 c2. read_step c LoopRead c1 (LoopAccept s f) \<and>
     read_step c1 (LoopAccept s f) c2 (LoopFrame s f) \<and> read_step c2 (LoopFrame s f) c' LoopRead)"

lemma takes_new_stream:
  assumes "c_streams c (f_StreamID f) = None" and "length (c_acceptCh c) < 64" and "f_Type f = FrameData"
  shows "\<exists>s c'. takes_new f c s c' \<and> c_acceptCh c' = c_acceptCh c @ [s] \<and>
    c_objs c' ! s = (new_stream (f_StreamID f) 16)\<lparr>sm_readCh := [f_Payload f]\<rparr>"
proof -
  let ?s = "length (c_objs c)"
  obtain c1 where c1: "add_stream (f_StreamID f) 16 c = (?s, c1)" by (simp add: add_stream_def Let_def)
  let ?c2 = "c1\<lparr>c_acceptCh := c_acceptCh c1 @ [?s]\<rparr>"
  have obj: "c_objs c1 = c_objs c @ [new_stream (f_StreamID f) 16]" "c_acceptCh c1 = c_acceptCh c"
    using c1 by (auto simp: add_stream_def Let_def)
  have "takes_new f c ?s (deliver ?s (f_Payload f) ?c2)"
    unfolding takes_new_def
  proof (intro exI conjI)
    show "read_step c LoopRead c1 (LoopAccept ?s f)" using assms(1) c1 by (rule read_step.read_new)
    show "read_step c1 (LoopAccept ?s f) ?c2 (LoopFrame ?s f)" using assms(2) obj by (intro read_step.accept_queued) simp
    show "read_step ?c2 (LoopFrame ?s f) (deliver ?s (f_Payload f) ?c2) LoopRead"
      using assms(3) obj by (intro read_step.frame_data) (simp_all add: FrameData_def FrameClose_def new_stream_def)
  qed
  with obj show ?thesis
    by (intro exI [of _ ?s] exI [of _ "deliver ?s (f_Payload f) ?c2"]) (simp add: deliver_def upd_stream_def new_stream_def)
qed

text \<open>
  Both ends of a connection number their streams alike. The first stream either end opens has the
  number one; when the frame of the other end's first stream arrives at an end that has opened one
  too, no stream is made or offered to the accept loop: the frame is queued on the end's own stream.
\<close>

lemma streams_collide:
  assumes "OpenStream (newConn raw) = (Return s, k)" and "OpenStream (newConn raw') = (Return s', k')"
    and "f_StreamID f = sm_id (c_objs k' ! s')" and "f_Type f = FrameData"
  shows "read_step k LoopRead k (LoopFrame s f) \<and> read_step k (LoopFrame s f) (deliver s (f_Payload f) k) LoopRead \<and>
    c_acceptCh (deliver s (f_Payload f) k) = []"
proof -
  have first: "s = 1 \<and> c_streams k 1 = Some 1 \<and> c_objs k ! 1 = new_stream 1 16 \<and> c_acceptCh k = []"
    if "OpenStream (newConn r) = (Return s, k)" for r s k
    using that open_attempts.simps(2) [of 999 "newConn r"]
    by (auto simp: OpenStream_def newConn_def add_stream_def Let_def ControlStreamID_def)
  note k = first [OF assms(1)] and k' = first [OF assms(2)]
  have "c_streams k (f_StreamID f) = Some s" using k k' assms(3) by (simp add: new_stream_def)
  then have "read_step k LoopRead k (LoopFrame s f)" by (rule read_step.read_known)
  moreover have "read_step k (LoopFrame s f) (deliver s (f_Payload f) k) LoopRead"
    using k assms(4) by (intro read_step.frame_data) (simp_all add: FrameData_def FrameClose_def new_stream_def)
  ultimately show ?thesis using k by (simp add: deliver_def)
qed

text \<open>What the exit node does with the stream it accepts.\<close>

lemma relay_forward_frame:
  assumes "wf_target ip" and "dial_ok (JoinHostPort (IP_String ip) (itoa (unat port)))"
    and "st = (new_stream sid 16)\<lparr>sm_readCh := [f_Payload (forward_frame sid' ip port)]\<rparr>"
  shows "\<exists>st'. HandleIncomingRelay dial_ok write_ok st =
    Some ((Return (), [Dial (JoinHostPort (IP_String ip) (itoa (unat port))), Splice, CloseTarget]), st')"
proof -
  have "Stream_Read 32768 st = Some (Return (EncodeTCPForwardHeader (target_header sid' ip port)), st\<lparr>sm_readCh := []\<rparr>)"
    using length_forward_header [OF assms(1), of sid' port]
    by (simp add: assms(3) Stream_Read_def new_stream_def forward_frame_def)
  with relay_data_header [of ip dial_ok port "[]" write_ok sid', OF assms(1,2)] show ?thesis
    by (simp add: HandleIncomingRelay_def)
qed

subsection \<open>Datagrams of the UDP relay\<close>

lemma udp_send_fields [simp]:
  "n_directOut (udp_send peer data n) = n_directOut n" "n_clientOut (udp_send peer data n) = n_clientOut n"
  by (simp_all add: udp_send_def split: option.split)

lemma udp_deliver_nothing [simp]: "udp_deliver session data n = n"
  by (simp add: udp_deliver_def DeliverUDP_def)

lemma udp_forward_sends:
  assumes "ur_sendUDP (n_udpRelay n)" and "n_udpLn n" and "n_peerUDPAddrs n (NodeID_String hop) = Some addr"
  shows "n_udpOut (udp_forward clk hop sid target payload n) =
    n_udpOut n @ [(addr, EncodeUDPForward (st_nextID (ur_sessions (n_udpRelay n))) payload)]"
  using assms by (simp add: udp_forward_def CreateSession_def Session_Create_def ForwardToPeer_def udp_send_def Let_def)

lemma relay_incoming_loses:
  assumes "DecodeUDPForward data = Return (hdr, payload)"
  shows "\<exists>n'. relay_incoming clk peer data n = Return n' \<and> n_directOut n' = n_directOut n \<and>
    n_clientOut n' = n_clientOut n \<and> (GetSession (uf_SessionID hdr) (n_udpRelay n) = None \<longrightarrow> n_udpOut n' = n_udpOut n)"
  using assms
  by (cases "GetSession (uf_SessionID hdr) (n_udpRelay n)")
     (auto simp: relay_incoming_def HandleIncoming_def GetSession_def CreateWithID_def NodeID_Equal_def ForwardToPeer_def Let_def)

subsection \<open>Properties\<close>

text \<open>
  C6: A TCP connection of a client, from the proxy to the target. A client of node \<open>n\<close> asks for an
  IPv4 or IPv6 address; the best route of the node's table goes through a peer to which a connection
  is up, with fewer than a thousand streams. Then the node opens a stream that was not in use, sends
  exactly one frame on that connection, and reports success to the client. The frame arrives as it
  was sent, and the peer, whose end of the connection does not know the stream, makes it, offers it
  to its accept loop, and the relay that gets it dials exactly the address the client asked for.
\<close>

theorem tcp_end_to_end:
  assumes "length methods < 256" and "authNone \<in> set methods" and "wf_socks_target t"
    and "t = IPv4Target ip \<or> t = IPv6Target ip"
    and "target = JoinHostPort (IP_String ip) (itoa (unat port))"
    and "se_routes env = p_table (n_prop n)" and "sv_dialPeerFunc s"
    and "se_dialPeer env = (\<lambda>hop target. \<exists>sc n'. dial_peer hop target n = (Return sc, n'))"
    and "Lookup (se_order env) (se_routes env) (To16 ip) = Some route" and "r_NextHop route \<noteq> zero_NodeID"
    and "getPeerConn (r_NextHop route) n = Some c" and "c < length (n_links n)" and "wf_Conn (conn_at n c)"
    and "\<not> c_closed (conn_at n c)" and "card (dom (c_streams (conn_at n c))) < 1000"
    and "raw_plan (c_raw (conn_at n c)) = []"
  shows "handleConnection env True (client_hello methods @ client_request cmdConnect rsv t port @ rest) s =
      [WriteClient [socks5Version, authNone], DialPeer (r_NextHop route) target, WriteClient SendSuccessReply,
       RelayConn, CloseConn, CloseClient] \<and>
    (\<exists>sid st n' f. dial_peer (r_NextHop route) target n = (Return \<lparr>sc_conn = c, sc_stream = st\<rparr>, n') \<and>
       c_streams (conn_at n c) sid = None \<and> c_streams (conn_at n' c) sid = Some st \<and> f_StreamID f = sid \<and>
       raw_sent (c_raw (conn_at n' c)) = raw_sent (c_raw (conn_at n c)) @ encode_frame f \<and>
       (\<forall>more. ReadFrame (encode_frame f @ more) = Return (f, more)) \<and>
       (\<forall>e dial_ok write_ok. c_streams e sid = None \<and> length (c_acceptCh e) < 64 \<and> dial_ok target \<longrightarrow>
          (\<exists>x e' x'. takes_new f e x e' \<and> c_acceptCh e' = c_acceptCh e @ [x] \<and>
             HandleIncomingRelay dial_ok write_ok (c_objs e' ! x) =
               Some ((Return (), [Dial target, Splice, CloseTarget]), x'))))"
proof -
  have ip: "wf_target ip" "target_host t = IP_String ip" using assms(3,4) by (auto simp: wf_target_def)
  from dial_peer_sends [OF assms(11-16) ip(1), of port] obtain sid st n' where
    d: "dial_peer (r_NextHop route) target n = (Return \<lparr>sc_conn = c, sc_stream = st\<rparr>, n')"
      "c_streams (conn_at n c) sid = None" "c_streams (conn_at n' c) sid = Some st"
      "raw_sent (c_raw (conn_at n' c)) = raw_sent (c_raw (conn_at n c)) @ encode_frame (forward_frame sid ip port)"
    unfolding assms(5) by blast
  have "handleConnection env True (client_hello methods @ client_request cmdConnect rsv t port @ rest) s =
      [WriteClient [socks5Version, authNone], DialPeer (r_NextHop route) target, WriteClient SendSuccessReply,
       RelayConn, CloseConn, CloseClient]"
    unfolding handleConnection_connect [OF assms(1-3)]
    using d(1) assms(7-10) resolve_literal [OF ip(1), of env] ParseIP_String [of ip] ip
    by (simp add: connect_target_def assms(5) SplitHostPort_target NodeID_IsZero_def wf_target_def)
  moreover have "\<exists>x e' x'. takes_new (forward_frame sid ip port) e x e' \<and> c_acceptCh e' = c_acceptCh e @ [x] \<and>
      HandleIncomingRelay dial_ok write_ok (c_objs e' ! x) = Some ((Return (), [Dial target, Splice, CloseTarget]), x')"
    if "c_streams e sid = None" "length (c_acceptCh e) < 64" "dial_ok target" for e dial_ok write_ok
  proof -
    from takes_new_stream [of e "forward_frame sid ip port"] that obtain x e' where
      "takes_new (forward_frame sid ip port) e x e'" "c_acceptCh e' = c_acceptCh e @ [x]"
      "c_objs e' ! x = (new_stream sid 16)\<lparr>sm_readCh := [f_Payload (forward_frame sid ip port)]\<rparr>"
      by (auto simp: forward_frame_def)
    with relay_forward_frame [of ip dial_ok port "c_objs e' ! x" sid sid write_ok] ip(1) that(3) show ?thesis
      unfolding assms(5) by blast
  qed
  moreover have "f_StreamID (forward_frame sid ip port) = sid" by (simp add: forward_frame_def)
  ultimately show ?thesis using d ReadFrame_encode [OF wf_forward_frame [OF ip(1)]] by blast
qed

text \<open>A node that reaches 10.1.0.0/16 through a peer, with one connection to it.\<close>

definition relaying_node :: Node where
  "relaying_node = sample_node\<lparr>n_prop := (n_prop sample_node)\<lparr>p_table := example_table\<rparr>,
     n_links := [\<lparr>lk_conn = newConn example_raw_conn, lk_loop = LoopRead, lk_remote = ''192.0.2.2:9443''\<rparr>],
     n_peerConns := [NodeID_String (replicate 16 2) \<mapsto> 0],
     n_peerUDPAddrs := [NodeID_String (replicate 16 2) \<mapsto> \<lparr>addr_IP = IPv4 192 0 2 2, addr_Port = 9443\<rparr>], n_udpLn := True\<rparr>"

definition relaying_env :: socks_env where
  "relaying_env = \<lparr>se_order = example_keys, se_routes = example_table, se_LookupIP = (\<lambda>_. None), se_dialTCP = (\<lambda>_. True),
     se_dialPeer = (\<lambda>hop target. \<exists>sc n'. dial_peer hop target relaying_node = (Return sc, n'))\<rparr>"

theorem tcp_end_to_end_witness:
  "handleConnection relaying_env True (client_hello [0] @ client_request cmdConnect 0 (IPv4Target [10, 1, 2, 3]) 80 @ []) example_server =
     [WriteClient [5, 0], DialPeer (replicate 16 2) ''10.1.2.3:80'', WriteClient SendSuccessReply, RelayConn, CloseConn, CloseClient] \<and>
   (\<exists>sc n'. dial_peer (replicate 16 2) ''10.1.2.3:80'' relaying_node = (Return sc, n'))"
proof -
  let ?r = "(example_learned 1 16 2)\<lparr>r_Timestamp := 7\<rparr>"
  have hop: "r_NextHop ?r = replicate 16 2" "replicate 16 2 \<noteq> zero_NodeID" by code_simp+
  have conn: "conn_at relaying_node 0 = newConn example_raw_conn" "0 < length (n_links relaying_node)"
    "getPeerConn (replicate 16 2) relaying_node = Some 0" "p_table (n_prop relaying_node) = example_table"
    by (simp_all add: conn_at_def relaying_node_def getPeerConn_def)
  have new: "\<not> c_closed (newConn example_raw_conn)" "card (dom (c_streams (newConn example_raw_conn))) < 1000"
    "raw_plan (c_raw (newConn example_raw_conn)) = []"
    by (simp_all add: newConn_def add_stream_def Let_def example_raw_conn_def)
  have target: "JoinHostPort (IP_String [10, 1, 2, 3]) (itoa (unat (80 :: uint16))) = ''10.1.2.3:80''" by code_simp
  have found: "Lookup example_keys example_table (To16 [10, 1, 2, 3]) = Some ?r" by code_simp
  have "authNone \<in> set [0]" "sv_dialPeerFunc example_server" "[socks5Version, authNone] = [5, 0]" by code_simp+
  with tcp_end_to_end [of "[0]" "IPv4Target [10, 1, 2, 3]" "[10, 1, 2, 3]" "''10.1.2.3:80''" 80 relaying_env relaying_node
      example_server ?r 0 0 "[]"] hop conn new target found wf_newConn
  show ?thesis by (auto simp: relaying_env_def)
qed

text \<open>
  C29: A datagram that the proxy passes to a peer is lost. The node does send it, but in a message
  that is the same for every target, so the target never leaves the node; the peer that receives
  such a message, whatever its state, never hands its payload to a
  target or to a client, and if it has no session of that number it does not pass it on either.
\<close>

theorem udp_forward_is_lost:
  assumes "ur_sendUDP (n_udpRelay a)" and "n_udpLn a" and "n_peerUDPAddrs a (NodeID_String hop) = Some addr"
  shows "\<exists>data. (\<forall>sid target. n_udpOut (udp_forward clk hop sid target payload a) = n_udpOut a @ [(addr, data)]) \<and>
    (\<forall>clk' peer b. \<exists>b'. relay_incoming clk' peer data b = Return b' \<and>
      n_directOut b' = n_directOut b \<and> n_clientOut b' = n_clientOut b \<and>
      (GetSession (st_nextID (ur_sessions (n_udpRelay a))) (n_udpRelay b) = None \<longrightarrow> n_udpOut b' = n_udpOut b))"
proof -
  let ?sid = "st_nextID (ur_sessions (n_udpRelay a))"
  have dec: "DecodeUDPForward (EncodeUDPForward ?sid payload) = Return (\<lparr>uf_SessionID = ?sid\<rparr>, payload)"
    by (simp add: DecodeUDPForward_Encode)
  from udp_forward_sends [OF assms, of clk _ _ payload] relay_incoming_loses [OF dec] show ?thesis
    by (intro exI [of _ "EncodeUDPForward ?sid payload"]) simp
qed

theorem udp_forward_is_lost_witness:
  "\<exists>data b'. n_udpOut (udp_forward (\<lambda>_. 0) (replicate 16 2) 7 \<lparr>addr_IP = IPv4 10 1 2 3, addr_Port = 53\<rparr> [1, 2, 3] relaying_node) =
       n_udpOut relaying_node @ [(\<lparr>addr_IP = IPv4 192 0 2 2, addr_Port = 9443\<rparr>, data)] \<and>
     relay_incoming (\<lambda>_. 0) (replicate 16 1) data sample_node = Return b' \<and> n_directOut b' = n_directOut sample_node \<and>
     n_clientOut b' = n_clientOut sample_node"
proof -
  have "ur_sendUDP (n_udpRelay sample_node)"
    by (simp add: sample_node_def Node_New_def sample_config_def DefaultConfig_def wireCallbacks_def fromKeypair_def Let_def
        SetDeliverFunc_def SetSendFunc_def)
  then have "ur_sendUDP (n_udpRelay relaying_node)" "n_udpLn relaying_node"
    "n_peerUDPAddrs relaying_node (NodeID_String (replicate 16 2)) = Some \<lparr>addr_IP = IPv4 192 0 2 2, addr_Port = 9443\<rparr>"
    by (simp_all add: relaying_node_def)
  from udp_forward_is_lost [OF this, of "\<lambda>_. 0" "[1, 2, 3]"] show ?thesis by blast
qed

end
